(* ===== verification/Rcq_Prelude.thy ===== *)
theory Rcq_Prelude
  imports Main
begin

text \<open>
  The prelude of the RCQ island development: the outcome type of the HTTP handlers, the model
  of the SQL statements the handlers issue on a table (a table is the list of its rows), the
  generic notion of reachable state with its invariant rule, and the list lemmas the component
  theories share. Nothing here models a file of the repository.
\<close>

named_theorems table_simps \<open>rewriting of the table operations\<close>

section \<open>Outcomes\<close>

text \<open>
  A handler answers a value or raises \<open>HTTPException(status, detail)\<close>; the limiter's
  answers also carry a \<open>Retry-After\<close> number of seconds.
\<close>

datatype http_error = HttpError (status: nat) (detail: string) (retry_after: "int option")

type_synonym 'a outcome = "http_error + 'a"

type_synonym uin = int
type_synonym device = string

text \<open>A \<open>datetime\<close> is the number of microseconds since the epoch, Python's own resolution.\<close>

type_synonym datetime = int

abbreviation seconds :: "int \<Rightarrow> int" where
  "seconds n \<equiv> n * 1000000"

abbreviation hours :: "int \<Rightarrow> int" where
  "hours n \<equiv> n * 3600000000"

abbreviation days :: "int \<Rightarrow> int" where
  "days n \<equiv> n * 86400000000"

section \<open>SQL statements on a table\<close>

text \<open>\<open>db.get\<close> on a primary key: the row the key predicate picks, if there is one.\<close>

definition get_row :: "('r \<Rightarrow> bool) \<Rightarrow> 'r list \<Rightarrow> 'r option" where
  "get_row P rows = List.find P rows"

text \<open>\<open>INSERT ... ON CONFLICT DO UPDATE\<close>, with the conflict target as a predicate.\<close>

definition upsert_row :: "('r \<Rightarrow> bool) \<Rightarrow> 'r \<Rightarrow> ('r \<Rightarrow> 'r) \<Rightarrow> 'r list \<Rightarrow> 'r list" where
  "upsert_row P new upd rows =
     (if list_ex P rows then map (\<lambda>r. if P r then upd r else r) rows else rows @ [new])"

text \<open>A unique index: no two rows of the table carry the same key.\<close>

definition unique_key :: "('r \<Rightarrow> 'k) \<Rightarrow> 'r list \<Rightarrow> bool" where
  "unique_key key rows \<longleftrightarrow> distinct (map key rows)"

lemma get_row_None [table_simps]: "get_row P rows = None \<longleftrightarrow> (\<forall>r\<in>set rows. \<not> P r)"
  by (auto simp: get_row_def find_None_iff)

lemma get_row_Some_memD: "get_row P rows = Some r \<Longrightarrow> r \<in> set rows \<and> P r"
  by (auto simp: get_row_def find_Some_iff)

lemma get_row_append:
  "get_row P (xs @ ys) = (case get_row P xs of None \<Rightarrow> get_row P ys | Some r \<Rightarrow> Some r)"
  unfolding get_row_def by (induction xs) auto

lemma get_row_Cons: "get_row P (x # xs) = (if P x then Some x else get_row P xs)"
  by (simp add: get_row_def)

lemma get_row_Nil [simp]: "get_row P [] = None"
  by (simp add: get_row_def)

lemma get_row_map_keep:
  assumes "\<And>r. P (upd r) = P r"
  shows "get_row P (map (\<lambda>r. if Q r then upd r else r) rows) =
           map_option (\<lambda>r. if Q r then upd r else r) (get_row P rows)"
  using assms by (induction rows) (auto simp: get_row_Cons)

text \<open>What a statement on key \<open>P\<close> leaves behind for key \<open>P\<close> and for every other key.\<close>

lemma get_upsert_same [table_simps]:
  assumes "\<And>r. P (upd r) = P r" and "P new"
  shows "get_row P (upsert_row P new upd rows) =
           Some (case get_row P rows of None \<Rightarrow> new | Some r \<Rightarrow> upd r)"
proof (cases "get_row P rows")
  case None
  then have "\<not> list_ex P rows" by (auto simp: table_simps list_ex_iff)
  with None assms(2) show ?thesis
    by (simp add: upsert_row_def get_row_append get_row_Cons)
next
  case (Some r)
  then have "list_ex P rows" "P r" by (auto dest: get_row_Some_memD simp: list_ex_iff)
  with Some show ?thesis
    using get_row_map_keep [where P = P and Q = P and upd = upd, OF assms(1)]
    by (simp add: upsert_row_def)
qed

lemma get_upsert_other [table_simps]:
  assumes "\<And>r. P r \<Longrightarrow> \<not> Q r" and "\<And>r. Q (upd r) = Q r" and "P new"
  shows "get_row Q (upsert_row P new upd rows) = get_row Q rows"
proof (cases "list_ex P rows")
  case True
  have "get_row Q (map (\<lambda>r. if P r then upd r else r) rows) =
          map_option (\<lambda>r. if P r then upd r else r) (get_row Q rows)"
    by (rule get_row_map_keep) (rule assms(2))
  also have "\<dots> = get_row Q rows"
    using assms(1) by (cases "get_row Q rows") (auto dest: get_row_Some_memD)
  finally show ?thesis using True by (simp add: upsert_row_def)
next
  case False
  then show ?thesis using assms(1,3)
    by (auto simp: upsert_row_def get_row_append get_row_Cons split: option.splits)
qed

lemma list_ex_upsert:
  assumes "\<And>r. P (upd r) = P r" and "P new"
  shows "list_ex P (upsert_row P new upd rows)"
  using get_upsert_same [where P = P and upd = upd and rows = rows, OF assms]
  by (auto simp: list_ex_iff dest: get_row_Some_memD)

lemma unique_key_upsert:
  assumes "unique_key key rows" and "\<And>r. key (upd r) = key r"
    and "\<And>r. P r = (key r = key new)"
  shows "unique_key key (upsert_row P new upd rows)"
proof (cases "list_ex P rows")
  case True
  have "map key (map (\<lambda>r. if P r then upd r else r) rows) = map key rows"
    using assms(2) by auto
  with True assms(1) show ?thesis by (simp only: unique_key_def upsert_row_def if_True)
next
  case False
  with assms show ?thesis by (auto simp: unique_key_def upsert_row_def list_ex_iff)
qed

lemma unique_key_filter: "unique_key key rows \<Longrightarrow> unique_key key (filter P rows)"
  unfolding unique_key_def by (induction rows) auto

lemma unique_key_get_row:
  assumes "unique_key key rows" and "r \<in> set rows"
  shows "get_row (\<lambda>x. key x = key r) rows = Some r"
  using assms unfolding unique_key_def
  by (induction rows) (auto simp: get_row_Cons)

lemma set_upsert_row:
  "set (upsert_row P new upd rows) \<subseteq>
     {r \<in> set rows. \<not> P r} \<union> upd ` {r \<in> set rows. P r} \<union> {new}"
  by (auto simp: upsert_row_def list_ex_iff)

text \<open>\<open>coalesce(max(column), 0)\<close> and Python's \<open>max(values, default=d)\<close>.\<close>

definition max_default :: "int \<Rightarrow> int list \<Rightarrow> int" where
  "max_default d xs = (if xs = [] then d else Max (set xs))"

lemma max_default_ge: "x \<in> set xs \<Longrightarrow> x \<le> max_default d xs"
  by (auto simp: max_default_def)

lemma max_default_cases: "max_default d xs = d \<or> max_default d xs \<in> set xs"
  by (auto simp: max_default_def)

lemma get_row_filter_kept:
  assumes "get_row P rows = Some r" and "Q r"
  shows "get_row P (filter Q rows) = Some r"
  using assms by (induction rows) (auto simp: get_row_Cons split: if_splits)

lemma get_row_filter_None: "get_row P rows = None \<Longrightarrow> get_row P (filter Q rows) = None"
  by (auto simp: table_simps)

section \<open>Reachable states\<close>

inductive reachable :: "('s \<Rightarrow> bool) \<Rightarrow> ('s \<Rightarrow> 's \<Rightarrow> bool) \<Rightarrow> 's \<Rightarrow> bool"
  for init :: "'s \<Rightarrow> bool" and step :: "'s \<Rightarrow> 's \<Rightarrow> bool" where
  start: "init s \<Longrightarrow> reachable init step s"
| next_state: "reachable init step s \<Longrightarrow> step s t \<Longrightarrow> reachable init step t"

text \<open>
  The interface of an invariant: a state predicate that holds at the start and is kept by
  every step. The client's one lemma is that it holds in every reachable state.
\<close>

locale step_invariant =
  fixes init :: "'s \<Rightarrow> bool" and step :: "'s \<Rightarrow> 's \<Rightarrow> bool" and inv :: "'s \<Rightarrow> bool"
  assumes inv_init: "init s \<Longrightarrow> inv s"
    and inv_step: "step s t \<Longrightarrow> inv s \<Longrightarrow> inv t"
begin

lemma reachable_inv: "reachable init step s \<Longrightarrow> inv s"
  by (induction rule: reachable.induct) (auto intro: inv_init inv_step)

end

section \<open>Python's \<open>str\<close> of an integer\<close>

definition digit_char :: "nat \<Rightarrow> char" where
  "digit_char d = char_of (48 + d)"

fun show_nat :: "nat \<Rightarrow> string" where
  "show_nat n = (if n < 10 then [digit_char n] else show_nat (n div 10) @ [digit_char (n mod 10)])"

declare show_nat.simps [simp del]

definition show_int :: "int \<Rightarrow> string" where
  "show_int i = (if i < 0 then CHR ''-'' # show_nat (nat (- i)) else show_nat (nat i))"

fun read_nat :: "nat \<Rightarrow> string \<Rightarrow> nat" where
  "read_nat acc [] = acc"
| "read_nat acc (c # cs) = read_nat (acc * 10 + (of_char c - 48)) cs"

definition is_digit :: "char \<Rightarrow> bool" where
  "is_digit c \<longleftrightarrow> 48 \<le> (of_char c :: nat) \<and> (of_char c :: nat) \<le> 57"

lemma of_char_digit_char: "d < 10 \<Longrightarrow> (of_char (digit_char d) :: nat) = 48 + d"
  by (simp add: digit_char_def)

lemma is_digit_digit_char: "d < 10 \<Longrightarrow> is_digit (digit_char d)"
  by (simp add: is_digit_def of_char_digit_char)

lemma read_nat_append: "read_nat acc (xs @ ys) = read_nat (read_nat acc xs) ys"
  by (induction xs arbitrary: acc) auto

lemma read_show_nat: "read_nat 0 (show_nat n) = n"
proof (induction n rule: show_nat.induct)
  case (1 n)
  show ?case
  proof (cases "n < 10")
    case True
    then show ?thesis by (simp add: show_nat.simps [of n] of_char_digit_char)
  next
    case False
    with "1.IH" have "read_nat 0 (show_nat (n div 10)) = n div 10" by simp
    with False show ?thesis
      by (simp add: show_nat.simps [of n] read_nat_append of_char_digit_char)
  qed
qed

lemma show_nat_digits: "c \<in> set (show_nat n) \<Longrightarrow> is_digit c"
proof (induction n rule: show_nat.induct)
  case (1 n)
  then show ?case
    by (cases "n < 10") (auto simp: show_nat.simps [of n] is_digit_digit_char)
qed

lemma show_nat_nonempty: "show_nat n \<noteq> []"
  by (subst show_nat.simps) simp

lemma show_nat_inject: "show_nat m = show_nat n \<longleftrightarrow> m = n"
  by (metis read_show_nat)

lemma show_int_inject: "show_int i = show_int j \<longleftrightarrow> i = j"
proof -
  have minus: "CHR ''-'' \<notin> set (show_nat n)" for n
    using show_nat_digits [of "CHR ''-''" n] by (auto simp: is_digit_def)
  then have "CHR ''-'' # xs \<noteq> show_nat n" for xs n
    by (metis list.set_intros(1))
  then have "show_int i \<noteq> show_int j" if "i < 0" "0 \<le> j" for i j
    using that by (auto simp: show_int_def)
  moreover have "show_int i = show_int j \<longleftrightarrow> i = j" if "(i < 0) = (j < 0)"
    using that by (auto simp: show_int_def show_nat_inject)
  ultimately show ?thesis by (metis not_less)
qed

section \<open>Lists\<close>

lemma length_filter_le_card:
  "distinct (filter P xs) \<Longrightarrow> length (filter P xs) = card {x \<in> set xs. P x}"
  by (metis distinct_card set_filter)

lemma takeWhile_take: "takeWhile P xs = take (length (takeWhile P xs)) xs"
  by (induction xs) auto

lemma sum_list_take_le:
  "(\<And>x. x \<in> set xs \<Longrightarrow> 0 \<le> f x) \<Longrightarrow>
     sum_list (map f (take n xs)) \<le> sum_list (map f xs)" for f :: "'a \<Rightarrow> int"
proof (induction xs arbitrary: n)
  case Nil
  then show ?case by simp
next
  case (Cons x xs)
  show ?case
  proof (cases n)
    case 0
    have "0 \<le> f x + sum_list (map f xs)"
      using Cons.prems by (auto intro!: add_nonneg_nonneg sum_list_nonneg)
    with 0 show ?thesis by simp
  next
    case (Suc m)
    then show ?thesis using Cons.IH [of m] Cons.prems by simp
  qed
qed

end
