(* ===== verification/Schema.thy ===== *)
theory Schema
  imports Rcq_Prelude
begin

text \<open>
  The tables of \<open>app/models\<close> that the modelled handlers read or write, with the columns those
  handlers use, and the island's state: the tables, the serial counters behind their integer
  primary keys, and the Redis keys the handlers share. A column no modelled handler reads is
  left out; the JSON of the push preferences is a record of its keys, each of which may be
  missing. \<open>redis_up\<close> says whether Redis answers: while it is false every Redis call of
  the code raises.
\<close>

record push_prefs =
  pp_contact_requests :: "bool option"
  pp_trades_from_contacts :: "bool option"
  pp_trades_from_strangers :: "bool option"
  pp_muted_uins :: "int list option"
  pp_muted_group_ids :: "int list option"

record user =
  u_uin :: uin
  u_last_seen :: datetime
  u_created_at :: datetime
  u_guest_status :: "string option"
  u_push_preferences :: "push_prefs option"
  u_suspended :: bool
  u_group_invite_policy :: "string option"

record device_token =
  dt_id :: int
  dt_uin :: uin
  dt_token :: string
  dt_platform :: string
  dt_device_id :: "device option"
  dt_push_last_error :: "string option"
  dt_push_last_ok :: "datetime option"

record room =
  g_id :: int
  g_owner_uin :: uin
  g_post_policy :: string
  g_slowmode_sec :: int
  g_min_account_age_hours :: int
  g_name :: string
  g_description :: "string option"
  g_is_closed :: bool
  g_allow_guests :: "bool option"
  g_members_hidden :: bool
  g_links_allowed :: bool
  g_files_allowed :: bool
  g_in_catalog :: bool
  g_badge :: "string option"
  g_state_blob :: "nat list option"
  g_state_ver :: int
  g_pinned_text :: "string option"
  g_pinned_at :: "datetime option"
  g_share_token :: "string option"
  g_link_reset_at :: "datetime option"
  g_avatar_media_id :: "string option"
  g_avatar_media_key :: "string option"

record group_member =
  gm_group_id :: int
  gm_uin :: uin
  gm_role :: string
  gm_permissions :: string
  gm_joined_at :: "datetime option"

record contact =
  ct_owner_uin :: uin
  ct_contact_uin :: uin
  ct_blocked :: bool

record offline_message =
  om_id :: int
  om_to_uin :: uin
  om_envelope_type :: string
  om_payload :: string
  om_received_at :: datetime
  om_cls :: "int option"
  om_seq :: "int option"
  om_to_device_id :: "int option"

record offline_group_message =
  og_id :: int
  og_to_uin :: uin
  og_group_id :: int
  og_envelope_type :: string
  og_payload :: string
  og_received_at :: datetime
  og_cls :: "int option"

record queue_cursor =
  qc_uin :: uin
  qc_device_id :: device
  qc_last_direct_id :: int
  qc_last_group_id :: int
  qc_updated_at :: "datetime option"

record group_log_row =
  gl_group_id :: int
  gl_seq :: int
  gl_to_uin :: "uin option"
  gl_envelope_type :: string
  gl_cls :: int
  gl_payload :: string
  gl_received_at :: datetime

record group_log_cursor =
  lc_group_id :: int
  lc_uin :: uin
  lc_device_id :: device
  lc_last_seq :: int
  lc_updated_at :: datetime

record group_log_reader =
  lr_uin :: uin
  lr_device_id :: device
  lr_first_seen :: datetime
  lr_last_seen :: datetime

text \<open>
  The Redis half of the guest policy: the mirrored set, the pending marks with the instant they
  expire, the freshness marker (the instant it expires), the marker without an expiry, and the
  poll stamps by bucket. The island's daily counters are keyed by name and day number.
\<close>

record guest_cache =
  gc_set :: "uin list"
  gc_pending :: "uin list"
  gc_pending_until :: datetime
  gc_loaded_until :: datetime
  gc_built :: bool
  gc_polls :: "string \<rightharpoonup> datetime"

record linked_device =
  ld_uin :: uin
  ld_device_id :: device
  ld_label :: string
  ld_created_at :: datetime
  ld_pending :: bool

record island =
  users :: "user list"
  user_capabilities :: "(uin \<times> bool) list"
  device_tokens :: "device_token list"
  groups :: "room list"
  group_serial :: int
  contacts :: "contact list"
  group_members :: "group_member list"
  offline_messages :: "offline_message list"
  offline_message_serial :: int
  offline_group_messages :: "offline_group_message list"
  offline_group_serial :: int
  queue_cursors :: "queue_cursor list"
  mailbox_seq :: "uin \<rightharpoonup> int"
  group_seq :: "int \<rightharpoonup> int"
  group_log :: "group_log_row list"
  group_log_cursors :: "group_log_cursor list"
  group_log_readers :: "group_log_reader list"
  linked_devices :: "linked_device list"
  guests :: guest_cache
  stats :: "string \<times> int \<Rightarrow> int"
  redis_up :: bool

text \<open>An island on which nothing has happened yet.\<close>

definition empty_guest_cache :: guest_cache where
  "empty_guest_cache = \<lparr>gc_set = [], gc_pending = [], gc_pending_until = 0,
     gc_loaded_until = 0, gc_built = False, gc_polls = Map.empty\<rparr>"

definition empty_island :: island where
  "empty_island = \<lparr>users = [], user_capabilities = [], device_tokens = [], groups = [],
     group_serial = 0, contacts = [], group_members = [], offline_messages = [], offline_message_serial = 0,
     offline_group_messages = [], offline_group_serial = 0, queue_cursors = [],
     mailbox_seq = Map.empty, group_seq = Map.empty, group_log = [], group_log_cursors = [],
     group_log_readers = [], linked_devices = [], guests = empty_guest_cache,
     stats = (\<lambda>_. 0), redis_up = True\<rparr>"

text \<open>A room with the defaults of its columns.\<close>

definition new_room :: "int \<Rightarrow> uin \<Rightarrow> string \<Rightarrow> string option \<Rightarrow> room" where
  "new_room gid owner name token = \<lparr>g_id = gid, g_owner_uin = owner, g_post_policy = ''all'', g_slowmode_sec = 0,
     g_min_account_age_hours = 0, g_name = name, g_description = None, g_is_closed = False, g_allow_guests = Some True,
     g_members_hidden = False, g_links_allowed = True, g_files_allowed = True, g_in_catalog = False, g_badge = None,
     g_state_blob = None, g_state_ver = 0, g_pinned_text = None, g_pinned_at = None, g_share_token = token,
     g_link_reset_at = None, g_avatar_media_id = None, g_avatar_media_key = None\<rparr>"

definition find_user :: "island \<Rightarrow> uin \<Rightarrow> user option" where
  "find_user s u = get_row (\<lambda>r. u_uin r = u) (users s)"

definition find_room :: "island \<Rightarrow> int \<Rightarrow> room option" where
  "find_room s g = get_row (\<lambda>r. g_id r = g) (groups s)"

definition find_member :: "island \<Rightarrow> int \<Rightarrow> uin \<Rightarrow> group_member option" where
  "find_member s g u = get_row (\<lambda>r. gm_group_id r = g \<and> gm_uin r = u) (group_members s)"

end
