(* ===== verification/Guest_Policy.thy ===== *)
theory Guest_Policy
  imports Schema
begin

text \<open>
  \<open>app/core/guest_policy.py\<close> with the mirror of \<open>app/core/single_flight.py\<close> it stands
  on: who is a guest copy, the marks written before and after the commits that create and end
  one, the rebuild of the Redis mirror, the route policy, the admission settings, and the poll
  stamp. The last section is the protocol the module promises: in every interleaving of mints,
  conversions and rebuilds, a committed guest row is never answered as a native account.
\<close>

section \<open>The mirror\<close>

definition guest_ttl :: int where
  "guest_ttl = seconds 300"

definition guest_pending_ttl :: int where
  "guest_pending_ttl = seconds 120"

definition guest_rows :: "island \<Rightarrow> uin list" where
  "guest_rows s = map u_uin (filter (\<lambda>r. u_guest_status r \<noteq> None) (users s))"

text \<open>A pending mark counts until its key expires.\<close>

definition live_pending :: "datetime \<Rightarrow> guest_cache \<Rightarrow> uin list" where
  "live_pending now c = (if now < gc_pending_until c then gc_pending c else [])"

text \<open>
  The rebuild is a read of the table followed by one MULTI that stores the union of the rows
  read and the pending marks and arms both markers.
\<close>

definition rebuild_apply :: "datetime \<Rightarrow> uin list \<Rightarrow> island \<Rightarrow> island" where
  "rebuild_apply now rows s = s\<lparr>guests := (guests s)\<lparr>
     gc_set := rows @ live_pending now (guests s),
     gc_loaded_until := now + guest_ttl,
     gc_built := True\<rparr>\<rparr>"

definition rebuild :: "datetime \<Rightarrow> island \<Rightarrow> island" where
  "rebuild now s = rebuild_apply now (guest_rows s) s"

text \<open>
  \<open>RedisMirror.ensure\<close>: a live marker answers as is, a lapsed one answers as is and asks for a
  background rebuild (the second component), a mirror never built is rebuilt inline.
\<close>

definition ensure :: "datetime \<Rightarrow> island \<Rightarrow> island \<times> bool" where
  "ensure now s =
     (if now < gc_loaded_until (guests s) then (s, False)
      else if gc_built (guests s) then (s, True)
      else (rebuild now s, False))"

definition is_guest_from_row :: "uin \<Rightarrow> island \<Rightarrow> bool" where
  "is_guest_from_row u s =
     (case find_user s u of None \<Rightarrow> False | Some r \<Rightarrow> u_guest_status r \<noteq> None)"

definition is_guest :: "datetime \<Rightarrow> uin \<Rightarrow> island \<Rightarrow> bool \<times> island" where
  "is_guest now u s =
     (if redis_up s then let s' = fst (ensure now s) in (u \<in> set (gc_set (guests s')), s')
      else (is_guest_from_row u s, s))"

text \<open>\<open>None\<close> is \<open>GuestCacheUnavailable\<close>: the caller rolls back and answers 503.\<close>

definition mark_guest :: "datetime \<Rightarrow> uin \<Rightarrow> island \<Rightarrow> island option" where
  "mark_guest now u s =
     (if redis_up s then
        Some (s\<lparr>guests := (guests s)\<lparr>
          gc_set := List.insert u (gc_set (guests s)),
          gc_pending := List.insert u (live_pending now (guests s)),
          gc_pending_until := now + guest_pending_ttl\<rparr>\<rparr>)
      else None)"

definition guest_unavailable_error :: http_error where
  "guest_unavailable_error = HttpError 503 ''guest_unavailable'' (Some 30)"

text \<open>
  \<open>ok1\<close> and \<open>ok2\<close> say whether Redis took the removal and, failing that, the deletion of the
  freshness marker.
\<close>

definition unmark_guest :: "bool \<Rightarrow> bool \<Rightarrow> uin \<Rightarrow> island \<Rightarrow> island" where
  "unmark_guest ok1 ok2 u s =
     (if ok1 then s\<lparr>guests := (guests s)\<lparr>
        gc_set := removeAll u (gc_set (guests s)),
        gc_pending := removeAll u (gc_pending (guests s))\<rparr>\<rparr>
      else if ok2 then s\<lparr>guests := (guests s)\<lparr>gc_loaded_until := 0\<rparr>\<rparr>
      else s)"

section \<open>Rooms, admission and routes\<close>

definition shares_room :: "island \<Rightarrow> uin \<Rightarrow> uin \<Rightarrow> bool" where
  "shares_room s a b =
     list_ex (\<lambda>m. gm_uin m = a \<and>
        list_ex (\<lambda>other. gm_group_id other = gm_group_id m \<and> gm_uin other = b) (group_members s))
       (group_members s)"

text \<open>
  The settings \<open>admission_open\<close> combines. \<open>None\<close> for the policy is
  \<open>SettingsUnavailable\<close> from the strict read.
\<close>

definition admission_open :: "string option \<Rightarrow> bool \<Rightarrow> bool \<Rightarrow> string \<Rightarrow> bool" where
  "admission_open policy closed_island refuse_strangers guest_admission =
     (case policy of
        None \<Rightarrow> False
      | Some p \<Rightarrow>
          if p = ''open'' then False
          else if closed_island \<and> refuse_strangers then False
          else if guest_admission = ''off'' then False
          else if guest_admission = ''on'' then True
          else p = ''paid'' \<and> \<not> closed_island)"

definition route_policy :: "string option \<Rightarrow> string" where
  "route_policy marker =
     (case marker of
        Some v \<Rightarrow> if v = ''allow'' \<or> v = ''rule'' then v else ''deny''
      | None \<Rightarrow> ''deny'')"

definition restricted_error :: http_error where
  "restricted_error = HttpError 403 ''guest_restricted'' None"

definition bump_stat :: "datetime \<Rightarrow> string \<Rightarrow> island \<Rightarrow> island" where
  "bump_stat now name s =
     (if redis_up s then
        let key = (name, now div days 1) in s\<lparr>stats := (stats s)(key := stats s key + 1)\<rparr>
      else s)"

definition refuse_guest :: "datetime \<Rightarrow> uin \<Rightarrow> island \<Rightarrow> (unit outcome) \<times> island" where
  "refuse_guest now u s =
     (case is_guest now u s of (g, s') \<Rightarrow>
        if g then (Inl restricted_error, bump_stat now ''guest_restricted'' s')
        else (Inr (), s'))"

definition enforce :: "string option \<Rightarrow> datetime \<Rightarrow> uin \<Rightarrow> island \<Rightarrow> (unit outcome) \<times> island" where
  "enforce marker now u s =
     (if route_policy marker \<noteq> ''deny'' then (Inr (), s) else refuse_guest now u s)"

section \<open>Back-dating and the poll stamp\<close>

definition mint_backdate :: "int \<Rightarrow> int" where
  "mint_backdate dormant = (if dormant > 0 then days (max (dormant - 1) 1) else days 13)"

definition added_backdate :: "int \<Rightarrow> int" where
  "added_backdate dormant = days (max dormant 0 + 16)"

definition poll_stamp_window :: int where
  "poll_stamp_window = seconds (6 * 60 * 60)"

definition poll_stamp_lag :: int where
  "poll_stamp_lag = hours 1"

text \<open>
  \<open>bucket\<close> is the keyed hash of \<open>rate_limit.bucket_name\<close>. \<open>SET key NX EX\<close> takes
  the slot only when no live stamp is there.
\<close>

definition touch_poll :: "(string \<Rightarrow> string) \<Rightarrow> datetime \<Rightarrow> uin \<Rightarrow> island \<Rightarrow> island" where
  "touch_poll bucket now u s =
     (case is_guest now u s of (g, s1) \<Rightarrow>
        if \<not> g \<or> \<not> redis_up s1 then s1
        else
          let key = bucket (''uin:'' @ show_int u);
              taken = (case gc_polls (guests s1) key of None \<Rightarrow> False | Some until \<Rightarrow> now < until)
          in if taken then s1
             else
               let stamp = now - poll_stamp_lag;
                   s2 = s1\<lparr>guests := (guests s1)\<lparr>gc_polls :=
                          (gc_polls (guests s1))(key \<mapsto> now + poll_stamp_window)\<rparr>\<rparr>
               in s2\<lparr>users := map (\<lambda>r.
                      if u_uin r = u \<and> u_guest_status r = Some ''proven'' \<and> u_last_seen r < stamp
                      then r\<lparr>u_last_seen := stamp\<rparr> else r) (users s2)\<rparr>)"

section \<open>The mark, commit, rebuild protocol\<close>

text \<open>
  The interleavings the module is written against. A mint marks and commits later; a rebuild
  reads the table and writes the set later; conversions and failed mints are unmarked after
  their commit. \<open>gr_marked\<close> holds the mints that marked and have not committed, with the
  instant of the mark; \<open>gr_rebuilds\<close> the rebuilds that read and have not written. A mint
  commits at most \<open>C\<close> after its mark, a rebuild writes at most \<open>D\<close> after its read.
\<close>

record guest_run =
  gr_now :: datetime
  gr_island :: island
  gr_marked :: "uin \<rightharpoonup> datetime"
  gr_rebuilds :: "(datetime \<times> uin list) list"

definition commit_guest_row :: "user \<Rightarrow> string \<Rightarrow> island \<Rightarrow> island" where
  "commit_guest_row row st s = s\<lparr>users :=
     upsert_row (\<lambda>r. u_uin r = u_uin row) (row\<lparr>u_guest_status := Some st\<rparr>)
       (\<lambda>r. r\<lparr>u_guest_status := Some st\<rparr>) (users s)\<rparr>"

definition commit_resident :: "uin \<Rightarrow> island \<Rightarrow> island" where
  "commit_resident u s = s\<lparr>users :=
     map (\<lambda>r. if u_uin r = u then r\<lparr>u_guest_status := None\<rparr> else r) (users s)\<rparr>"

definition guest_run_init :: "guest_run \<Rightarrow> bool" where
  "guest_run_init r \<longleftrightarrow> 0 \<le> gr_now r \<and> unique_key u_uin (users (gr_island r)) \<and>
     \<not> gc_built (guests (gr_island r)) \<and> gc_loaded_until (guests (gr_island r)) \<le> gr_now r \<and>
     gc_pending_until (guests (gr_island r)) \<le> gr_now r \<and>
     gr_marked r = Map.empty \<and> gr_rebuilds r = []"

inductive guest_step :: "int \<Rightarrow> int \<Rightarrow> guest_run \<Rightarrow> guest_run \<Rightarrow> bool" for C D :: int where
  guest_tick: "gr_now r \<le> t \<Longrightarrow> guest_step C D r (r\<lparr>gr_now := t\<rparr>)"
| guest_mark: "mark_guest (gr_now r) u (gr_island r) = Some s' \<Longrightarrow>
     guest_step C D r (r\<lparr>gr_island := s', gr_marked := (gr_marked r)(u \<mapsto> gr_now r)\<rparr>)"
| guest_commit: "gr_marked r (u_uin row) = Some t \<Longrightarrow> gr_now r \<le> t + C \<Longrightarrow>
     guest_step C D r (r\<lparr>gr_island := commit_guest_row row st (gr_island r),
       gr_marked := (gr_marked r)(u_uin row := None)\<rparr>)"
| guest_abandon: "gr_marked r u = Some t \<Longrightarrow> u \<notin> set (guest_rows (gr_island r)) \<Longrightarrow>
     guest_step C D r (r\<lparr>gr_island := unmark_guest ok1 ok2 u (gr_island r),
       gr_marked := (gr_marked r)(u := None)\<rparr>)"
| guest_convert: "guest_step C D r (r\<lparr>gr_island := commit_resident u (gr_island r)\<rparr>)"
| guest_unmark: "gr_marked r u = None \<Longrightarrow> u \<notin> set (guest_rows (gr_island r)) \<Longrightarrow>
     guest_step C D r (r\<lparr>gr_island := unmark_guest ok1 ok2 u (gr_island r)\<rparr>)"
| guest_read: "guest_step C D r (r\<lparr>gr_rebuilds :=
       (gr_now r, guest_rows (gr_island r)) # gr_rebuilds r\<rparr>)"
| guest_blip: "guest_step C D r (r\<lparr>gr_island := (gr_island r)\<lparr>redis_up := up\<rparr>\<rparr>)"
| guest_write: "(t, rows) \<in> set (gr_rebuilds r) \<Longrightarrow> gr_now r \<le> t + D \<Longrightarrow>
     redis_up (gr_island r) \<Longrightarrow>
     guest_step C D r (r\<lparr>gr_island := rebuild_apply (gr_now r) rows (gr_island r)\<rparr>)"

text \<open>
  What keeps a committed guest in the set: the set holds every committed guest and every mint
  still allowed to commit, and for a rebuild in flight every committed guest it did not read
  is among the pending marks for as long as that rebuild may still write.
\<close>

definition clock_ok :: "datetime \<Rightarrow> guest_cache \<Rightarrow> bool" where
  "clock_ok now c \<longleftrightarrow> 0 \<le> now \<and> (gc_built c \<or> gc_loaded_until c \<le> now) \<and>
     gc_pending_until c \<le> now + guest_pending_ttl"

definition covers_rows :: "guest_cache \<Rightarrow> uin set \<Rightarrow> bool" where
  "covers_rows c G \<longleftrightarrow> (gc_built c \<longrightarrow> G \<subseteq> set (gc_set c))"

definition covers_marks :: "int \<Rightarrow> datetime \<Rightarrow> guest_cache \<Rightarrow> (uin \<rightharpoonup> datetime) \<Rightarrow> bool" where
  "covers_marks C now c m \<longleftrightarrow> (\<forall>u t. m u = Some t \<longrightarrow> t \<le> now \<and>
     (now < t + guest_pending_ttl \<longrightarrow>
        u \<in> set (gc_pending c) \<and> t + guest_pending_ttl \<le> gc_pending_until c) \<and>
     (now \<le> t + C \<longrightarrow> u \<in> set (gc_set c)))"

definition covers_rebuilds ::
  "int \<Rightarrow> datetime \<Rightarrow> guest_cache \<Rightarrow> uin set \<Rightarrow> (datetime \<times> uin list) list \<Rightarrow> bool" where
  "covers_rebuilds D now c G R \<longleftrightarrow> (\<forall>t rows. (t, rows) \<in> set R \<longrightarrow> t \<le> now \<and>
     (now \<le> t + D \<longrightarrow> (\<forall>u \<in> G. u \<in> set rows \<or>
        (u \<in> set (gc_pending c) \<and> t + D < gc_pending_until c))))"

definition guest_inv :: "int \<Rightarrow> int \<Rightarrow> guest_run \<Rightarrow> bool" where
  "guest_inv C D r \<longleftrightarrow>
     unique_key u_uin (users (gr_island r)) \<and>
     clock_ok (gr_now r) (guests (gr_island r)) \<and>
     covers_rows (guests (gr_island r)) (set (guest_rows (gr_island r))) \<and>
     covers_marks C (gr_now r) (guests (gr_island r)) (gr_marked r) \<and>
     covers_rebuilds D (gr_now r) (guests (gr_island r)) (set (guest_rows (gr_island r)))
       (gr_rebuilds r)"

lemmas guest_write_defs =
  rebuild_apply_def mark_guest_def unmark_guest_def commit_guest_row_def commit_resident_def
  live_pending_def

lemma guest_rows_guests [simp]: "guest_rows (s\<lparr>guests := c\<rparr>) = guest_rows s"
  by (simp add: guest_rows_def)

lemma guest_rows_redis [simp]: "guest_rows (s\<lparr>redis_up := up\<rparr>) = guest_rows s"
  by (simp add: guest_rows_def)

lemma set_guest_rows: "set (guest_rows s) = {u_uin r | r. r \<in> set (users s) \<and> u_guest_status r \<noteq> None}"
  by (auto simp: guest_rows_def)

lemma guest_rows_commit:
  "set (guest_rows (commit_guest_row row st s)) \<subseteq> insert (u_uin row) (set (guest_rows s))"
  by (auto simp: set_guest_rows commit_guest_row_def dest!: subsetD [OF set_upsert_row])

lemma guest_rows_resident: "set (guest_rows (commit_resident u s)) \<subseteq> set (guest_rows s)"
  by (auto simp: set_guest_rows commit_resident_def split: if_splits)

lemma unique_commit_guest:
  "unique_key u_uin (users s) \<Longrightarrow> unique_key u_uin (users (commit_guest_row row st s))"
  by (auto simp: commit_guest_row_def intro!: unique_key_upsert)

lemma unique_commit_resident:
  assumes "unique_key u_uin (users s)"
  shows "unique_key u_uin (users (commit_resident u s))"
proof -
  have "map u_uin (users (commit_resident u s)) = map u_uin (users s)"
    by (simp add: commit_resident_def)
  with assms show ?thesis by (simp only: unique_key_def)
qed

lemma guests_commit [simp]:
  "guests (commit_guest_row row st s) = guests s" "guests (commit_resident u s) = guests s"
  by (simp_all add: commit_guest_row_def commit_resident_def)

lemma users_mirror [simp]:
  "users (unmark_guest ok1 ok2 u s) = users s" "users (rebuild_apply now rows s) = users s"
  by (simp_all add: unmark_guest_def rebuild_apply_def)

lemma guest_rows_mirror [simp]:
  "guest_rows (unmark_guest ok1 ok2 u s) = guest_rows s"
  "guest_rows (rebuild_apply now rows s) = guest_rows s"
  by (simp_all add: guest_rows_def)

lemma guest_inv_init: "guest_run_init r \<Longrightarrow> guest_inv C D r"
  by (simp add: guest_run_init_def guest_inv_def clock_ok_def covers_rows_def covers_marks_def
      covers_rebuilds_def guest_pending_ttl_def)

text \<open>One lemma per kind of write, on the parts of the invariant it touches.\<close>

lemma tick_covers:
  assumes "now \<le> t"
  shows "clock_ok now c \<Longrightarrow> clock_ok t c"
    and "covers_marks C now c m \<Longrightarrow> covers_marks C t c m"
    and "covers_rebuilds D now c G R \<Longrightarrow> covers_rebuilds D t c G R"
proof -
  show "clock_ok now c \<Longrightarrow> clock_ok t c" using assms by (auto simp: clock_ok_def)
  show "covers_marks C now c m \<Longrightarrow> covers_marks C t c m"
    using assms by (fastforce simp: covers_marks_def)
  show "covers_rebuilds D now c G R \<Longrightarrow> covers_rebuilds D t c G R"
    using assms by (fastforce simp: covers_rebuilds_def)
qed

definition marked_cache :: "datetime \<Rightarrow> uin \<Rightarrow> guest_cache \<Rightarrow> guest_cache" where
  "marked_cache now u c = c\<lparr>gc_set := List.insert u (gc_set c),
     gc_pending := List.insert u (live_pending now c),
     gc_pending_until := now + guest_pending_ttl\<rparr>"

lemma mark_covers:
  assumes "clock_ok now c" and "0 \<le> C"
  shows "clock_ok now (marked_cache now u c)"
    and "covers_rows c G \<Longrightarrow> covers_rows (marked_cache now u c) G"
    and "covers_marks C now c m \<Longrightarrow> covers_marks C now (marked_cache now u c) (m(u \<mapsto> now))"
    and "covers_rebuilds D now c G R \<Longrightarrow> covers_rebuilds D now (marked_cache now u c) G R"
proof -
  show "clock_ok now (marked_cache now u c)"
    using assms(1) by (auto simp: clock_ok_def marked_cache_def)
  show "covers_rows c G \<Longrightarrow> covers_rows (marked_cache now u c) G"
    by (auto simp: covers_rows_def marked_cache_def)
  have keep: "v \<in> set (live_pending now c)"
    if "v \<in> set (gc_pending c)" "now < gc_pending_until c" for v
    using that by (simp add: live_pending_def)
  have until: "gc_pending_until c \<le> now + guest_pending_ttl"
    using assms(1) by (simp add: clock_ok_def)
  show "covers_marks C now c m \<Longrightarrow> covers_marks C now (marked_cache now u c) (m(u \<mapsto> now))"
  proof -
    assume old: "covers_marks C now c m"
    have "v \<in> set (live_pending now c)" if "m v = Some t" "now < t + guest_pending_ttl" for v t
      using old that by (intro keep) (fastforce simp: covers_marks_def)+
    with old until show ?thesis by (fastforce simp: covers_marks_def marked_cache_def)
  qed
  show "covers_rebuilds D now c G R \<Longrightarrow> covers_rebuilds D now (marked_cache now u c) G R"
  proof -
    assume old: "covers_rebuilds D now c G R"
    have "v \<in> set (live_pending now c)"
      if "(t, rows) \<in> set R" "now \<le> t + D" "v \<in> G" "v \<notin> set rows" for v t rows
      using old that by (intro keep) (fastforce simp: covers_rebuilds_def)+
    with old until show ?thesis by (fastforce simp: covers_rebuilds_def marked_cache_def)
  qed
qed

lemma commit_covers:
  assumes "covers_marks C now c m" and "m u = Some t" "now \<le> t + C"
    and "0 \<le> D" "C + D < guest_pending_ttl" and "G' \<subseteq> insert u G"
  shows "covers_rows c G \<Longrightarrow> covers_rows c G'"
    and "covers_marks C now c (m(u := None))"
    and "covers_rebuilds D now c G R \<Longrightarrow> covers_rebuilds D now c G' R"
proof -
  have u: "u \<in> set (gc_set c)" "u \<in> set (gc_pending c)"
      "t + guest_pending_ttl \<le> gc_pending_until c" "t \<le> now"
    using assms(1-5) by (auto simp: covers_marks_def)
  show "covers_rows c G \<Longrightarrow> covers_rows c G'"
    using u(1) assms(6) by (auto simp: covers_rows_def)
  show "covers_marks C now c (m(u := None))" using assms(1) by (auto simp: covers_marks_def)
  show "covers_rebuilds D now c G R \<Longrightarrow> covers_rebuilds D now c G' R"
  proof -
    assume old: "covers_rebuilds D now c G R"
    have "t' + D < gc_pending_until c" if "(t', rows) \<in> set R" for t' rows
    proof -
      from old that have "t' \<le> now" by (auto simp: covers_rebuilds_def)
      with assms(3,5) u(3) show ?thesis by linarith
    qed
    with old u(2) assms(6) show ?thesis by (fastforce simp: covers_rebuilds_def)
  qed
qed

lemma unmark_covers:
  fixes s :: island and u :: uin and ok1 ok2 :: bool
  defines "c \<equiv> guests s" and "c' \<equiv> guests (unmark_guest ok1 ok2 u s)"
  assumes "u \<notin> G"
  shows "clock_ok now c \<Longrightarrow> clock_ok now c'"
    and "covers_rows c G \<Longrightarrow> covers_rows c' G"
    and "covers_marks C now c m \<Longrightarrow> covers_marks C now c' (m(u := None))"
    and "covers_rebuilds D now c G R \<Longrightarrow> covers_rebuilds D now c' G R"
proof -
  show "clock_ok now c \<Longrightarrow> clock_ok now c'"
    by (auto simp: clock_ok_def c_def c'_def unmark_guest_def)
  show "covers_rows c G \<Longrightarrow> covers_rows c' G"
    using assms(3) by (auto simp: covers_rows_def c_def c'_def unmark_guest_def)
  show "covers_marks C now c m \<Longrightarrow> covers_marks C now c' (m(u := None))"
    by (auto simp: covers_marks_def c_def c'_def unmark_guest_def)
  show "covers_rebuilds D now c G R \<Longrightarrow> covers_rebuilds D now c' G R"
    using assms(3) by (fastforce simp: covers_rebuilds_def c_def c'_def unmark_guest_def)
qed

lemma write_covers:
  fixes s :: island and now :: datetime and rows :: "uin list"
  defines "c \<equiv> guests s" and "c' \<equiv> guests (rebuild_apply now rows s)"
  assumes "covers_rebuilds D now c G R" and "(t, rows) \<in> set R" "now \<le> t + D"
    and "clock_ok now c" and "covers_marks C now c m" and "C < guest_pending_ttl"
  shows "clock_ok now c'" and "covers_rows c' G" and "covers_marks C now c' m"
    and "covers_rebuilds D now c' G R"
proof -
  have c': "gc_set c' = rows @ live_pending now c" "gc_pending c' = gc_pending c"
      "gc_pending_until c' = gc_pending_until c" "gc_built c'"
    by (simp_all add: c_def c'_def rebuild_apply_def)
  show "clock_ok now c'" using assms(6) c' by (simp add: clock_ok_def)
  have "u \<in> set rows \<or> u \<in> set (live_pending now c)" if "u \<in> G" for u
    using assms(3-5) that by (fastforce simp: covers_rebuilds_def live_pending_def)
  then show "covers_rows c' G" by (auto simp: covers_rows_def c')
  have "u \<in> set (live_pending now c)" if "m u = Some t'" "now \<le> t' + C" for u t'
  proof -
    from that assms(8) have "now < t' + guest_pending_ttl" by linarith
    with assms(7) that(1) show ?thesis by (fastforce simp: covers_marks_def live_pending_def)
  qed
  with assms(7) show "covers_marks C now c' m" by (fastforce simp: covers_marks_def c')
  show "covers_rebuilds D now c' G R" using assms(3) by (simp add: covers_rebuilds_def c')
qed

lemma guest_inv_step:
  assumes "guest_step C D r r'" and "guest_inv C D r"
    and "0 \<le> C" "0 \<le> D" "C + D < guest_pending_ttl"
  shows "guest_inv C D r'"
  using assms
proof (induction rule: guest_step.induct)
  case (guest_tick r t)
  then show ?case by (auto simp: guest_inv_def intro: tick_covers)
next
  case (guest_mark r u s')
  then have "s' = (gr_island r)\<lparr>guests := marked_cache (gr_now r) u (guests (gr_island r))\<rparr>"
    by (auto simp: mark_guest_def marked_cache_def split: if_splits)
  with guest_mark show ?case by (auto simp: guest_inv_def intro: mark_covers)
next
  case (guest_commit r row t st)
  then have "covers_marks C (gr_now r) (guests (gr_island r)) (gr_marked r)"
    by (simp add: guest_inv_def)
  note step = commit_covers [OF this guest_commit.hyps guest_commit.prems(3,4) guest_rows_commit]
  from guest_commit step show ?case
    by (auto simp: guest_inv_def intro: unique_commit_guest)
next
  case (guest_abandon r u t ok1 ok2)
  note step = unmark_covers [OF guest_abandon.hyps(2)]
  from guest_abandon show ?case
    by (auto simp: guest_inv_def intro: step)
next
  case (guest_convert r u)
  then show ?case using guest_rows_resident [of u "gr_island r"]
    by (auto simp: guest_inv_def covers_rows_def covers_rebuilds_def
        intro: unique_commit_resident)
next
  case (guest_unmark r u ok1 ok2)
  note step = unmark_covers [OF guest_unmark.hyps(2)]
  from guest_unmark.hyps(1) have "(gr_marked r)(u := None) = gr_marked r" by auto
  then show ?case using guest_unmark step(3) [of C "gr_now r" "gr_island r" "gr_marked r"]
    by (auto simp: guest_inv_def intro: step)
next
  case (guest_read r)
  then show ?case by (auto simp: guest_inv_def covers_rebuilds_def)
next
  case (guest_blip r up)
  then show ?case by (simp add: guest_inv_def)
next
  case (guest_write t rows r)
  then show ?case by (auto simp: guest_inv_def intro: write_covers)
qed

definition guest_bounded_inv :: "int \<Rightarrow> int \<Rightarrow> guest_run \<Rightarrow> bool" where
  "guest_bounded_inv C D r \<longleftrightarrow>
     (0 \<le> C \<and> 0 \<le> D \<and> C + D < guest_pending_ttl \<longrightarrow> guest_inv C D r)"

interpretation guest_protocol: step_invariant guest_run_init "guest_step C D" "guest_bounded_inv C D"
  for C D :: int
  by unfold_locales (auto simp: guest_bounded_inv_def intro: guest_inv_init dest: guest_inv_step)

lemma is_guest_covered:
  assumes "guest_inv C D r" and "u \<in> set (guest_rows (gr_island r))"
  shows "fst (is_guest (gr_now r) u (gr_island r))"
proof -
  let ?s = "gr_island r"
  from assms(2) obtain row where row: "row \<in> set (users ?s)" "u_uin row = u" "u_guest_status row \<noteq> None"
    by (auto simp: set_guest_rows)
  with assms(1) have "find_user ?s u = Some row"
    unfolding find_user_def by (auto simp: guest_inv_def dest: unique_key_get_row)
  with row(3) have down: "is_guest_from_row u ?s" by (simp add: is_guest_from_row_def)
  from assms have "gc_built (guests ?s) \<Longrightarrow> u \<in> set (gc_set (guests ?s))"
      and "gc_built (guests ?s) \<or> \<not> gr_now r < gc_loaded_until (guests ?s)"
    by (auto simp: guest_inv_def covers_rows_def clock_ok_def)
  with down assms(2) show ?thesis
    by (auto simp: is_guest_def ensure_def rebuild_def rebuild_apply_def)
qed

text \<open>
  C1. In every interleaving of mints, claims, failed mints, conversions, cache rebuilds and
  Redis outages, an account row committed as a guest is answered as a guest by
  \<open>is_guest\<close>, provided a mint commits at most C after its mark and a rebuild writes at most
  D after its read with C + D below the pending TTL of 120 s.
\<close>

theorem guest_never_native:
  assumes "reachable guest_run_init (guest_step C D) r"
    and "0 \<le> C" and "0 \<le> D" and "C + D < guest_pending_ttl"
    and "u \<in> set (guest_rows (gr_island r))"
  shows "fst (is_guest (gr_now r) u (gr_island r))"
proof -
  from assms(1) have "guest_bounded_inv C D r" by (rule guest_protocol.reachable_inv)
  with assms(2-4) have "guest_inv C D r" by (simp add: guest_bounded_inv_def)
  then show ?thesis using assms(5) by (rule is_guest_covered)
qed

text \<open>
  The race of the module's comment: a rebuild reads the table, a mint marks and commits, the
  rebuild then replaces the set.
\<close>

definition race_start :: guest_run where
  "race_start = \<lparr>gr_now = 0, gr_island = empty_island, gr_marked = Map.empty, gr_rebuilds = []\<rparr>"

definition race_read :: guest_run where
  "race_read = race_start\<lparr>gr_rebuilds := [(0, [])]\<rparr>"

definition race_marked :: guest_run where
  "race_marked = race_read\<lparr>gr_island := the (mark_guest 0 7 (gr_island race_read)),
     gr_marked := [7 \<mapsto> 0]\<rparr>"

definition race_committed :: guest_run where
  "race_committed = race_marked\<lparr>gr_island := commit_guest_row
       \<lparr>u_uin = 7, u_last_seen = 0, u_created_at = 0, u_guest_status = None, u_push_preferences = None, u_suspended = False, u_group_invite_policy = None\<rparr>
       ''proven'' (gr_island race_marked), gr_marked := Map.empty\<rparr>"

definition race_end :: guest_run where
  "race_end = race_committed\<lparr>gr_island := rebuild_apply 0 [] (gr_island race_committed)\<rparr>"

lemmas race_defs = race_start_def race_read_def race_marked_def race_committed_def race_end_def

lemma race_end_reachable: "reachable guest_run_init (guest_step (seconds 30) (seconds 60)) race_end"
proof -
  let ?step = "guest_step (seconds 30) (seconds 60)"
  have "guest_run_init race_start"
    by (simp add: guest_run_init_def race_start_def empty_island_def empty_guest_cache_def unique_key_def)
  moreover have "?step race_start race_read"
    using guest_read [of "seconds 30" "seconds 60" race_start]
    by (simp add: race_defs guest_rows_def empty_island_def)
  moreover have "?step race_read race_marked"
    using guest_mark [of race_read 7 "the (mark_guest 0 7 (gr_island race_read))"]
    by (simp add: race_defs mark_guest_def empty_island_def)
  moreover have "?step race_marked race_committed"
    using guest_commit [of race_marked "\<lparr>u_uin = 7, u_last_seen = 0, u_created_at = 0,
      u_guest_status = None, u_push_preferences = None, u_suspended = False, u_group_invite_policy = None\<rparr>" 0 "seconds 30" "seconds 60" "''proven''"]
    by (simp add: race_marked_def race_read_def race_start_def race_committed_def)
  moreover have "?step race_committed race_end"
    using guest_write [of 0 "[]" race_committed "seconds 60" "seconds 30"]
    by (simp add: race_defs mark_guest_def empty_island_def commit_guest_row_def)
  ultimately show ?thesis
    by (rule reachable.next_state [OF reachable.next_state [OF reachable.next_state
          [OF reachable.next_state [OF reachable.start]]]])
qed

theorem guest_never_native_witness:
  "fst (is_guest 0 7 (gr_island race_end)) \<and> gr_now race_end = 0 \<and>
     7 \<in> set (guest_rows (gr_island race_end))"
proof -
  have row: "7 \<in> set (guest_rows (gr_island race_end))"
    by (simp add: race_defs mark_guest_def empty_island_def commit_guest_row_def guest_rows_def
        upsert_row_def rebuild_apply_def)
  have now: "gr_now race_end = 0" by (simp add: race_defs)
  have "fst (is_guest (gr_now race_end) 7 (gr_island race_end))"
    by (rule guest_never_native [OF race_end_reachable _ _ _ row]) (simp_all add: guest_pending_ttl_def)
  with row now show ?thesis by simp
qed

section \<open>What a poll may write\<close>

definition stamped :: "datetime \<Rightarrow> uin \<Rightarrow> user \<Rightarrow> user \<Rightarrow> bool" where
  "stamped now u r r' \<longleftrightarrow> r' = r \<or>
     (u_uin r = u \<and> u_guest_status r = Some ''proven'' \<and> u_last_seen r < now - poll_stamp_lag \<and>
      r' = r\<lparr>u_last_seen := now - poll_stamp_lag\<rparr>)"

lemma is_guest_frame [simp]:
  "users (snd (is_guest now u s)) = users s"
  "gc_polls (guests (snd (is_guest now u s))) = gc_polls (guests s)"
  "redis_up (snd (is_guest now u s)) = redis_up s"
  by (simp_all add: is_guest_def ensure_def rebuild_def rebuild_apply_def Let_def)

lemma touch_poll_rows: "list_all2 (stamped now u) (users s) (users (touch_poll bucket now u s))"
  by (auto simp: touch_poll_def Let_def list_all2_map2 stamped_def split_beta
      intro!: list.rel_refl_strong)

lemma touch_poll_taken:
  assumes "gc_polls (guests s) (bucket (''uin:'' @ show_int u)) = Some until" and "now < until"
  shows "users (touch_poll bucket now u s) = users s"
  using assms by (simp add: touch_poll_def split_beta)

lemma touch_poll_takes:
  assumes "users (touch_poll bucket now u s) \<noteq> users s"
  shows "gc_polls (guests (touch_poll bucket now u s)) (bucket (''uin:'' @ show_int u)) =
           Some (now + poll_stamp_window)"
  using assms by (auto simp: touch_poll_def split_beta Let_def split: if_splits)

text \<open>
  A poll stamps at most the polling account, only while its copy is proven, only forwards,
  and to exactly one hour before the poll; and once a poll has written a stamp no poll of that
  account writes another within the next six hours, whatever else changed in between.
\<close>

theorem poll_stamp_once_per_window:
  assumes "users (touch_poll bucket now u s) \<noteq> users s"
    and "gc_polls (guests s') = gc_polls (guests (touch_poll bucket now u s))"
    and "now' < now + seconds 21600"
  shows "list_all2 (stamped now u) (users s) (users (touch_poll bucket now u s)) \<and>
         users (touch_poll bucket now' u s') = users s'"
proof -
  have "gc_polls (guests s') (bucket (''uin:'' @ show_int u)) = Some (now + poll_stamp_window)"
    using touch_poll_takes [OF assms(1)] assms(2) by simp
  moreover have "now' < now + poll_stamp_window" using assms(3) by (simp add: poll_stamp_window_def)
  ultimately show ?thesis by (simp add: touch_poll_taken touch_poll_rows)
qed

definition poll_example :: island where
  "poll_example = empty_island\<lparr>users := [\<lparr>u_uin = 7, u_last_seen = 0, u_created_at = 0,
     u_guest_status = Some ''proven'', u_push_preferences = None, u_suspended = False, u_group_invite_policy = None\<rparr>]\<rparr>"

theorem poll_stamp_once_per_window_witness:
  "list_all2 (stamped (hours 5) 7) (users poll_example)
       (users (touch_poll (\<lambda>k. k) (hours 5) 7 poll_example)) \<and>
     users (touch_poll (\<lambda>k. k) (hours 5) 7 poll_example) \<noteq> users poll_example \<and>
     users (touch_poll (\<lambda>k. k) (hours 10) 7 (touch_poll (\<lambda>k. k) (hours 5) 7 poll_example)) =
       users (touch_poll (\<lambda>k. k) (hours 5) 7 poll_example)"
proof -
  have changed: "users (touch_poll (\<lambda>k. k) (hours 5) 7 poll_example) \<noteq> users poll_example"
    by (simp add: touch_poll_def is_guest_def ensure_def rebuild_def rebuild_apply_def
        poll_example_def empty_island_def empty_guest_cache_def guest_rows_def poll_stamp_lag_def)
  show ?thesis
    using changed poll_stamp_once_per_window [OF changed refl, of "hours 10"] by simp
qed

end
