(* ===== verification/Interfaces.thy ===== *)
theory Interfaces
  imports Rcq_Prelude "HOL-Library.Multiset"
begin

text \<open>
  The contracts the message components rely on, as locales. A \<open>seq_counter\<close> is a durable
  counter behind an \<open>INSERT ... ON CONFLICT DO UPDATE ... RETURNING\<close>; a
  \<open>block_counter\<close> adds the one-statement allocation of a whole block; a
  \<open>cursor_store\<close> is a table of per-device read marks that one upsert moves forward. The
  laws are what the statement promises, the lemmas are what every handler that uses the
  statement may count on. Each locale is interpreted on the model's own tables in the theory
  of the component that provides them.
\<close>

section \<open>Durable sequence counters\<close>

lemma count_list_replicate: "count_list (replicate n x) y = (if x = y then n else 0)"
  by (induction n) auto

locale seq_counter =
  fixes issued :: "'s \<Rightarrow> 'k \<Rightarrow> int"
    and take_next :: "'s \<Rightarrow> 'k \<Rightarrow> int \<times> 's"
  assumes take_next_value: "fst (take_next s k) = issued s k + 1"
    and take_next_issued: "issued (snd (take_next s k)) k = issued s k + 1"
    and take_next_other: "k' \<noteq> k \<Longrightarrow> issued (snd (take_next s k)) k' = issued s k'"
begin

text \<open>A run of allocations, each for the key it names; the answers in order.\<close>

primrec take_run :: "'s \<Rightarrow> 'k list \<Rightarrow> ('k \<times> int) list \<times> 's" where
  "take_run s [] = ([], s)"
| "take_run s (k # ks) =
     (let s' = snd (take_next s k)
      in ((k, fst (take_next s k)) # fst (take_run s' ks), snd (take_run s' ks)))"

lemma take_run_issued:
  "issued (snd (take_run s ks)) k = issued s k + int (count_list ks k)"
proof (induction ks arbitrary: s)
  case Nil
  then show ?case by simp
next
  case (Cons a ks)
  have "issued (snd (take_run s (a # ks))) k
          = issued (snd (take_next s a)) k + int (count_list ks k)"
    using Cons.IH [of "snd (take_next s a)"] by (simp add: Let_def)
  then show ?case by (cases "a = k") (auto simp: take_next_issued take_next_other)
qed

text \<open>
  The numbers one key is handed over a whole run are exactly the next consecutive ones, in
  order: nothing is skipped, nothing is handed out twice, whatever the other keys did between.
\<close>

lemma take_run_consecutive:
  "map snd (filter (\<lambda>p. fst p = k) (fst (take_run s ks)))
     = [issued s k + 1 .. issued s k + int (count_list ks k)]"
proof (induction ks arbitrary: s)
  case Nil
  then show ?case by simp
next
  case (Cons a ks)
  let ?s' = "snd (take_next s a)"
  show ?case
  proof (cases "a = k")
    case True
    have "[issued s k + 1 .. issued s k + 1 + int (count_list ks k)]
            = (issued s k + 1) # [issued s k + 1 + 1 .. issued s k + 1 + int (count_list ks k)]"
      by (rule upto_rec1) simp
    with True show ?thesis
      using Cons.IH [of ?s'] by (simp add: Let_def take_next_value take_next_issued algebra_simps)
  next
    case False
    then show ?thesis using Cons.IH [of ?s'] by (simp add: Let_def take_next_other)
  qed
qed

lemma take_run_distinct: "distinct (fst (take_run s ks))"
proof -
  have "distinct xs" if "\<And>k. distinct (map snd (filter (\<lambda>p. fst p = k) xs))"
    for xs :: "('k \<times> int) list"
    using that
  proof (induction xs)
    case Nil
    then show ?case by simp
  next
    case (Cons p xs)
    have d: "distinct (map snd (filter (\<lambda>q. fst q = k) xs))" for k
      using Cons.prems [of k] by (cases "fst p = k") auto
    have "p \<notin> set xs"
    proof
      assume "p \<in> set xs"
      then have "snd p \<in> set (map snd (filter (\<lambda>q. fst q = fst p) xs))" by auto
      with Cons.prems [of "fst p"] show False by simp
    qed
    with d Cons.IH show ?case by simp
  qed
  then show ?thesis by (simp add: take_run_consecutive)
qed

end

text \<open>
  A counter that can also hand out a block in one statement. The law is that the block leaves
  the counter, and answers the numbers, that asking one by one would have.
\<close>

locale block_counter = seq_counter issued take_next
  for issued :: "'s \<Rightarrow> 'k \<Rightarrow> int" and take_next :: "'s \<Rightarrow> 'k \<Rightarrow> int \<times> 's" +
  fixes take_block :: "'s \<Rightarrow> 'k \<Rightarrow> int \<Rightarrow> int list \<times> 's"
  assumes take_block_values: "fst (take_block s k n) = [issued s k + 1 .. issued s k + max n 0]"
    and take_block_issued: "issued (snd (take_block s k n)) k = issued s k + max n 0"
    and take_block_other: "k' \<noteq> k \<Longrightarrow> issued (snd (take_block s k n)) k' = issued s k'"
begin

lemma take_block_is_run:
  "fst (take_block s k (int n)) = map snd (fst (take_run s (replicate n k)))"
proof -
  have "filter (\<lambda>p. fst p = k) (fst (take_run s (replicate n k)))
          = fst (take_run s (replicate n k))"
    by (induction n arbitrary: s) (simp_all add: Let_def)
  then show ?thesis
    using take_run_consecutive [of k s "replicate n k"]
    by (simp add: take_block_values count_list_replicate)
qed

lemma take_block_counter_as_run:
  "issued (snd (take_block s k (int n))) k' =
     issued (snd (take_run s (replicate n k))) k'"
  by (cases "k' = k") (simp_all add: take_block_issued take_block_other take_run_issued
      count_list_replicate)

end

section \<open>Forward-only cursors\<close>

text \<open>
  One statement creates or advances the mark of a key. \<open>m\<close> is the mark it applies to a row
  that exists, \<open>d\<close> the seed it may use when it creates the row, \<open>t\<close> the clock.
\<close>

locale cursor_store =
  fixes mark :: "'s \<Rightarrow> 'k \<Rightarrow> ('v::semilattice_sup) option"
    and upsert :: "'t \<Rightarrow> 's \<Rightarrow> 'k \<Rightarrow> 'v \<Rightarrow> 'v \<Rightarrow> 's"
  assumes mark_upsert:
      "mark (upsert t s k m d) k = Some (case mark s k of None \<Rightarrow> sup m d | Some v \<Rightarrow> sup v m)"
    and mark_upsert_other: "k' \<noteq> k \<Longrightarrow> mark (upsert t s k m d) k' = mark s k'"
begin

lemma upsert_forward:
  assumes "mark s k = Some v"
  shows "\<exists>v'. mark (upsert t s k' m d) k = Some v' \<and> v \<le> v'"
  using assms by (cases "k' = k") (auto simp: mark_upsert mark_upsert_other)

lemma upsert_lands: "\<exists>v. mark (upsert t s k m d) k = Some v \<and> m \<le> v"
  by (auto simp: mark_upsert split: option.splits)

lemma stale_upsert_noop:
  assumes "mark s k = Some v" and "m \<le> v"
  shows "mark (upsert t s k m d) k = mark s k"
  using assms by (simp add: mark_upsert sup.absorb1)

text \<open>A batch of acknowledgements, each seeding with its own mark.\<close>

definition ack_all :: "'s \<Rightarrow> ('t \<times> 'k \<times> 'v) list \<Rightarrow> 's" where
  "ack_all s acks = fold (\<lambda>(t, k, m) s. upsert t s k m m) acks s"

definition raise_mark :: "'k \<times> 'v \<Rightarrow> ('k \<Rightarrow> 'v option) \<Rightarrow> 'k \<Rightarrow> 'v option" where
  "raise_mark p f = f(fst p := Some (case f (fst p) of None \<Rightarrow> snd p | Some v \<Rightarrow> sup v (snd p)))"

lemma mark_ack_all: "mark (ack_all s acks) = fold raise_mark (map snd acks) (mark s)"
proof (induction acks arbitrary: s)
  case Nil
  then show ?case by (simp add: ack_all_def)
next
  case (Cons a acks)
  obtain t k m where a: "a = (t, k, m)" by (cases a)
  have "mark (upsert t s k m m) = raise_mark (k, m) (mark s)"
    by (rule ext) (auto simp: raise_mark_def mark_upsert mark_upsert_other split: option.splits)
  then show ?case using Cons.IH [of "upsert t s k m m"] by (simp add: ack_all_def a)
qed

lemma raise_mark_commute: "raise_mark p \<circ> raise_mark q = raise_mark q \<circ> raise_mark p"
  by (rule ext, rule ext)
     (auto simp: raise_mark_def sup_commute sup_left_commute sup_assoc split: option.splits)

text \<open>Whatever order overlapping requests land in, every key ends at the same mark.\<close>

lemma ack_all_order:
  assumes "mset (map snd acks) = mset (map snd acks')"
  shows "mark (ack_all s acks) = mark (ack_all s acks')"
proof -
  have "fold raise_mark (map snd acks) = fold raise_mark (map snd acks')"
    by (rule fold_multiset_equiv) (simp_all only: raise_mark_commute assms)
  then show ?thesis by (simp add: mark_ack_all)
qed

end

end
