(* ===== verification/Offline_Queue.thy ===== *)
theory Offline_Queue
  imports Guest_Policy Interfaces "HOL-Library.Product_Order" "HOL-Library.Sublist"
begin

text \<open>
  The offline queue: \<open>app/services/queue_drain.py\<close> (the floor a device reads above and the
  upsert that moves it), the drain half of \<open>app/routers/messages.py\<close> (storage classes, the
  mailbox counter, the acknowledged prefix, the reaper, the two queue routes) and
  \<open>app/services/offline_queue_sweep.py\<close>. A cursor's marks are the pair (direct, group), ordered
  componentwise. SQL leaves the order of rows with equal \<open>received_at\<close> open; the model keeps
  table order there.
\<close>

section \<open>Storage classes\<close>

definition critical_types :: "string list" where
  "critical_types = [''skdm'', ''sknack'']"

definition ephemeral_types :: "string list" where
  "ephemeral_types = [''typing'', ''read'', ''visit'', ''presence'', ''nudge'', ''bounce'']"

definition never_push_types :: "string list" where
  "never_push_types = [''carbon'', ''reaction'', ''edit'', ''delete'', ''homerec'']"

definition cls_for :: "string \<Rightarrow> int" where
  "cls_for ty = (if ty \<in> set critical_types then 2
                 else if ty \<in> set ephemeral_types then 0 else 1)"

section \<open>The mailbox counter\<close>

definition mailbox_issued :: "island \<Rightarrow> uin \<Rightarrow> int" where
  "mailbox_issued s u = (case mailbox_seq s u of None \<Rightarrow> 0 | Some n \<Rightarrow> n)"

definition next_mailbox_seq :: "island \<Rightarrow> uin \<Rightarrow> int \<times> island" where
  "next_mailbox_seq s u =
     (let n = (case mailbox_seq s u of None \<Rightarrow> 1 | Some k \<Rightarrow> k + 1)
      in (n, s\<lparr>mailbox_seq := (mailbox_seq s)(u \<mapsto> n)\<rparr>))"

interpretation mailbox: seq_counter mailbox_issued next_mailbox_seq
  by unfold_locales (auto simp: mailbox_issued_def next_mailbox_seq_def Let_def split: option.splits)

text \<open>The row a direct deposit adds, with its sequence taken in the same transaction.\<close>

definition store_direct ::
  "datetime \<Rightarrow> uin \<Rightarrow> string \<Rightarrow> int \<Rightarrow> string \<Rightarrow> int option \<Rightarrow> island \<Rightarrow> offline_message \<times> island" where
  "store_direct now to_uin ty cls payload to_device s =
     (case next_mailbox_seq s to_uin of (seq, s1) \<Rightarrow>
        let row = \<lparr>om_id = offline_message_serial s1 + 1, om_to_uin = to_uin,
                    om_envelope_type = ty, om_payload = payload, om_received_at = now,
                    om_cls = Some cls, om_seq = Some seq, om_to_device_id = to_device\<rparr>
        in (row, s1\<lparr>offline_messages := offline_messages s1 @ [row],
                   offline_message_serial := offline_message_serial s1 + 1\<rparr>))"

text \<open>The row the legacy group fan-out adds for one recipient.\<close>

definition store_group_copy ::
  "datetime \<Rightarrow> uin \<Rightarrow> int \<Rightarrow> string \<Rightarrow> int \<Rightarrow> string \<Rightarrow> island \<Rightarrow> island" where
  "store_group_copy now to_uin gid ty cls payload s =
     s\<lparr>offline_group_messages := offline_group_messages s @
          [\<lparr>og_id = offline_group_serial s + 1, og_to_uin = to_uin, og_group_id = gid,
            og_envelope_type = ty, og_payload = payload, og_received_at = now, og_cls = Some cls\<rparr>],
       offline_group_serial := offline_group_serial s + 1\<rparr>"

section \<open>Where a device starts reading\<close>

definition is_cursor :: "uin \<Rightarrow> device \<Rightarrow> queue_cursor \<Rightarrow> bool" where
  "is_cursor u d c \<longleftrightarrow> qc_uin c = u \<and> qc_device_id c = d"

definition find_cursor :: "island \<Rightarrow> uin \<Rightarrow> device \<Rightarrow> queue_cursor option" where
  "find_cursor s u d = get_row (is_cursor u d) (queue_cursors s)"

definition account_cursors :: "island \<Rightarrow> uin \<Rightarrow> queue_cursor list" where
  "account_cursors s u = filter (\<lambda>c. qc_uin c = u) (queue_cursors s)"

definition account_watermark :: "island \<Rightarrow> uin \<Rightarrow> int \<times> int" where
  "account_watermark s u =
     (max_default 0 (map qc_last_direct_id (account_cursors s u)),
      max_default 0 (map qc_last_group_id (account_cursors s u)))"

definition drain_floor :: "island \<Rightarrow> uin \<Rightarrow> device \<Rightarrow> int \<times> int \<times> queue_cursor option" where
  "drain_floor s u d =
     (case find_cursor s u d of
        Some c \<Rightarrow> (qc_last_direct_id c, qc_last_group_id c, Some c)
      | None \<Rightarrow> (case account_watermark s u of (direct, grp) \<Rightarrow> (direct, grp, None)))"

definition cursor_marks :: "queue_cursor \<Rightarrow> int \<times> int" where
  "cursor_marks c = (qc_last_direct_id c, qc_last_group_id c)"

definition upsert_cursor_row ::
  "datetime \<Rightarrow> uin \<Rightarrow> device \<Rightarrow> int \<times> int \<Rightarrow> int \<times> int \<Rightarrow> queue_cursor list \<Rightarrow> queue_cursor list" where
  "upsert_cursor_row now u d marks seed = upsert_row (is_cursor u d)
     \<lparr>qc_uin = u, qc_device_id = d,
       qc_last_direct_id = max (fst marks) (fst seed),
       qc_last_group_id = max (snd marks) (snd seed), qc_updated_at = Some now\<rparr>
     (\<lambda>c. c\<lparr>qc_last_direct_id := max (qc_last_direct_id c) (fst marks),
            qc_last_group_id := max (qc_last_group_id c) (snd marks),
            qc_updated_at := Some now\<rparr>)"

definition upsert_cursor ::
  "datetime \<Rightarrow> uin \<Rightarrow> device \<Rightarrow> int \<times> int \<Rightarrow> int \<times> int \<Rightarrow> island \<Rightarrow> (int \<times> int) \<times> island" where
  "upsert_cursor now u d marks seed s =
     (let s' = s\<lparr>queue_cursors := upsert_cursor_row now u d marks seed (queue_cursors s)\<rparr>
      in (case find_cursor s' u d of None \<Rightarrow> (0, 0) | Some c \<Rightarrow> cursor_marks c, s'))"

section \<open>How far an acknowledgement may move the cursor\<close>

definition for_device :: "int \<Rightarrow> offline_message \<Rightarrow> bool" where
  "for_device dev r \<longleftrightarrow> om_to_device_id r = None \<or> om_to_device_id r = Some dev"

definition direct_ids_above :: "island \<Rightarrow> uin \<Rightarrow> int \<Rightarrow> int \<Rightarrow> int list" where
  "direct_ids_above s u base dev =
     sort (map om_id (filter (\<lambda>r. om_to_uin r = u \<and> base < om_id r \<and> for_device dev r)
       (offline_messages s)))"

definition group_ids_above :: "island \<Rightarrow> uin \<Rightarrow> int \<Rightarrow> int list" where
  "group_ids_above s u base =
     sort (map og_id (filter (\<lambda>r. og_to_uin r = u \<and> base < og_id r) (offline_group_messages s)))"

fun acked_walk :: "int list \<Rightarrow> int list \<Rightarrow> int \<Rightarrow> int" where
  "acked_walk acked [] out = out"
| "acked_walk acked (i # ids) out = (if i \<notin> set acked then out else acked_walk acked ids i)"

definition acked_prefix :: "int list \<Rightarrow> int \<Rightarrow> int list \<Rightarrow> int" where
  "acked_prefix ids base acked = (if acked = [] then base else acked_walk acked ids base)"

section \<open>Reaping below every live cursor\<close>

definition stale_cursor_days :: int where
  "stale_cursor_days = 30"

definition superseded_cursor_days :: int where
  "superseded_cursor_days = 7"

definition fresh_sibling :: "datetime \<Rightarrow> queue_cursor list \<Rightarrow> bool" where
  "fresh_sibling now cursors =
     (let stamps = List.map_filter qc_updated_at cursors
      in stamps \<noteq> [] \<and> now - days superseded_cursor_days \<le> Max (set stamps))"

definition drop_cursor :: "datetime \<Rightarrow> queue_cursor list \<Rightarrow> queue_cursor \<Rightarrow> bool" where
  "drop_cursor now cursors c =
     (case qc_updated_at c of
        None \<Rightarrow> False
      | Some ts \<Rightarrow> ts < now - days stale_cursor_days \<or>
          (fresh_sibling now cursors \<and> ts < now - days superseded_cursor_days))"

definition reap_direct :: "uin \<Rightarrow> int \<Rightarrow> island \<Rightarrow> int \<times> island" where
  "reap_direct u bound s =
     (let gone = (\<lambda>r. om_to_uin r = u \<and> om_id r \<le> bound)
      in (int (length (filter gone (offline_messages s))),
          s\<lparr>offline_messages := filter (\<lambda>r. \<not> gone r) (offline_messages s)\<rparr>))"

definition reap_group :: "uin \<Rightarrow> int \<Rightarrow> island \<Rightarrow> int \<times> island" where
  "reap_group u bound s =
     (let gone = (\<lambda>r. og_to_uin r = u \<and> og_id r \<le> bound)
      in (int (length (filter gone (offline_group_messages s))),
          s\<lparr>offline_group_messages := filter (\<lambda>r. \<not> gone r) (offline_group_messages s)\<rparr>))"

definition live_cursors :: "datetime \<Rightarrow> island \<Rightarrow> uin \<Rightarrow> queue_cursor list" where
  "live_cursors now s u =
     filter (\<lambda>c. \<not> drop_cursor now (account_cursors s u) c) (account_cursors s u)"

definition reap_below_min :: "datetime \<Rightarrow> uin \<Rightarrow> island \<Rightarrow> int \<times> island" where
  "reap_below_min now u s =
     (let cursors = account_cursors s u;
          kept = live_cursors now s u;
          s1 = s\<lparr>queue_cursors := filter (\<lambda>c. \<not> (qc_uin c = u \<and> drop_cursor now cursors c))
                  (queue_cursors s)\<rparr>
      in if kept = [] then (0, s1)
         else
           let min_direct = Min (set (map qc_last_direct_id kept));
               min_group = Min (set (map qc_last_group_id kept));
               (n1, s2) = (if 0 < min_direct then reap_direct u min_direct s1 else (0, s1));
               (n2, s3) = (if 0 < min_group then reap_group u min_group s2 else (0, s2))
           in (n1 + n2, s3))"

definition advance_cursor ::
  "datetime \<Rightarrow> uin \<Rightarrow> device \<Rightarrow> int \<Rightarrow> int \<Rightarrow> queue_cursor option \<Rightarrow> island \<Rightarrow> int \<times> island" where
  "advance_cursor now u d max_direct max_group cursor s =
     (let cur = (case cursor of None \<Rightarrow> find_cursor s u d | Some c \<Rightarrow> Some c);
          seed = (case cur of None \<Rightarrow> account_watermark s u | Some c \<Rightarrow> (0, 0))
      in reap_below_min now u (snd (upsert_cursor now u d (max_direct, max_group) seed s)))"

section \<open>The queue routes\<close>

record history_row =
  h_id :: int
  h_envelope_type :: string
  h_cls :: int
  h_seq :: "int option"
  h_payload :: string
  h_received_at :: datetime
  h_group_id :: "int option"
  h_to_device_id :: "int option"

definition direct_history :: "offline_message \<Rightarrow> history_row" where
  "direct_history r = \<lparr>h_id = om_id r, h_envelope_type = om_envelope_type r,
     h_cls = (case om_cls r of Some c \<Rightarrow> c | None \<Rightarrow> cls_for (om_envelope_type r)),
     h_seq = om_seq r, h_payload = om_payload r, h_received_at = om_received_at r,
     h_group_id = None, h_to_device_id = om_to_device_id r\<rparr>"

definition group_history :: "offline_group_message \<Rightarrow> history_row" where
  "group_history r = \<lparr>h_id = og_id r, h_envelope_type = og_envelope_type r,
     h_cls = (case og_cls r of Some c \<Rightarrow> c | None \<Rightarrow> cls_for (og_envelope_type r)),
     h_seq = None, h_payload = og_payload r, h_received_at = og_received_at r,
     h_group_id = Some (og_group_id r), h_to_device_id = None\<rparr>"

text \<open>\<open>devices.mark_device_seen\<close>: the first live use of a linked device ends its pending state.\<close>

definition mark_device_seen :: "uin \<Rightarrow> device \<Rightarrow> island \<Rightarrow> island" where
  "mark_device_seen u d s =
     (if d = '''' \<or> d = ''primary'' \<or> \<not> redis_up s then s
      else s\<lparr>linked_devices := map (\<lambda>l. if ld_uin l = u \<and> ld_device_id l = d
                then l\<lparr>ld_pending := False\<rparr> else l) (linked_devices s)\<rparr>)"

definition direct_rows :: "island \<Rightarrow> uin \<Rightarrow> int \<Rightarrow> int \<Rightarrow> offline_message list" where
  "direct_rows s u after dev = sort_key om_received_at
     (filter (\<lambda>r. om_to_uin r = u \<and> after < om_id r \<and> for_device dev r) (offline_messages s))"

definition group_rows :: "island \<Rightarrow> uin \<Rightarrow> int \<Rightarrow> offline_group_message list" where
  "group_rows s u after = sort_key og_received_at
     (filter (\<lambda>r. og_to_uin r = u \<and> after < og_id r) (offline_group_messages s))"

text \<open>The floor of this drain, pinned as the device's cursor when it has none yet.\<close>

definition pin_floor :: "datetime \<Rightarrow> uin \<Rightarrow> device \<Rightarrow> island \<Rightarrow> (int \<times> int) \<times> island" where
  "pin_floor now u d s =
     (case drain_floor s u d of
        (direct, grp, Some c) \<Rightarrow> ((direct, grp), s)
      | (direct, grp, None) \<Rightarrow> upsert_cursor now u d (0, 0) (direct, grp) s)"

definition fetch_queue ::
  "(string \<Rightarrow> string) \<Rightarrow> datetime \<Rightarrow> bool \<Rightarrow> int \<Rightarrow> uin \<Rightarrow> device \<Rightarrow> island
     \<Rightarrow> history_row list \<times> island" where
  "fetch_queue bucket now ack dev u d s =
     (let s1 = touch_poll bucket now u (mark_device_seen u d s);
          cursor = snd (snd (drain_floor s1 u d));
          ((after_direct, after_group), s2) = pin_floor now u d s1;
          rows_1to1 = direct_rows s2 u after_direct dev;
          rows_group = group_rows s2 u after_group;
          out = sort_key h_received_at (map direct_history rows_1to1 @ map group_history rows_group)
      in if ack then (out, s2)
         else
           let max_direct = max_default after_direct (map om_id rows_1to1);
               max_group = max_default after_group (map og_id rows_group)
           in (out, snd (advance_cursor now u d max_direct max_group cursor s2)))"

definition ack_queue ::
  "datetime \<Rightarrow> int list \<Rightarrow> int list \<Rightarrow> int \<Rightarrow> uin \<Rightarrow> device \<Rightarrow> island \<Rightarrow> int \<times> island" where
  "ack_queue now direct_ids group_ids dev u d s =
     (case drain_floor s u d of (base_direct, base_group, cursor) \<Rightarrow>
        let max_direct = acked_prefix (direct_ids_above s u base_direct dev) base_direct direct_ids;
            max_group = acked_prefix (group_ids_above s u base_group) base_group group_ids
        in advance_cursor now u d max_direct max_group cursor s)"

section \<open>The sweep\<close>

text \<open>
  One pass; the counts it returns are only logged and are left out.
  \<open>ttl_days\<close>, \<open>dormant_days\<close> and \<open>sknack_ttl\<close> are the module's settings (30 days,
  14 days and 3600 seconds unless the operator's environment says otherwise). One pass runs
  within one reading of the clock here; the code reads it again for each table.
\<close>

record sweep_config =
  ttl_days :: int
  dormant_days :: int
  sknack_ttl :: int

definition default_sweep :: sweep_config where
  "default_sweep = \<lparr>ttl_days = 30, dormant_days = 14, sknack_ttl = 3600\<rparr>"

definition dormant_batch :: nat where
  "dormant_batch = 20000"

definition dormant_max_per_sweep :: nat where
  "dormant_max_per_sweep = 400000"

definition dormant_cutoff :: "sweep_config \<Rightarrow> datetime \<Rightarrow> datetime option" where
  "dormant_cutoff cfg now =
     (if dormant_days cfg \<le> 0 then None else Some (now - days (dormant_days cfg)))"

definition dormant_candidate :: "island \<Rightarrow> datetime \<Rightarrow> offline_group_message \<Rightarrow> bool" where
  "dormant_candidate s cutoff o' =
     ((case find_user s (og_to_uin o') of None \<Rightarrow> True | Some r \<Rightarrow> u_last_seen r < cutoff) \<and>
      og_cls o' \<noteq> Some 2 \<and> og_envelope_type o' \<noteq> ''skdm'')"

text \<open>One \<open>DELETE ... LIMIT\<close> statement: the number of rows it took and the table it leaves.\<close>

fun delete_limit :: "nat \<Rightarrow> ('r \<Rightarrow> bool) \<Rightarrow> 'r list \<Rightarrow> nat \<times> 'r list" where
  "delete_limit n P [] = (0, [])"
| "delete_limit n P (r # rows) =
     (if P r \<and> 0 < n then (case delete_limit (n - 1) P rows of (k, rest) \<Rightarrow> (Suc k, rest))
      else (case delete_limit n P rows of (k, rest) \<Rightarrow> (k, r # rest)))"

function sweep_dormant :: "datetime \<Rightarrow> nat \<Rightarrow> island \<Rightarrow> nat \<times> island" where
  "sweep_dormant cutoff deleted s =
     (if deleted < dormant_max_per_sweep then
        (case delete_limit dormant_batch (dormant_candidate s cutoff) (offline_group_messages s) of
           (n, rows) \<Rightarrow>
             let s' = s\<lparr>offline_group_messages := rows\<rparr>
             in if n < dormant_batch then (deleted + n, s')
                else sweep_dormant cutoff (deleted + n) s')
      else (deleted, s))"
  by pat_completeness auto
termination
  by (relation "measure (\<lambda>(cutoff, deleted, s). dormant_max_per_sweep - deleted)")
     (auto simp: dormant_batch_def)

declare sweep_dormant.simps [simp del]

definition sweep_queues :: "sweep_config \<Rightarrow> datetime \<Rightarrow> island \<Rightarrow> island" where
  "sweep_queues cfg now s =
     (let cutoff = now - days (ttl_days cfg);
          stale_nack = (\<lambda>ty at. 0 < sknack_ttl cfg \<and> ty = ''sknack'' \<and>
                          at < now - seconds (sknack_ttl cfg))
      in s\<lparr>offline_messages := filter (\<lambda>r. \<not> om_received_at r < cutoff) (offline_messages s),
           offline_group_messages := filter (\<lambda>r. \<not> og_received_at r < cutoff \<and>
             \<not> stale_nack (og_envelope_type r) (og_received_at r)) (offline_group_messages s)\<rparr>)"

definition sweep_logs :: "sweep_config \<Rightarrow> datetime \<Rightarrow> island \<Rightarrow> island" where
  "sweep_logs cfg now s =
     (let cutoff = now - days (ttl_days cfg);
          stale_nack = (\<lambda>ty at. 0 < sknack_ttl cfg \<and> ty = ''sknack'' \<and>
                          at < now - seconds (sknack_ttl cfg))
      in s\<lparr>group_log := filter (\<lambda>r. \<not> gl_received_at r < cutoff \<and>
             \<not> stale_nack (gl_envelope_type r) (gl_received_at r)) (group_log s),
           group_log_cursors := filter (\<lambda>c. find_member s (lc_group_id c) (lc_uin c) \<noteq> None)
             (group_log_cursors s)\<rparr>)"

definition sweep_once :: "sweep_config \<Rightarrow> datetime \<Rightarrow> island \<Rightarrow> island" where
  "sweep_once cfg now s =
     (let s1 = sweep_queues cfg now s;
          s2 = (case dormant_cutoff cfg now of None \<Rightarrow> s1 | Some cutoff \<Rightarrow> snd (sweep_dormant cutoff 0 s1))
      in sweep_logs cfg now s2)"

section \<open>Cursor marks\<close>

definition device_mark :: "island \<Rightarrow> uin \<times> device \<Rightarrow> (int \<times> int) option" where
  "device_mark s k = map_option cursor_marks (find_cursor s (fst k) (snd k))"

definition raise_cursor :: "datetime \<Rightarrow> island \<Rightarrow> uin \<times> device \<Rightarrow> int \<times> int \<Rightarrow> int \<times> int \<Rightarrow> island" where
  "raise_cursor now s k m d = snd (upsert_cursor now (fst k) (snd k) m d s)"

lemma find_cursor_upsert:
  "find_cursor (snd (upsert_cursor now u d m sd s)) u d =
     Some (case find_cursor s u d of
        None \<Rightarrow> \<lparr>qc_uin = u, qc_device_id = d, qc_last_direct_id = max (fst m) (fst sd),
                 qc_last_group_id = max (snd m) (snd sd), qc_updated_at = Some now\<rparr>
      | Some c \<Rightarrow> c\<lparr>qc_last_direct_id := max (qc_last_direct_id c) (fst m),
                  qc_last_group_id := max (qc_last_group_id c) (snd m), qc_updated_at := Some now\<rparr>)"
  unfolding find_cursor_def upsert_cursor_def Let_def snd_conv queue_cursor.simps upsert_cursor_row_def
  by (simp add: table_simps is_cursor_def)

lemma find_cursor_upsert_other:
  assumes "(u', d') \<noteq> (u, d)"
  shows "find_cursor (snd (upsert_cursor now u d m sd s)) u' d' = find_cursor s u' d'"
proof -
  have "get_row (is_cursor u' d') (upsert_cursor_row now u d m sd (queue_cursors s)) =
          get_row (is_cursor u' d') (queue_cursors s)"
    unfolding upsert_cursor_row_def
    by (rule get_upsert_other) (use assms in \<open>auto simp: is_cursor_def\<close>)
  then show ?thesis by (simp add: find_cursor_def upsert_cursor_def Let_def)
qed

interpretation queue_marks: cursor_store device_mark raise_cursor
proof unfold_locales
  show "device_mark (raise_cursor t s k m d) k =
      Some (case device_mark s k of None \<Rightarrow> sup m d | Some v \<Rightarrow> sup v m)" for t s k m d
    by (auto simp: device_mark_def raise_cursor_def find_cursor_upsert cursor_marks_def sup_prod_def
        sup_int_def split: option.splits)
  show "k' \<noteq> k \<Longrightarrow> device_mark (raise_cursor t s k m d) k' = device_mark s k'" for k' k t s m d
    by (simp add: device_mark_def raise_cursor_def find_cursor_upsert_other prod_eq_iff)
qed

section \<open>The acknowledged prefix\<close>

lemma acked_walk_ge:
  "sorted ids \<Longrightarrow> (\<And>i. i \<in> set ids \<Longrightarrow> out \<le> i) \<Longrightarrow> out \<le> acked_walk acked ids out"
proof (induction acked ids out rule: acked_walk.induct)
  case (2 acked i ids out)
  then show ?case by (cases "i \<in> set acked") (auto intro: order_trans)
qed simp

lemma acked_walk_sound:
  "sorted ids \<Longrightarrow> i \<in> set ids \<Longrightarrow> i \<le> acked_walk acked ids out \<Longrightarrow> i \<in> set acked \<or> i \<le> out"
proof (induction acked ids out rule: acked_walk.induct)
  case (2 acked j ids out)
  then show ?case by (cases "j \<in> set acked") force+
qed simp

lemma acked_walk_all:
  "sorted ids \<Longrightarrow> set ids \<subseteq> set acked \<Longrightarrow> i \<in> set ids \<Longrightarrow> i \<le> acked_walk acked ids out"
proof (induction acked ids out arbitrary: i rule: acked_walk.induct)
  case (2 acked j ids out)
  then show ?case by (auto intro: acked_walk_ge)
qed simp

lemma acked_prefix_ge:
  "sorted ids \<Longrightarrow> (\<And>i. i \<in> set ids \<Longrightarrow> base \<le> i) \<Longrightarrow> base \<le> acked_prefix ids base acked"
  by (simp add: acked_prefix_def acked_walk_ge)

lemma acked_prefix_stops:
  assumes "sorted ids" and "i \<in> set ids" and "base < i" and "i \<notin> set acked"
  shows "acked_prefix ids base acked < i"
  using assms acked_walk_sound [of ids i acked base] by (auto simp: acked_prefix_def not_le [symmetric])

lemma acked_prefix_all:
  assumes "sorted ids" and "set ids \<subseteq> set acked" and "i \<in> set ids"
  shows "i \<le> acked_prefix ids base acked"
  using assms acked_walk_all by (cases acked) (auto simp: acked_prefix_def)

section \<open>What the reaper takes\<close>

lemma reap_direct_messages [simp]:
  "offline_messages (snd (reap_direct u b s)) =
     filter (\<lambda>r. \<not> (om_to_uin r = u \<and> om_id r \<le> b)) (offline_messages s)"
  "offline_group_messages (snd (reap_direct u b s)) = offline_group_messages s"
  "queue_cursors (snd (reap_direct u b s)) = queue_cursors s"
  by (simp_all add: reap_direct_def)

lemma reap_group_messages [simp]:
  "offline_group_messages (snd (reap_group u b s)) =
     filter (\<lambda>r. \<not> (og_to_uin r = u \<and> og_id r \<le> b)) (offline_group_messages s)"
  "offline_messages (snd (reap_group u b s)) = offline_messages s"
  "queue_cursors (snd (reap_group u b s)) = queue_cursors s"
  by (simp_all add: reap_group_def)

definition direct_reaped :: "datetime \<Rightarrow> uin \<Rightarrow> island \<Rightarrow> offline_message \<Rightarrow> bool" where
  "direct_reaped now u s r \<longleftrightarrow> om_to_uin r = u \<and> live_cursors now s u \<noteq> [] \<and>
     0 < Min (qc_last_direct_id ` set (live_cursors now s u)) \<and>
     om_id r \<le> Min (qc_last_direct_id ` set (live_cursors now s u))"

definition group_reaped :: "datetime \<Rightarrow> uin \<Rightarrow> island \<Rightarrow> offline_group_message \<Rightarrow> bool" where
  "group_reaped now u s r \<longleftrightarrow> og_to_uin r = u \<and> live_cursors now s u \<noteq> [] \<and>
     0 < Min (qc_last_group_id ` set (live_cursors now s u)) \<and>
     og_id r \<le> Min (qc_last_group_id ` set (live_cursors now s u))"

lemma reap_tables:
  "offline_messages (snd (reap_below_min now u s)) =
     filter (\<lambda>r. \<not> direct_reaped now u s r) (offline_messages s)"
  "offline_group_messages (snd (reap_below_min now u s)) =
     filter (\<lambda>r. \<not> group_reaped now u s r) (offline_group_messages s)"
  "queue_cursors (snd (reap_below_min now u s)) =
     filter (\<lambda>c. \<not> (qc_uin c = u \<and> drop_cursor now (account_cursors s u) c)) (queue_cursors s)"
  by (auto simp: reap_below_min_def Let_def split_beta direct_reaped_def group_reaped_def
      intro!: filter_cong filter_True [symmetric])

lemma direct_reaped_iff:
  "direct_reaped now u s r \<longleftrightarrow> om_to_uin r = u \<and> live_cursors now s u \<noteq> [] \<and>
     (\<forall>c \<in> set (live_cursors now s u). 0 < qc_last_direct_id c \<and> om_id r \<le> qc_last_direct_id c)"
  by (auto simp: direct_reaped_def)

lemma group_reaped_iff:
  "group_reaped now u s r \<longleftrightarrow> og_to_uin r = u \<and> live_cursors now s u \<noteq> [] \<and>
     (\<forall>c \<in> set (live_cursors now s u). 0 < qc_last_group_id c \<and> og_id r \<le> qc_last_group_id c)"
  by (auto simp: group_reaped_def)

lemma find_cursor_account: "find_cursor s u d = Some c \<Longrightarrow> c \<in> set (account_cursors s u)"
  by (auto simp: find_cursor_def account_cursors_def is_cursor_def dest!: get_row_Some_memD)

text \<open>A cursor stamped within the last seven days, or never stamped, is never dropped.\<close>

definition stamp_since :: "datetime \<Rightarrow> queue_cursor \<Rightarrow> bool" where
  "stamp_since t c = (case qc_updated_at c of None \<Rightarrow> True | Some ts \<Rightarrow> t \<le> ts)"

lemma stamp_since_kept: "stamp_since t c \<Longrightarrow> now \<le> t + days 7 \<Longrightarrow> \<not> drop_cursor now cs c"
  by (auto simp: stamp_since_def drop_cursor_def stale_cursor_days_def superseded_cursor_days_def
      split: option.splits)

lemma find_cursor_reap:
  assumes "find_cursor s u d = Some c" and "stamp_since t c" and "now \<le> t + days 7"
  shows "find_cursor (snd (reap_below_min now u' s)) u d = Some c"
  using assms stamp_since_kept [OF assms(2,3)]
  by (auto simp: find_cursor_def reap_tables intro: get_row_filter_kept)

section \<open>Rows held for an install\<close>

text \<open>
  A direct row waits for an install when it is in the table, the install's drain would serve it,
  and the install's cursor, stamped no earlier than \<open>t\<close>, is below it.
\<close>

definition waits_for :: "datetime \<Rightarrow> uin \<Rightarrow> device \<Rightarrow> int \<Rightarrow> offline_message \<Rightarrow> island \<Rightarrow> bool" where
  "waits_for t u d dev r s \<longleftrightarrow> r \<in> set (offline_messages s) \<and> om_to_uin r = u \<and> for_device dev r \<and>
     (case find_cursor s u d of
        None \<Rightarrow> False
      | Some c \<Rightarrow> stamp_since t c \<and> qc_last_direct_id c < om_id r)"

lemma waits_forI:
  assumes "r \<in> set (offline_messages s)" "om_to_uin r = u" "for_device dev r"
    and "find_cursor s u d = Some c" "stamp_since t c" "qc_last_direct_id c < om_id r"
  shows "waits_for t u d dev r s"
  using assms by (simp add: waits_for_def)

lemma waits_forE:
  assumes "waits_for t u d dev r s"
  obtains c where "r \<in> set (offline_messages s)" "om_to_uin r = u" "for_device dev r"
    "find_cursor s u d = Some c" "stamp_since t c" "qc_last_direct_id c < om_id r"
  using assms by (auto simp: waits_for_def split: option.splits)

lemma waits_reap:
  assumes "waits_for t u d dev r s" and "now \<le> t + days 7"
  shows "waits_for t u d dev r (snd (reap_below_min now u' s))"
  using assms(1)
proof (rule waits_forE)
  fix c assume c: "r \<in> set (offline_messages s)" "om_to_uin r = u" "for_device dev r"
    "find_cursor s u d = Some c" "stamp_since t c" "qc_last_direct_id c < om_id r"
  have "c \<in> set (live_cursors now s u)"
    using find_cursor_account [OF c(4)] stamp_since_kept [OF c(5) assms(2)]
    by (simp add: live_cursors_def)
  with c(2,6) have "\<not> direct_reaped now u' s r" by (auto simp: direct_reaped_iff not_le [symmetric])
  with c(1) have "r \<in> set (offline_messages (snd (reap_below_min now u' s)))" by (simp add: reap_tables)
  then show ?thesis using c find_cursor_reap [OF c(4,5) assms(2)] by (blast intro: waits_forI)
qed

lemma upsert_cursor_frame [simp]:
  "offline_messages (snd (upsert_cursor now u d m sd s)) = offline_messages s"
  "offline_group_messages (snd (upsert_cursor now u d m sd s)) = offline_group_messages s"
  by (simp_all add: upsert_cursor_def Let_def)

lemma waits_upsert:
  assumes "waits_for t u d dev r s" and "t \<le> now"
    and "(u', d') = (u, d) \<Longrightarrow> fst m < om_id r"
  shows "waits_for t u d dev r (snd (upsert_cursor now u' d' m sd s))"
  using assms(1)
proof (rule waits_forE)
  fix c assume c: "r \<in> set (offline_messages s)" "om_to_uin r = u" "for_device dev r"
    "find_cursor s u d = Some c" "stamp_since t c" "qc_last_direct_id c < om_id r"
  show ?thesis
  proof (cases "(u', d') = (u, d)")
    case True
    with c assms show ?thesis
      by (auto simp: waits_for_def find_cursor_upsert stamp_since_def)
  next
    case False
    with c show ?thesis by (auto simp: waits_for_def find_cursor_upsert_other)
  qed
qed

lemma waits_advance:
  assumes "waits_for t u d dev r s" and "t \<le> now" "now \<le> t + days 7"
    and "(u', d') = (u, d) \<Longrightarrow> max_direct < om_id r"
  shows "waits_for t u d dev r (snd (advance_cursor now u' d' max_direct max_group cursor s))"
  unfolding advance_cursor_def Let_def
  by (rule waits_reap [OF waits_upsert]) (use assms in auto)

lemma drain_side_effects [simp]:
  "offline_messages (touch_poll bucket now u s) = offline_messages s"
  "offline_group_messages (touch_poll bucket now u s) = offline_group_messages s"
  "queue_cursors (touch_poll bucket now u s) = queue_cursors s"
  "offline_messages (mark_device_seen u d s) = offline_messages s"
  "offline_group_messages (mark_device_seen u d s) = offline_group_messages s"
  "queue_cursors (mark_device_seen u d s) = queue_cursors s"
  by (simp_all add: touch_poll_def is_guest_def ensure_def rebuild_def rebuild_apply_def
      mark_device_seen_def split_beta Let_def)

lemma find_cursor_side_effects [simp]:
  "find_cursor (touch_poll bucket now u s) = find_cursor s"
  "find_cursor (mark_device_seen u d s) = find_cursor s"
  by (simp_all add: fun_eq_iff find_cursor_def)

lemma drain_floor_side_effects [simp]:
  "drain_floor (touch_poll bucket now u (mark_device_seen u d s)) = drain_floor s"
  by (simp add: fun_eq_iff drain_floor_def account_watermark_def account_cursors_def split: option.splits)

lemma waits_for_cong:
  assumes "offline_messages s' = offline_messages s" and "queue_cursors s' = queue_cursors s"
  shows "waits_for t u d dev r s' = waits_for t u d dev r s"
  using assms by (simp add: waits_for_def find_cursor_def)

lemma waits_pin:
  assumes "waits_for t u d dev r s" and "t \<le> now"
  shows "waits_for t u d dev r (snd (pin_floor now u' d' s))"
proof (cases "find_cursor s u' d'")
  case None
  with assms(1) have "(u', d') \<noteq> (u, d)" by (auto simp: waits_for_def)
  then have "waits_for t u d dev r (snd (upsert_cursor now u' d' (0, 0) sd s))" for sd
    using assms by (intro waits_upsert) auto
  with None show ?thesis by (simp add: pin_floor_def drain_floor_def split_beta)
next
  case (Some c)
  with assms(1) show ?thesis by (simp add: pin_floor_def drain_floor_def)
qed

lemma waits_fetch:
  assumes "waits_for t u d dev r s" and "t \<le> now" "now \<le> t + days 7"
    and "(u', d') = (u, d) \<Longrightarrow> ack"
  shows "waits_for t u d dev r (snd (fetch_queue bucket now ack dev' u' d' s))"
proof -
  let ?s1 = "touch_poll bucket now u' (mark_device_seen u' d' s)"
  have "waits_for t u d dev r ?s1" using assms(1) waits_for_cong [of ?s1 s] by simp
  then have pinned: "waits_for t u d dev r (snd (pin_floor now u' d' ?s1))"
    using assms(2) by (rule waits_pin)
  show ?thesis
  proof (cases ack)
    case True
    with pinned show ?thesis by (simp add: fetch_queue_def Let_def split_beta)
  next
    case False
    with assms(4) have "(u', d') \<noteq> (u, d)" by blast
    then have "waits_for t u d dev r (snd (advance_cursor now u' d' a b c (snd (pin_floor now u' d' ?s1))))"
      for a b c using pinned assms(2,3) by (intro waits_advance) auto
    with False show ?thesis by (simp add: fetch_queue_def Let_def split_beta)
  qed
qed

lemma waits_ack:
  assumes "waits_for t u d dev r s" and "t \<le> now" "now \<le> t + days 7"
    and "(u', d') = (u, d) \<Longrightarrow> dev' = dev \<and> om_id r \<notin> set direct_ids"
  shows "waits_for t u d dev r (snd (ack_queue now direct_ids group_ids dev' u' d' s))"
proof -
  have "acked_prefix (direct_ids_above s u (qc_last_direct_id c) dev) (qc_last_direct_id c) direct_ids
          < om_id r"
    if "(u', d') = (u, d)" and "find_cursor s u d = Some c" for c
    using assms(1,4) that
    by (intro acked_prefix_stops) (auto simp: direct_ids_above_def waits_for_def)
  moreover have "\<exists>c. find_cursor s u d = Some c" using assms(1) by (auto simp: waits_for_def split: option.splits)
  ultimately show ?thesis
    unfolding ack_queue_def Let_def split_beta using assms
    by (intro waits_advance) (auto simp: drain_floor_def)
qed

lemma store_direct_row:
  assumes "store_direct now u ty cls p td s = (row, s')"
  shows "row \<in> set (offline_messages s')" "om_to_uin row = u" "om_to_device_id row = td"
    "om_id row = offline_message_serial s + 1" "queue_cursors s' = queue_cursors s"
    "om_received_at row = now" "offline_messages s' = offline_messages s @ [row]"
  using assms by (auto simp: store_direct_def next_mailbox_seq_def Let_def)

lemma waits_store:
  assumes "waits_for t u d dev r s"
  shows "waits_for t u d dev r (snd (store_direct now u' ty cls p td s))"
    and "waits_for t u d dev r (store_group_copy now u' g ty cls p s)"
proof -
  obtain row s' where eq: "store_direct now u' ty cls p td s = (row, s')" by (cases "store_direct now u' ty cls p td s")
  from assms store_direct_row(5,7) [OF eq] show "waits_for t u d dev r (snd (store_direct now u' ty cls p td s))"
    by (simp add: eq waits_for_def find_cursor_def)
  from assms show "waits_for t u d dev r (store_group_copy now u' g ty cls p s)"
    by (simp add: waits_for_def find_cursor_def store_group_copy_def)
qed

lemma delete_limit_subseq: "subseq (snd (delete_limit n P rows)) rows"
  by (induction n P rows rule: delete_limit.induct) (auto simp: split_beta)

lemma sweep_dormant_shape:
  "\<exists>rows. snd (sweep_dormant cutoff n s) = s\<lparr>offline_group_messages := rows\<rparr> \<and>
     subseq rows (offline_group_messages s)"
proof (induction cutoff n s rule: sweep_dormant.induct)
  case (1 cutoff n s)
  obtain k rest where dl: "delete_limit dormant_batch (dormant_candidate s cutoff)
      (offline_group_messages s) = (k, rest)" by fastforce
  have sub: "subseq rest (offline_group_messages s)"
    using delete_limit_subseq [of dormant_batch "dormant_candidate s cutoff" "offline_group_messages s"]
    by (simp add: dl)
  show ?case
  proof (cases "n < dormant_max_per_sweep \<and> \<not> k < dormant_batch")
    case True
    from "1.IH" [OF _ dl [symmetric] refl] True obtain rows where
      "snd (sweep_dormant cutoff (n + k) (s\<lparr>offline_group_messages := rest\<rparr>)) =
         s\<lparr>offline_group_messages := rows\<rparr>" "subseq rows rest" by auto
    with True sub show ?thesis
      by (subst sweep_dormant.simps) (auto simp: dl intro: subseq_order.order_trans)
  next
    case False
    have "snd (sweep_dormant cutoff n s) =
        (if n < dormant_max_per_sweep then s\<lparr>offline_group_messages := rest\<rparr> else s)"
      using False by (subst sweep_dormant.simps) (simp add: dl Let_def)
    moreover have "s = s\<lparr>offline_group_messages := offline_group_messages s\<rparr>" by simp
    ultimately show ?thesis using sub by (metis subseq_order.order_refl)
  qed
qed

lemma sweep_dormant_frame [simp]:
  "offline_messages (snd (sweep_dormant cutoff n s)) = offline_messages s"
  "queue_cursors (snd (sweep_dormant cutoff n s)) = queue_cursors s"
  using sweep_dormant_shape [of cutoff n s] by auto

lemma sweep_frame [simp]:
  "offline_messages (sweep_once cfg now s) =
     filter (\<lambda>r. \<not> om_received_at r < now - days (ttl_days cfg)) (offline_messages s)"
  "queue_cursors (sweep_once cfg now s) = queue_cursors s"
  by (simp_all add: sweep_once_def sweep_logs_def sweep_queues_def Let_def split: option.splits)

lemma waits_sweep:
  assumes "waits_for t u d dev r s" and "now \<le> om_received_at r + days (ttl_days cfg)"
  shows "waits_for t u d dev r (sweep_once cfg now s)"
  using assms by (simp add: waits_for_def find_cursor_def)

section \<open>Well-formed queues\<close>

text \<open>
  Primary keys are unique and were handed out by their serial, every cursor mark lies between
  zero and the serial of its axis, and the mailbox sequences are unique and were handed out by
  the mailbox counter, so the unique index on (to_uin, seq) never fires.
\<close>

definition within :: "int \<Rightarrow> int \<Rightarrow> bool" where
  "within hi i \<longleftrightarrow> 0 \<le> i \<and> i \<le> hi"

definition marks_within :: "island \<Rightarrow> int \<times> int \<Rightarrow> bool" where
  "marks_within s m \<longleftrightarrow> within (offline_message_serial s) (fst m) \<and> within (offline_group_serial s) (snd m)"

definition sequenced :: "offline_message list \<Rightarrow> (uin \<times> int option) list" where
  "sequenced rows = map (\<lambda>r. (om_to_uin r, om_seq r)) (filter (\<lambda>r. om_seq r \<noteq> None) rows)"

definition queue_wf :: "island \<Rightarrow> bool" where
  "queue_wf s \<longleftrightarrow> 0 \<le> offline_message_serial s \<and> 0 \<le> offline_group_serial s \<and>
     unique_key om_id (offline_messages s) \<and> unique_key og_id (offline_group_messages s) \<and>
     unique_key (\<lambda>c. (qc_uin c, qc_device_id c)) (queue_cursors s) \<and>
     (\<forall>r \<in> set (offline_messages s). 0 < om_id r \<and> om_id r \<le> offline_message_serial s) \<and>
     (\<forall>r \<in> set (offline_group_messages s). 0 < og_id r \<and> og_id r \<le> offline_group_serial s) \<and>
     (\<forall>c \<in> set (queue_cursors s). marks_within s (cursor_marks c)) \<and>
     distinct (sequenced (offline_messages s)) \<and>
     (\<forall>r \<in> set (offline_messages s). \<forall>n. om_seq r = Some n \<longrightarrow> n \<le> mailbox_issued s (om_to_uin r))"

definition same_counters :: "island \<Rightarrow> island \<Rightarrow> bool" where
  "same_counters s s' \<longleftrightarrow> offline_message_serial s' = offline_message_serial s \<and>
     offline_group_serial s' = offline_group_serial s \<and> mailbox_seq s' = mailbox_seq s"

lemma distinct_subseqI: "distinct ys \<Longrightarrow> subseq xs ys \<Longrightarrow> distinct xs"
  by (auto simp: subseq_conv_nths)

lemma unique_key_subseq: "unique_key key rows \<Longrightarrow> subseq rows' rows \<Longrightarrow> unique_key key rows'"
  unfolding unique_key_def by (meson distinct_subseqI subseq_map)

lemma queue_wf_shrink:
  assumes "queue_wf s" and "same_counters s s'"
    and "subseq (offline_messages s') (offline_messages s)"
    and "subseq (offline_group_messages s') (offline_group_messages s)"
    and "subseq (queue_cursors s') (queue_cursors s)"
  shows "queue_wf s'"
proof -
  have sub: "set (offline_messages s') \<subseteq> set (offline_messages s)"
      "set (offline_group_messages s') \<subseteq> set (offline_group_messages s)"
      "set (queue_cursors s') \<subseteq> set (queue_cursors s)"
    using assms(3-5) by (auto dest: list_emb_set)
  have "distinct (sequenced (offline_messages s'))"
    using assms(1,3) unfolding queue_wf_def sequenced_def
    by (meson distinct_subseqI subseq_map subseq_filter)
  with sub assms show ?thesis
    unfolding queue_wf_def same_counters_def marks_within_def mailbox_issued_def
    by (auto intro: unique_key_subseq)
qed

lemma find_cursor_marks: "queue_wf s \<Longrightarrow> find_cursor s u d = Some c \<Longrightarrow> marks_within s (cursor_marks c)"
  by (auto simp: queue_wf_def find_cursor_def dest: get_row_Some_memD)

lemma account_watermark_within: "queue_wf s \<Longrightarrow> marks_within s (account_watermark s u)"
  using max_default_cases [of 0 "map qc_last_direct_id (account_cursors s u)"]
    max_default_cases [of 0 "map qc_last_group_id (account_cursors s u)"]
  by (auto simp: queue_wf_def marks_within_def within_def account_watermark_def account_cursors_def
      cursor_marks_def)

lemma queue_wf_upsert:
  assumes "queue_wf s" and "marks_within s m" and "marks_within s sd"
  shows "queue_wf (snd (upsert_cursor now u d m sd s))"
proof -
  let ?rows = "upsert_cursor_row now u d m sd (queue_cursors s)"
  have s': "snd (upsert_cursor now u d m sd s) = s\<lparr>queue_cursors := ?rows\<rparr>"
    by (simp add: upsert_cursor_def Let_def)
  have "unique_key (\<lambda>c. (qc_uin c, qc_device_id c)) ?rows"
    unfolding upsert_cursor_row_def
    by (rule unique_key_upsert) (use assms(1) in \<open>auto simp: queue_wf_def is_cursor_def\<close>)
  moreover have "marks_within s (cursor_marks c)" if "c \<in> set ?rows" for c
    using that assms
    by (auto simp: upsert_cursor_row_def queue_wf_def marks_within_def within_def cursor_marks_def
        dest!: subsetD [OF set_upsert_row])
  ultimately show ?thesis using assms(1)
    by (simp add: s' queue_wf_def marks_within_def mailbox_issued_def)
qed

lemma upsert_cursor_counters [simp]: "same_counters s (snd (upsert_cursor now u d m sd s))"
  by (simp add: upsert_cursor_def Let_def same_counters_def)

lemma reap_counters: "same_counters s (snd (reap_below_min now u s))"
  by (simp add: reap_below_min_def reap_direct_def reap_group_def same_counters_def Let_def split_beta)

lemma queue_wf_reap: "queue_wf s \<Longrightarrow> queue_wf (snd (reap_below_min now u s))"
  by (rule queue_wf_shrink [OF _ reap_counters]) (auto simp: reap_tables)

lemma queue_wf_advance:
  assumes "queue_wf s" and "marks_within s (max_direct, max_group)"
  shows "queue_wf (snd (advance_cursor now u d max_direct max_group cursor s))"
proof -
  have "marks_within s (0, 0)" using assms(1) by (simp add: queue_wf_def marks_within_def within_def)
  with assms account_watermark_within [OF assms(1)] show ?thesis
    by (auto simp: advance_cursor_def Let_def intro!: queue_wf_reap queue_wf_upsert split: option.splits)
qed

lemma acked_walk_mem: "acked_walk acked ids out = out \<or> acked_walk acked ids out \<in> set ids"
  by (induction acked ids out rule: acked_walk.induct) auto

lemma acked_prefix_mem: "acked_prefix ids base acked = base \<or> acked_prefix ids base acked \<in> set ids"
  using acked_walk_mem by (simp add: acked_prefix_def)

lemma drain_floor_within:
  assumes "queue_wf s" and "drain_floor s u d = (direct, grp, cur)"
  shows "marks_within s (direct, grp)"
  using assms find_cursor_marks [OF assms(1)] account_watermark_within [OF assms(1), of u]
  by (auto simp: drain_floor_def cursor_marks_def split: option.splits prod.splits)

lemma queue_wf_ack: "queue_wf s \<Longrightarrow> queue_wf (snd (ack_queue now ds gs dev u d s))"
proof -
  assume wf: "queue_wf s"
  obtain bd bg cur where fl: "drain_floor s u d = (bd, bg, cur)" by (cases "drain_floor s u d")
  note base = drain_floor_within [OF wf fl]
  have "within (offline_message_serial s) (acked_prefix (direct_ids_above s u bd dev) bd ds)"
    using acked_prefix_mem [of "direct_ids_above s u bd dev" bd ds] base wf
    by (auto simp: marks_within_def within_def direct_ids_above_def queue_wf_def)
  moreover have "within (offline_group_serial s) (acked_prefix (group_ids_above s u bg) bg gs)"
    using acked_prefix_mem [of "group_ids_above s u bg" bg gs] base wf
    by (auto simp: marks_within_def within_def group_ids_above_def queue_wf_def)
  ultimately show ?thesis
    using wf by (auto simp: ack_queue_def fl Let_def marks_within_def intro!: queue_wf_advance)
qed

lemma side_effect_counters:
  "same_counters s (touch_poll bucket now u (mark_device_seen u d s))"
  by (simp add: same_counters_def touch_poll_def is_guest_def ensure_def rebuild_def rebuild_apply_def
      mark_device_seen_def split_beta Let_def)

lemma queue_wf_side_effects:
  "queue_wf s \<Longrightarrow> queue_wf (touch_poll bucket now u (mark_device_seen u d s))"
  by (rule queue_wf_shrink [OF _ side_effect_counters]) auto

lemma queue_wf_pin:
  assumes "queue_wf s"
  shows "queue_wf (snd (pin_floor now u d s))"
proof -
  have "marks_within s (0, 0)" using assms by (simp add: queue_wf_def marks_within_def within_def)
  then have "queue_wf (snd (upsert_cursor now u d (0, 0) (account_watermark s u) s))"
    using assms account_watermark_within [OF assms] by (intro queue_wf_upsert)
  with assms show ?thesis
    by (simp add: pin_floor_def drain_floor_def split_beta split: option.splits)
qed

text \<open>A pinned floor is the floor the device read; on a well-formed queue pinning moves nothing.\<close>

lemma pin_floor_marks:
  assumes "queue_wf s" and "drain_floor s u d = (direct, grp, cur)"
  shows "fst (pin_floor now u d s) = (direct, grp)"
    and "device_mark (snd (pin_floor now u d s)) (u, d) = Some (direct, grp)"
proof -
  have w: "marks_within s (direct, grp)" by (rule drain_floor_within [OF assms])
  show "device_mark (snd (pin_floor now u d s)) (u, d) = Some (direct, grp)"
  proof (cases cur)
    case None
    with assms(2) have "find_cursor s u d = None"
      by (auto simp: drain_floor_def split: option.splits prod.splits)
    with None w show ?thesis
      by (simp add: pin_floor_def assms(2) device_mark_def find_cursor_upsert cursor_marks_def
          marks_within_def within_def)
  next
    case (Some c)
    with assms(2) show ?thesis
      by (auto simp: pin_floor_def device_mark_def drain_floor_def cursor_marks_def
          split: option.splits prod.splits)
  qed
  then show "fst (pin_floor now u d s) = (direct, grp)"
    using assms(2) by (cases cur) (auto simp: pin_floor_def device_mark_def upsert_cursor_def Let_def)
qed

lemma queue_wf_fetch:
  assumes "queue_wf s"
  shows "queue_wf (snd (fetch_queue bucket now ack dev u d s))"
proof -
  let ?s1 = "touch_poll bucket now u (mark_device_seen u d s)"
  obtain a b s2 where pin: "pin_floor now u d ?s1 = ((a, b), s2)"
    by (metis surj_pair)
  have wf1: "queue_wf ?s1" using assms by (rule queue_wf_side_effects)
  then have wf2: "queue_wf s2" using queue_wf_pin [of ?s1 now u d] by (simp add: pin)
  obtain c where "find_cursor s2 u d = Some c" "cursor_marks c = (a, b)"
    using pin_floor_marks [OF wf1, of u d _ _ _ now] pin
    by (cases "drain_floor ?s1 u d") (auto simp: device_mark_def)
  then have ab: "marks_within s2 (a, b)" using find_cursor_marks [OF wf2] by metis
  have "within (offline_message_serial s2) (max_default a (map om_id (direct_rows s2 u a dev)))"
    using max_default_cases [of a "map om_id (direct_rows s2 u a dev)"] ab wf2
    by (auto simp: marks_within_def within_def direct_rows_def queue_wf_def)
  moreover have "within (offline_group_serial s2) (max_default b (map og_id (group_rows s2 u b)))"
    using max_default_cases [of b "map og_id (group_rows s2 u b)"] ab wf2
    by (auto simp: marks_within_def within_def group_rows_def queue_wf_def)
  ultimately show ?thesis
    using wf2 by (auto simp: fetch_queue_def Let_def pin marks_within_def intro!: queue_wf_advance)
qed

lemma queue_wf_store:
  assumes "queue_wf s"
  shows "queue_wf (snd (store_direct now u ty cls p td s))"
    and "queue_wf (store_group_copy now u g ty cls p s)"
proof -
  have fresh: "n \<le> mailbox_issued s u" if "r \<in> set (offline_messages s)" "om_to_uin r = u" "om_seq r = Some n" for r n
    using assms that by (auto simp: queue_wf_def)
  have top: "om_id r \<le> offline_message_serial s" if "r \<in> set (offline_messages s)" for r
    using assms that by (auto simp: queue_wf_def)
  show "queue_wf (snd (store_direct now u ty cls p td s))"
    using assms fresh top mailbox.take_next_value [of s u]
    by (fastforce simp: queue_wf_def store_direct_def next_mailbox_seq_def Let_def unique_key_def sequenced_def
        marks_within_def within_def mailbox_issued_def split: option.splits if_splits)
  have "og_id r \<le> offline_group_serial s" if "r \<in> set (offline_group_messages s)" for r
    using assms that by (auto simp: queue_wf_def)
  then show "queue_wf (store_group_copy now u g ty cls p s)"
    using assms by (fastforce simp: queue_wf_def store_group_copy_def unique_key_def marks_within_def
        within_def mailbox_issued_def)
qed

lemma queue_wf_sweep: "queue_wf s \<Longrightarrow> queue_wf (sweep_once cfg now s)"
proof (rule queue_wf_shrink)
  let ?s1 = "sweep_queues cfg now s"
  obtain rows where rows: "(case dormant_cutoff cfg now of None \<Rightarrow> ?s1
        | Some cutoff \<Rightarrow> snd (sweep_dormant cutoff 0 ?s1)) = ?s1\<lparr>offline_group_messages := rows\<rparr>"
      "subseq rows (offline_group_messages ?s1)"
  proof (cases "dormant_cutoff cfg now")
    case None
    then show ?thesis using that [of "offline_group_messages ?s1"] by simp
  next
    case (Some cutoff)
    then show ?thesis using that sweep_dormant_shape [of cutoff 0 ?s1] by auto
  qed
  then have once: "sweep_once cfg now s = sweep_logs cfg now (?s1\<lparr>offline_group_messages := rows\<rparr>)"
    by (simp add: sweep_once_def Let_def)
  show "same_counters s (sweep_once cfg now s)"
    by (simp add: once sweep_logs_def sweep_queues_def same_counters_def Let_def)
  have "subseq (offline_group_messages ?s1) (offline_group_messages s)"
    by (simp add: sweep_queues_def Let_def)
  with rows(2) show "subseq (offline_group_messages (sweep_once cfg now s)) (offline_group_messages s)"
    by (simp add: once sweep_logs_def Let_def)
qed simp_all

end
