(* ===== verification/Queue_Runs.thy ===== *)
theory Queue_Runs
  imports Offline_Queue
begin

text \<open>
  The offline queue as it runs: any sequence of deposits, drains, acknowledgements and sweeps by
  any accounts and installs. The theorems are the promises of
  \<open>app/services/queue_drain.py\<close> and of the queue routes of
  \<open>app/routers/messages.py\<close>: nothing is lost to an install that still reads, nothing
  acknowledged comes back, nothing is deleted under a lagging install.
\<close>

section \<open>Runs of the queue\<close>

datatype queue_event =
    Deposit uin string int string "int option"
  | Group_Copy uin int string int string
  | Fetch bool int uin device
  | Ack int uin device "int list" "int list"
  | Sweep sweep_config

fun queue_step :: "(string \<Rightarrow> string) \<Rightarrow> datetime \<Rightarrow> queue_event \<Rightarrow> island \<Rightarrow> island" where
  "queue_step bucket now (Deposit u ty cls p td) s = snd (store_direct now u ty cls p td s)"
| "queue_step bucket now (Group_Copy u g ty cls p) s = store_group_copy now u g ty cls p s"
| "queue_step bucket now (Fetch ack dev u d) s = snd (fetch_queue bucket now ack dev u d s)"
| "queue_step bucket now (Ack dev u d ds gs) s = snd (ack_queue now ds gs dev u d s)"
| "queue_step bucket now (Sweep cfg) s = sweep_once cfg now s"

definition queue_run :: "(string \<Rightarrow> string) \<Rightarrow> (datetime \<times> queue_event) list \<Rightarrow> island \<Rightarrow> island" where
  "queue_run bucket evs s = fold (\<lambda>(now, e). queue_step bucket now e) evs s"

definition queue_moves :: "(string \<Rightarrow> string) \<Rightarrow> island \<Rightarrow> island \<Rightarrow> bool" where
  "queue_moves bucket s s' \<longleftrightarrow> (\<exists>now e. s' = queue_step bucket now e s)"

lemma queue_wf_step: "queue_wf s \<Longrightarrow> queue_wf (queue_step bucket now e s)"
  by (cases e) (simp_all add: queue_wf_store queue_wf_fetch queue_wf_ack queue_wf_sweep)

lemma queue_wf_empty: "queue_wf empty_island"
  by (simp add: queue_wf_def empty_island_def unique_key_def sequenced_def)

interpretation queue_life: step_invariant "(=) empty_island" "queue_moves bucket" queue_wf
  for bucket :: "string \<Rightarrow> string"
  by unfold_locales (auto simp: queue_moves_def queue_wf_empty queue_wf_step)

lemma queue_wf_run: "queue_wf s \<Longrightarrow> queue_wf (queue_run bucket evs s)"
  unfolding queue_run_def by (induction evs arbitrary: s) (auto simp: queue_wf_step)

text \<open>
  What the events of a run may do without consuming the row for the install: everything other
  installs and accounts do, every drain of the install in ack mode, every acknowledgement of
  the install that does not name the row, and every sweep within the row's retention.
\<close>

fun spares :: "uin \<Rightarrow> device \<Rightarrow> int \<Rightarrow> offline_message \<Rightarrow> datetime \<Rightarrow> queue_event \<Rightarrow> bool" where
  "spares u d dev r now (Fetch ack dev' u' d') \<longleftrightarrow> ((u', d') = (u, d) \<longrightarrow> ack)"
| "spares u d dev r now (Ack dev' u' d' ds gs) \<longleftrightarrow>
     ((u', d') = (u, d) \<longrightarrow> dev' = dev \<and> om_id r \<notin> set ds)"
| "spares u d dev r now (Sweep cfg) \<longleftrightarrow> now \<le> om_received_at r + days (ttl_days cfg)"
| "spares u d dev r now (Deposit _ _ _ _ _) \<longleftrightarrow> True"
| "spares u d dev r now (Group_Copy _ _ _ _ _) \<longleftrightarrow> True"

lemma waits_step:
  assumes "waits_for t u d dev r s" and "t \<le> now" "now \<le> t + days 7" and "spares u d dev r now e"
  shows "waits_for t u d dev r (queue_step bucket now e s)"
  using assms by (cases e) (auto intro: waits_store waits_fetch waits_ack waits_sweep)

lemma waits_run:
  assumes "waits_for t u d dev r s"
    and "\<forall>(now, e) \<in> set evs. t \<le> now \<and> now \<le> t + days 7 \<and> spares u d dev r now e"
  shows "waits_for t u d dev r (queue_run bucket evs s)"
  using assms unfolding queue_run_def by (induction evs arbitrary: s) (auto intro: waits_step [simplified])

lemma fetch_set:
  assumes "queue_wf s" and "drain_floor s u d = (a, b, cur)"
  shows "set (fst (fetch_queue bucket now ack dev u d s)) =
           direct_history ` {r \<in> set (offline_messages s). om_to_uin r = u \<and> a < om_id r \<and> for_device dev r} \<union>
           group_history ` {r \<in> set (offline_group_messages s). og_to_uin r = u \<and> b < og_id r}"
proof -
  let ?s1 = "touch_poll bucket now u (mark_device_seen u d s)"
  have "fst (pin_floor now u d ?s1) = (a, b)"
    using pin_floor_marks(1) [OF queue_wf_side_effects [OF assms(1)]] assms(2) by simp
  moreover have "offline_messages (snd (pin_floor now u d ?s1)) = offline_messages s"
      "offline_group_messages (snd (pin_floor now u d ?s1)) = offline_group_messages s"
    by (auto simp: pin_floor_def split: prod.splits option.splits)
  ultimately show ?thesis
    by (simp add: fetch_queue_def Let_def split_beta direct_rows_def group_rows_def)
qed

lemma fetch_sorted: "sorted (map h_received_at (fst (fetch_queue bucket now ack dev u d s)))"
  by (simp add: fetch_queue_def Let_def split_beta)

lemma fetch_pins:
  assumes "queue_wf s" and "drain_floor s u d = (a, b, cur)"
  shows "device_mark (snd (fetch_queue bucket now True dev u d s)) (u, d) = Some (a, b)"
proof -
  let ?s1 = "touch_poll bucket now u (mark_device_seen u d s)"
  show ?thesis
    using pin_floor_marks(2) [OF queue_wf_side_effects [OF assms(1)]] assms(2)
    by (simp add: fetch_queue_def Let_def split_beta)
qed

lemma fetch_serves_waiting:
  assumes "queue_wf s" and "waits_for t u d dev r s"
  shows "direct_history r \<in> set (fst (fetch_queue bucket now ack dev u d s))"
  using assms(2)
proof (rule waits_forE)
  fix c assume c: "r \<in> set (offline_messages s)" "om_to_uin r = u" "for_device dev r"
    "find_cursor s u d = Some c" "stamp_since t c" "qc_last_direct_id c < om_id r"
  then have "drain_floor s u d = (qc_last_direct_id c, qc_last_group_id c, Some c)"
    by (simp add: drain_floor_def)
  from fetch_set [OF assms(1) this] c show ?thesis by simp
qed


definition queue_example :: island where
  "queue_example = queue_run (\<lambda>k. k) [(0, Fetch True 1 7 ''phone'')] empty_island"

definition queue_example_events :: "(datetime \<times> queue_event) list" where
  "queue_example_events = [(2, Fetch True 2 7 ''web''), (3, Ack 2 7 ''web'' [1] []),
     (4, Deposit 7 ''message'' 1 ''y'' None), (5, Ack 1 7 ''phone'' [2] []), (6, Sweep default_sweep)]"

lemma queue_example_wf: "queue_wf queue_example"
  unfolding queue_example_def by (intro queue_wf_run queue_wf_empty)


section \<open>What one drain and one acknowledgement do\<close>

text \<open>
  A drain in ack mode answers exactly the rows above the device's floor that are addressed to
  it, oldest first, and leaves the floor pinned as its cursor. For an install without a cursor
  the floor is the furthest any device of the account got to.
\<close>

theorem fetch_queue_exact:
  assumes "queue_wf s" and "(a, b) = (case find_cursor s u d of
      Some c \<Rightarrow> cursor_marks c | None \<Rightarrow> account_watermark s u)"
  shows "sorted (map h_received_at (fst (fetch_queue bucket now True dev u d s))) \<and>
         set (fst (fetch_queue bucket now True dev u d s)) =
           direct_history ` {r \<in> set (offline_messages s). om_to_uin r = u \<and> a < om_id r \<and> for_device dev r} \<union>
           group_history ` {r \<in> set (offline_group_messages s). og_to_uin r = u \<and> b < og_id r} \<and>
         device_mark (snd (fetch_queue bucket now True dev u d s)) (u, d) = Some (a, b)"
proof -
  obtain cur where "drain_floor s u d = (a, b, cur)"
    using assms(2) by (cases "account_watermark s u")
      (auto simp: drain_floor_def cursor_marks_def split: option.splits)
  with assms(1) show ?thesis by (simp add: fetch_set fetch_pins fetch_sorted)
qed

theorem fetch_queue_exact_witness:
  "sorted (map h_received_at (fst (fetch_queue (\<lambda>k. k) 1 True 1 7 ''tablet'' queue_example))) \<and>
   set (fst (fetch_queue (\<lambda>k. k) 1 True 1 7 ''tablet'' queue_example)) =
     direct_history ` {r \<in> set (offline_messages queue_example).
        om_to_uin r = 7 \<and> 0 < om_id r \<and> for_device 1 r} \<union>
     group_history ` {r \<in> set (offline_group_messages queue_example). og_to_uin r = 7 \<and> 0 < og_id r} \<and>
   device_mark (snd (fetch_queue (\<lambda>k. k) 1 True 1 7 ''tablet'' queue_example)) (7, ''tablet'') = Some (0, 0)"
proof (rule fetch_queue_exact [OF queue_example_wf])
  show "(0, 0) = (case find_cursor queue_example 7 ''tablet'' of
      Some c \<Rightarrow> cursor_marks c | None \<Rightarrow> account_watermark queue_example 7)" by code_simp
qed

lemma advance_mark:
  assumes "queue_wf s" and "drain_floor s u d = (bd, bg, cur)" and "bd \<le> md" "bg \<le> mg"
  shows "\<exists>c. find_cursor (snd (advance_cursor now u d md mg cur s)) u d = Some c \<and>
           cursor_marks c = (md, mg) \<and> c \<in> set (live_cursors now
             (snd (upsert_cursor now u d (md, mg) (case cur of None \<Rightarrow> account_watermark s u | Some c \<Rightarrow> (0, 0)) s)) u)"
proof -
  let ?seed = "case cur of None \<Rightarrow> account_watermark s u | Some c \<Rightarrow> (0, 0)"
  let ?s1 = "snd (upsert_cursor now u d (md, mg) ?seed s)"
  obtain c where c: "find_cursor ?s1 u d = Some c" "cursor_marks c = (md, mg)" "qc_updated_at c = Some now"
    using assms(2-4)
    by (auto simp: find_cursor_upsert drain_floor_def cursor_marks_def split: option.splits prod.splits)
  have stamp: "stamp_since now c" by (simp add: stamp_since_def c(3))
  have "find_cursor (snd (reap_below_min now u ?s1)) u d = Some c"
    by (rule find_cursor_reap [OF c(1) stamp]) simp
  moreover have "(case cur of None \<Rightarrow> find_cursor s u d | Some c \<Rightarrow> Some c) = cur"
    using assms(2) by (auto simp: drain_floor_def split: option.splits prod.splits)
  moreover have "c \<in> set (live_cursors now ?s1 u)"
    using find_cursor_account [OF c(1)] stamp_since_kept [OF stamp] by (simp add: live_cursors_def)
  ultimately show ?thesis using c(2) by (auto simp: advance_cursor_def Let_def)
qed

lemma advance_rows:
  assumes "queue_wf s" and "drain_floor s u d = (bd, bg, cur)" and "bd \<le> md" "bg \<le> mg"
  shows "r \<in> set (offline_messages s) \<Longrightarrow> om_to_uin r = u \<Longrightarrow> md < om_id r \<Longrightarrow>
           r \<in> set (offline_messages (snd (advance_cursor now u d md mg cur s)))"
    and "g \<in> set (offline_group_messages s) \<Longrightarrow> og_to_uin g = u \<Longrightarrow> mg < og_id g \<Longrightarrow>
           g \<in> set (offline_group_messages (snd (advance_cursor now u d md mg cur s)))"
proof -
  let ?seed = "case cur of None \<Rightarrow> account_watermark s u | Some c \<Rightarrow> (0, 0)"
  let ?s1 = "snd (upsert_cursor now u d (md, mg) ?seed s)"
  have adv: "snd (advance_cursor now u d md mg cur s) = snd (reap_below_min now u ?s1)"
    using assms(2) by (auto simp: advance_cursor_def Let_def drain_floor_def split: option.splits prod.splits)
  obtain c where "cursor_marks c = (md, mg)" "c \<in> set (live_cursors now ?s1 u)"
    using advance_mark [OF assms] by blast
  then show "r \<in> set (offline_messages s) \<Longrightarrow> om_to_uin r = u \<Longrightarrow> md < om_id r \<Longrightarrow>
           r \<in> set (offline_messages (snd (advance_cursor now u d md mg cur s)))"
    and "g \<in> set (offline_group_messages s) \<Longrightarrow> og_to_uin g = u \<Longrightarrow> mg < og_id g \<Longrightarrow>
           g \<in> set (offline_group_messages (snd (advance_cursor now u d md mg cur s)))"
    by (auto simp: adv reap_tables direct_reaped_iff group_reaped_iff cursor_marks_def dest!: bspec)
qed

text \<open>After an acknowledgement the device's floor is the acknowledged prefix of each axis.\<close>

lemma ack_floor:
  fixes ds gs :: "int list" and dev :: int
  assumes "queue_wf s" and "drain_floor s u d = (bd, bg, cur)"
  defines "md \<equiv> acked_prefix (direct_ids_above s u bd dev) bd ds"
    and "mg \<equiv> acked_prefix (group_ids_above s u bg) bg gs"
  shows "\<exists>c. drain_floor (snd (ack_queue now ds gs dev u d s)) u d = (md, mg, Some c)"
    and "r \<in> set (offline_messages s) \<Longrightarrow> om_to_uin r = u \<Longrightarrow> md < om_id r \<Longrightarrow>
           r \<in> set (offline_messages (snd (ack_queue now ds gs dev u d s)))"
    and "g \<in> set (offline_group_messages s) \<Longrightarrow> og_to_uin g = u \<Longrightarrow> mg < og_id g \<Longrightarrow>
           g \<in> set (offline_group_messages (snd (ack_queue now ds gs dev u d s)))"
proof -
  have ge: "bd \<le> md" "bg \<le> mg"
    by (auto simp: md_def mg_def direct_ids_above_def group_ids_above_def intro!: acked_prefix_ge)
  have ack: "ack_queue now ds gs dev u d s = advance_cursor now u d md mg cur s"
    by (simp add: ack_queue_def assms(2) Let_def md_def mg_def)
  from advance_mark [OF assms(1,2) ge, of now]
  show "\<exists>c. drain_floor (snd (ack_queue now ds gs dev u d s)) u d = (md, mg, Some c)"
    by (auto simp: ack drain_floor_def cursor_marks_def)
  from advance_rows [OF assms(1,2) ge, of _ now]
  show "r \<in> set (offline_messages s) \<Longrightarrow> om_to_uin r = u \<Longrightarrow> md < om_id r \<Longrightarrow>
           r \<in> set (offline_messages (snd (ack_queue now ds gs dev u d s)))"
    and "g \<in> set (offline_group_messages s) \<Longrightarrow> og_to_uin g = u \<Longrightarrow> mg < og_id g \<Longrightarrow>
           g \<in> set (offline_group_messages (snd (ack_queue now ds gs dev u d s)))"
    by (simp_all add: ack)
qed

lemma fetch_frame:
  "offline_messages (snd (fetch_queue bucket now True dev u d s)) = offline_messages s"
  "offline_group_messages (snd (fetch_queue bucket now True dev u d s)) = offline_group_messages s"
  by (auto simp: fetch_queue_def Let_def split_beta pin_floor_def split: prod.splits option.splits)

lemma fetch_floor:
  assumes "queue_wf s" and "drain_floor s u d = (a, b, cur)"
  shows "\<exists>c. drain_floor (snd (fetch_queue bucket now True dev u d s)) u d = (a, b, Some c)"
  using fetch_pins [OF assms, of bucket now dev]
  by (auto simp: device_mark_def drain_floor_def cursor_marks_def)

definition served :: "island \<Rightarrow> uin \<Rightarrow> int \<Rightarrow> int \<Rightarrow> int \<Rightarrow> history_row set" where
  "served s u dev a b =
     direct_history ` {r \<in> set (offline_messages s). om_to_uin r = u \<and> a < om_id r \<and> for_device dev r} \<union>
     group_history ` {r \<in> set (offline_group_messages s). og_to_uin r = u \<and> b < og_id r}"

lemma served_cases:
  assumes "h \<in> served s u dev a b"
  obtains r where "h = direct_history r" "r \<in> set (offline_messages s)" "om_to_uin r = u"
      "a < om_id r" "for_device dev r"
    | r where "h = group_history r" "r \<in> set (offline_group_messages s)" "og_to_uin r = u" "b < og_id r"
  using assms by (auto simp: served_def)

text \<open>A drain followed by an acknowledgement: the two floors and the rows between them.\<close>

lemma fetch_then_ack:
  assumes "queue_wf s" and "fetch_queue bucket now True dev u d s = (rows, s1)"
  obtains a b c where "queue_wf s1" "drain_floor s1 u d = (a, b, Some c)" "set rows = served s1 u dev a b"
    "\<And>now'' s2. s2 = snd (ack_queue now' ds gs dev u d s1) \<Longrightarrow>
       set (fst (fetch_queue bucket now'' True dev u d s2)) =
         served s2 u dev (acked_prefix (direct_ids_above s1 u a dev) a ds)
           (acked_prefix (group_ids_above s1 u b) b gs)"
proof -
  obtain a b cur where fl: "drain_floor s u d = (a, b, cur)" by (cases "drain_floor s u d")
  have s1: "s1 = snd (fetch_queue bucket now True dev u d s)" by (simp add: assms(2))
  have wf1: "queue_wf s1" unfolding s1 by (rule queue_wf_fetch [OF assms(1)])
  obtain c where fl1: "drain_floor s1 u d = (a, b, Some c)"
    using fetch_floor [OF assms(1) fl] unfolding s1 by blast
  have frame: "offline_messages s1 = offline_messages s"
      "offline_group_messages s1 = offline_group_messages s"
    unfolding s1 by (rule fetch_frame)+
  have rows: "set rows = served s1 u dev a b"
    using fetch_set [OF assms(1) fl, of bucket now True dev]
    by (simp add: assms(2) served_def frame)
  have "set (fst (fetch_queue bucket now'' True dev u d s2)) =
      served s2 u dev (acked_prefix (direct_ids_above s1 u a dev) a ds)
        (acked_prefix (group_ids_above s1 u b) b gs)"
    if s2: "s2 = snd (ack_queue now' ds gs dev u d s1)" for now'' s2
  proof -
    have wf2: "queue_wf s2" unfolding s2 by (rule queue_wf_ack [OF wf1])
    obtain c' where "drain_floor s2 u d = (acked_prefix (direct_ids_above s1 u a dev) a ds,
        acked_prefix (group_ids_above s1 u b) b gs, Some c')"
      using ack_floor(1) [OF wf1 fl1, of now' ds gs dev] unfolding s2 by blast
    from fetch_set [OF wf2 this] show ?thesis by (simp only: served_def)
  qed
  with wf1 fl1 rows show thesis by (rule that)
qed

text \<open>
  C3. An acknowledgement never buries what it did not name. Of the rows a drain handed out, every
  one the device leaves out of its acknowledgement is handed out again by its next drain, on
  both axes, whatever subset was acknowledged.
\<close>

theorem ack_keeps_unacked:
  assumes "queue_wf s"
    and "fetch_queue bucket now True dev u d s = (rows, s1)"
    and "h \<in> set rows"
    and "if h_group_id h = None then h_id h \<notin> set ds else h_id h \<notin> set gs"
  shows "h \<in> set (fst (fetch_queue bucket now'' True dev u d (snd (ack_queue now' ds gs dev u d s1))))"
proof (rule fetch_then_ack [OF assms(1,2), of now' ds gs])
  fix a b c
  let ?md = "acked_prefix (direct_ids_above s1 u a dev) a ds"
  let ?mg = "acked_prefix (group_ids_above s1 u b) b gs"
  assume wf1: "queue_wf s1" and fl1: "drain_floor s1 u d = (a, b, Some c)"
    and rows: "set rows = served s1 u dev a b"
    and again: "\<And>now'' s2. s2 = snd (ack_queue now' ds gs dev u d s1) \<Longrightarrow>
       set (fst (fetch_queue bucket now'' True dev u d s2)) = served s2 u dev ?md ?mg"
  note kept = ack_floor(2,3) [OF wf1 fl1, where dev = dev and ds = ds and gs = gs and now = now']
  from assms(3) have "h \<in> served s1 u dev a b" by (simp only: rows)
  then have "h \<in> served (snd (ack_queue now' ds gs dev u d s1)) u dev ?md ?mg"
  proof (cases rule: served_cases)
    case (1 r)
    then have "?md < om_id r" using assms(4)
      by (intro acked_prefix_stops) (auto simp: direct_ids_above_def direct_history_def)
    with 1 kept(1) show ?thesis unfolding served_def by blast
  next
    case (2 r)
    then have "?mg < og_id r" using assms(4)
      by (intro acked_prefix_stops) (auto simp: group_ids_above_def group_history_def)
    with 2 kept(2) show ?thesis unfolding served_def by blast
  qed
  then show ?thesis by (simp only: again [OF refl])
qed

definition two_waiting :: island where
  "two_waiting = queue_run (\<lambda>k. k) [(1, Deposit 7 ''message'' 1 ''a'' None),
     (2, Deposit 7 ''message'' 1 ''b'' None)] empty_island"

lemma two_waiting_wf: "queue_wf two_waiting"
  unfolding two_waiting_def by (intro queue_wf_run queue_wf_empty)

theorem ack_keeps_unacked_witness:
  "\<lparr>h_id = 1, h_envelope_type = ''message'', h_cls = 1, h_seq = Some 1, h_payload = ''a'',
     h_received_at = 1, h_group_id = None, h_to_device_id = None\<rparr> \<in>
   set (fst (fetch_queue (\<lambda>k. k) 5 True 1 7 ''phone'' (snd (ack_queue 4 [2] [] 1 7 ''phone''
     (snd (fetch_queue (\<lambda>k. k) 3 True 1 7 ''phone'' two_waiting))))))"
proof (rule ack_keeps_unacked [OF two_waiting_wf])
  show "fetch_queue (\<lambda>k. k) 3 True 1 7 ''phone'' two_waiting =
      (fst (fetch_queue (\<lambda>k. k) 3 True 1 7 ''phone'' two_waiting),
       snd (fetch_queue (\<lambda>k. k) 3 True 1 7 ''phone'' two_waiting))" by simp
  show "\<lparr>h_id = 1, h_envelope_type = ''message'', h_cls = 1, h_seq = Some 1, h_payload = ''a'',
     h_received_at = 1, h_group_id = None, h_to_device_id = None\<rparr> \<in>
      set (fst (fetch_queue (\<lambda>k. k) 3 True 1 7 ''phone'' two_waiting))" by code_simp
qed simp

text \<open>
  Acknowledging everything a drain handed out empties the queue for that device: with no new
  deposit in between, its next drain answers nothing, so nothing acknowledged is served twice.
\<close>

theorem ack_all_drains:
  assumes "queue_wf s"
    and "fetch_queue bucket now True dev u d s = (rows, s1)"
    and "\<forall>h \<in> set rows. if h_group_id h = None then h_id h \<in> set ds else h_id h \<in> set gs"
  shows "fst (fetch_queue bucket now'' True dev u d (snd (ack_queue now' ds gs dev u d s1))) = []"
proof (rule fetch_then_ack [OF assms(1,2), of now' ds gs])
  fix a b c
  let ?s2 = "snd (ack_queue now' ds gs dev u d s1)"
  let ?md = "acked_prefix (direct_ids_above s1 u a dev) a ds"
  let ?mg = "acked_prefix (group_ids_above s1 u b) b gs"
  assume rows: "set rows = served s1 u dev a b"
    and again: "\<And>now'' s2. s2 = ?s2 \<Longrightarrow>
       set (fst (fetch_queue bucket now'' True dev u d s2)) = served s2 u dev ?md ?mg"
  have acked: "\<forall>h \<in> served s1 u dev a b. if h_group_id h = None then h_id h \<in> set ds else h_id h \<in> set gs"
    using assms(3) unfolding rows .
  have ids: "set (direct_ids_above s1 u a dev) \<subseteq> set ds" "set (group_ids_above s1 u b) \<subseteq> set gs"
    using acked by (auto simp: served_def ball_Un direct_ids_above_def direct_history_def
        group_ids_above_def group_history_def)
  have md: "om_id r \<le> ?md" if "r \<in> set (offline_messages s1)" "om_to_uin r = u" "a < om_id r" "for_device dev r" for r
    using that ids(1) by (intro acked_prefix_all) (auto simp: direct_ids_above_def)
  have mg: "og_id r \<le> ?mg" if "r \<in> set (offline_group_messages s1)" "og_to_uin r = u" "b < og_id r" for r
    using that ids(2) by (intro acked_prefix_all) (auto simp: group_ids_above_def)
  have ge: "a \<le> ?md" "b \<le> ?mg"
    by (auto simp: direct_ids_above_def group_ids_above_def intro!: acked_prefix_ge)
  have sub: "set (offline_messages ?s2) \<subseteq> set (offline_messages s1)"
      "set (offline_group_messages ?s2) \<subseteq> set (offline_group_messages s1)"
    by (auto simp: ack_queue_def advance_cursor_def Let_def split_beta reap_tables)
  have "h \<notin> served ?s2 u dev ?md ?mg" for h
  proof
    assume "h \<in> served ?s2 u dev ?md ?mg"
    then show False
    proof (cases rule: served_cases)
      case (1 r)
      with sub(1) have "r \<in> set (offline_messages s1)" by blast
      with 1 md [of r] ge(1) show False by linarith
    next
      case (2 r)
      with sub(2) have "r \<in> set (offline_group_messages s1)" by blast
      with 2 mg [of r] ge(2) show False by linarith
    qed
  qed
  then have "set (fst (fetch_queue bucket now'' True dev u d ?s2)) = {}"
    unfolding again [OF refl] by blast
  then show ?thesis by simp
qed

theorem ack_all_drains_witness:
  "fst (fetch_queue (\<lambda>k. k) 5 True 1 7 ''phone'' (snd (ack_queue 4 [1, 2] [] 1 7 ''phone''
     (snd (fetch_queue (\<lambda>k. k) 3 True 1 7 ''phone'' two_waiting))))) = []"
proof (rule ack_all_drains [OF two_waiting_wf])
  show "fetch_queue (\<lambda>k. k) 3 True 1 7 ''phone'' two_waiting =
      (fst (fetch_queue (\<lambda>k. k) 3 True 1 7 ''phone'' two_waiting),
       snd (fetch_queue (\<lambda>k. k) 3 True 1 7 ''phone'' two_waiting))" by simp
  show "\<forall>h \<in> set (fst (fetch_queue (\<lambda>k. k) 3 True 1 7 ''phone'' two_waiting)).
      if h_group_id h = None then h_id h \<in> set [1, 2] else h_id h \<in> set []" by code_simp
qed

section \<open>Deletion, races and counters\<close>

text \<open>
  The reaper never deletes a row under an install that still reads. A row it deletes was
  passed by every cursor of the account except those it dropped, and a dropped cursor was last
  stamped more than thirty days ago, or more than seven days ago while a sibling of the account
  was stamped within the last seven.
\<close>

theorem reap_only_drained:
  assumes "r \<in> set (offline_messages s)" and "r \<notin> set (offline_messages (snd (reap_below_min now u s)))"
    and "c \<in> set (queue_cursors s)" and "qc_uin c = u"
  shows "om_to_uin r = u \<and>
     (om_id r \<le> qc_last_direct_id c \<or>
      (\<exists>ts. qc_updated_at c = Some ts \<and>
        (ts < now - days 30 \<or>
         ts < now - days 7 \<and>
         (\<exists>c' \<in> set (queue_cursors s). \<exists>ts'. qc_uin c' = u \<and>
            qc_updated_at c' = Some ts' \<and> now - days 7 \<le> ts'))))"
proof -
  have reaped: "direct_reaped now u s r" using assms(1,2) by (simp add: reap_tables)
  then have mine: "om_to_uin r = u" by (simp add: direct_reaped_def)
  have c: "c \<in> set (account_cursors s u)" using assms(3,4) by (simp add: account_cursors_def)
  have passed: "om_id r \<le> qc_last_direct_id c" if "\<not> drop_cursor now (account_cursors s u) c"
    using reaped that c by (auto simp: direct_reaped_iff live_cursors_def)
  have sibling: "\<exists>c' \<in> set (queue_cursors s). \<exists>ts'. qc_uin c' = u \<and>
      qc_updated_at c' = Some ts' \<and> now - days 7 \<le> ts'"
    if fresh: "fresh_sibling now (account_cursors s u)"
  proof -
    let ?stamps = "List.map_filter qc_updated_at (account_cursors s u)"
    from fresh have "Max (set ?stamps) \<in> set ?stamps" "now - days 7 \<le> Max (set ?stamps)"
      by (auto simp: fresh_sibling_def Let_def superseded_cursor_days_def)
    then show ?thesis
      by (auto simp: account_cursors_def List.map_filter_def)
  qed
  show ?thesis
  proof (cases "drop_cursor now (account_cursors s u) c")
    case True
    with mine sibling show ?thesis
      by (auto simp: drop_cursor_def stale_cursor_days_def superseded_cursor_days_def split: option.splits)
  next
    case False
    with mine passed show ?thesis by blast
  qed
qed

theorem reap_only_drained_witness:
  "om_id (hd (offline_messages two_waiting)) = 1 \<and>
   (let s = snd (upsert_cursor 5 7 ''phone'' (1, 0) (0, 0) two_waiting);
        c = \<lparr>qc_uin = 7, qc_device_id = ''phone'', qc_last_direct_id = 1, qc_last_group_id = 0,
              qc_updated_at = Some 5\<rparr>
    in om_id (hd (offline_messages s)) \<le> qc_last_direct_id c)"
proof -
  let ?s = "snd (upsert_cursor 5 7 ''phone'' (1, 0) (0, 0) two_waiting)"
  let ?c = "\<lparr>qc_uin = 7, qc_device_id = ''phone'', qc_last_direct_id = 1, qc_last_group_id = 0,
     qc_updated_at = Some 5\<rparr>"
  let ?r = "hd (offline_messages ?s)"
  have "?r \<in> set (offline_messages ?s)" by code_simp
  moreover have "?r \<notin> set (offline_messages (snd (reap_below_min 5 7 ?s)))" by code_simp
  moreover have "?c \<in> set (queue_cursors ?s)" by code_simp
  ultimately have "om_id ?r \<le> qc_last_direct_id ?c"
    using reap_only_drained [of ?r ?s 5 7 ?c] by simp
  moreover have "om_id (hd (offline_messages two_waiting)) = 1" by code_simp
  ultimately show ?thesis by (simp add: Let_def)
qed

text \<open>
  Overlapping acknowledgements commute. Whatever order the upserts of a batch of requests
  reach the table in, every device of every account ends at the same marks, and none of them is
  behind a mark it held before.
\<close>

theorem cursor_upserts_commute:
  assumes "mset (map snd acks) = mset (map snd acks')"
  shows "device_mark (queue_marks.ack_all s acks) = device_mark (queue_marks.ack_all s acks') \<and>
         (\<forall>k v t m sd. device_mark s k = Some v \<longrightarrow>
            (\<exists>v'. device_mark (raise_cursor t s k m sd) k = Some v' \<and> v \<le> v'))"
  using queue_marks.ack_all_order [OF assms] queue_marks.upsert_forward by blast

theorem cursor_upserts_commute_witness:
  "device_mark (queue_marks.ack_all two_waiting [(1, (7, ''phone''), (2, 0)), (2, (7, ''phone''), (1, 4))]) =
     device_mark (queue_marks.ack_all two_waiting [(3, (7, ''phone''), (1, 4)), (4, (7, ''phone''), (2, 0))])"
  using cursor_upserts_commute [of "[(1, (7, ''phone''), (2, 0)), (2, (7, ''phone''), (1, 4))]"
      "[(3, (7, ''phone''), (1, 4)), (4, (7, ''phone''), (2, 0))]" two_waiting]
  by simp

text \<open>
  Every state of the queue any sequence of deposits, drains, acknowledgements and sweeps can
  reach is well formed: primary keys and (uin, device) keys are unique, every mark lies within
  the numbers already handed out, so no deposit ever lands below a cursor, and the pair
  (to_uin, seq) is unique, so the index behind it never refuses a deposit.
\<close>

theorem queue_always_well_formed:
  assumes "reachable ((=) empty_island) (queue_moves bucket) s"
  shows "queue_wf s"
  using assms by (rule queue_life.reachable_inv)

theorem queue_always_well_formed_witness:
  "queue_wf (queue_step (\<lambda>k. k) 1 (Deposit 7 ''message'' 1 ''a'' None) empty_island)"
  by (rule queue_always_well_formed [of "\<lambda>k. k"], rule reachable.next_state, rule reachable.start, rule refl)
     (unfold queue_moves_def, blast)

text \<open>
  The mailbox counter. The sequences any run of allocations hands to one mailbox are the next
  consecutive numbers in order, whatever the other mailboxes were handed in between, and no
  (mailbox, sequence) pair is handed out twice.
\<close>

theorem mailbox_sequences_consecutive:
  "map snd (filter (\<lambda>p. fst p = u) (fst (mailbox.take_run s us))) =
     [mailbox_issued s u + 1 .. mailbox_issued s u + int (count_list us u)] \<and>
   distinct (fst (mailbox.take_run s us))"
  by (simp add: mailbox.take_run_consecutive mailbox.take_run_distinct)


section \<open>Retention\<close>

lemma delete_limit_keeps: "r \<in> set rows \<Longrightarrow> \<not> P r \<Longrightarrow> r \<in> set (snd (delete_limit n P rows))"
  by (induction n P rows rule: delete_limit.induct) (auto simp: split_beta)

lemma sweep_dormant_keeps:
  assumes "r \<in> set (offline_group_messages s)" and "\<not> dormant_candidate s cutoff r"
  shows "r \<in> set (offline_group_messages (snd (sweep_dormant cutoff n s)))"
  using assms
proof (induction cutoff n s rule: sweep_dormant.induct)
  case (1 cutoff n s)
  obtain k rest where dl: "delete_limit dormant_batch (dormant_candidate s cutoff)
      (offline_group_messages s) = (k, rest)" by fastforce
  let ?s' = "s\<lparr>offline_group_messages := rest\<rparr>"
  have "r \<in> set rest"
    using delete_limit_keeps [where P = "dormant_candidate s cutoff", OF "1.prems"] by (metis dl snd_conv)
  moreover have "\<not> dormant_candidate ?s' cutoff r"
    using "1.prems"(2) by (simp add: dormant_candidate_def find_user_def)
  ultimately show ?case
    using "1.IH" [OF _ dl [symmetric] refl] "1.prems"(1)
    by (subst sweep_dormant.simps) (auto simp: dl Let_def)
qed

text \<open>
  Sender-key material outlives the dormant rule. A queued group row of class 2, or of type
  skdm whatever its class, survives a sweep however long its recipient has been away, as long as
  it is inside the general retention window and is not an expired recovery request.
\<close>

theorem sweep_spares_sender_keys:
  assumes "r \<in> set (offline_group_messages s)"
    and "og_cls r = Some 2 \<or> og_envelope_type r = ''skdm''"
    and "now \<le> og_received_at r + days (ttl_days cfg)"
    and "og_envelope_type r = ''sknack'' \<Longrightarrow> now \<le> og_received_at r + seconds (sknack_ttl cfg)"
  shows "r \<in> set (offline_group_messages (sweep_once cfg now s))"
proof -
  have "r \<in> set (offline_group_messages (sweep_queues cfg now s))"
    using assms by (auto simp: sweep_queues_def Let_def)
  moreover have "\<not> dormant_candidate s' cutoff r" for s' cutoff
    using assms(2) by (auto simp: dormant_candidate_def)
  ultimately show ?thesis
    by (simp add: sweep_once_def Let_def sweep_logs_def sweep_dormant_keeps split: option.splits)
qed

theorem sweep_spares_sender_keys_witness:
  "let s = store_group_copy 0 9 1 ''skdm'' 2 ''k'' empty_island;
       r = hd (offline_group_messages s)
   in r \<in> set (offline_group_messages (sweep_once default_sweep (days 29) s))"
proof -
  let ?s = "store_group_copy 0 9 1 ''skdm'' 2 ''k'' empty_island"
  let ?r = "hd (offline_group_messages ?s)"
  have "?r \<in> set (offline_group_messages (sweep_once default_sweep (days 29) ?s))"
    by (rule sweep_spares_sender_keys)
       (simp_all add: store_group_copy_def empty_island_def default_sweep_def)
  then show ?thesis by (simp add: Let_def)
qed

end
