(* ===== verification/Group_Log.thy ===== *)
theory Group_Log
  imports Offline_Queue
begin

text \<open>
  The room log (stage 5): \<open>app/services/group_log.py\<close> and the reading half of
  \<open>app/routers/messages.py\<close> : the durable room counters, the reader marks, the per-device room
  cursors, the fair page and the two routes. Dictionaries keyed by room that keep insertion
  order (\<open>starts\<close>, \<open>picked\<close>) are association lists.
\<close>

section \<open>Room counters\<close>

definition room_head :: "island \<Rightarrow> int \<Rightarrow> int" where
  "room_head s gid = (case group_seq s gid of None \<Rightarrow> 0 | Some n \<Rightarrow> n)"

definition next_group_seq :: "island \<Rightarrow> int \<Rightarrow> int \<times> island" where
  "next_group_seq s gid =
     (let n = (case group_seq s gid of None \<Rightarrow> 1 | Some k \<Rightarrow> k + 1)
      in (n, s\<lparr>group_seq := (group_seq s)(gid \<mapsto> n)\<rparr>))"

definition next_group_seqs :: "island \<Rightarrow> int \<Rightarrow> int \<Rightarrow> int list \<times> island" where
  "next_group_seqs s gid n =
     (if n \<le> 0 then ([], s)
      else
        let last' = (case group_seq s gid of None \<Rightarrow> n | Some k \<Rightarrow> k + n)
        in ([last' - n + 1 .. last'], s\<lparr>group_seq := (group_seq s)(gid \<mapsto> last')\<rparr>))"

interpretation room_seq: block_counter room_head next_group_seq next_group_seqs
  by unfold_locales
     (auto simp: room_head_def next_group_seq_def next_group_seqs_def Let_def max_def split: option.splits)

section \<open>Readers\<close>

definition has_reader :: "island \<Rightarrow> uin \<Rightarrow> bool" where
  "has_reader s u = list_ex (\<lambda>r. lr_uin r = u) (group_log_readers s)"

definition reads_log :: "island \<Rightarrow> uin \<Rightarrow> device \<Rightarrow> bool" where
  "reads_log s u d = list_ex (\<lambda>r. lr_uin r = u \<and> lr_device_id r = d) (group_log_readers s)"

definition blocked_by_legacy :: "island \<Rightarrow> uin \<Rightarrow> bool" where
  "blocked_by_legacy s u =
     list_ex (\<lambda>c. qc_uin c = u \<and> \<not> reads_log s u (qc_device_id c)) (queue_cursors s)"

definition log_readers :: "island \<Rightarrow> uin list \<Rightarrow> uin list" where
  "log_readers s uins = filter (\<lambda>u. has_reader s u \<and> \<not> blocked_by_legacy s u) (remdups uins)"

definition mark_reader :: "datetime \<Rightarrow> uin \<Rightarrow> device \<Rightarrow> island \<Rightarrow> island" where
  "mark_reader now u d s = s\<lparr>group_log_readers :=
     upsert_row (\<lambda>r. lr_uin r = u \<and> lr_device_id r = d)
       \<lparr>lr_uin = u, lr_device_id = d, lr_first_seen = now, lr_last_seen = now\<rparr>
       (\<lambda>r. r\<lparr>lr_last_seen := now\<rparr>) (group_log_readers s)\<rparr>"

section \<open>Room cursors\<close>

definition is_log_cursor :: "int \<Rightarrow> uin \<Rightarrow> device \<Rightarrow> group_log_cursor \<Rightarrow> bool" where
  "is_log_cursor gid u d c \<longleftrightarrow> lc_group_id c = gid \<and> lc_uin c = u \<and> lc_device_id c = d"

definition find_log_cursor :: "island \<Rightarrow> int \<Rightarrow> uin \<Rightarrow> device \<Rightarrow> group_log_cursor option" where
  "find_log_cursor s gid u d = get_row (is_log_cursor gid u d) (group_log_cursors s)"

definition upsert_log_cursor ::
  "datetime \<Rightarrow> int \<Rightarrow> uin \<Rightarrow> device \<Rightarrow> int \<Rightarrow> int \<Rightarrow> island \<Rightarrow> int \<times> island" where
  "upsert_log_cursor now gid u d sq seed s =
     (let s' = s\<lparr>group_log_cursors := upsert_row (is_log_cursor gid u d)
            \<lparr>lc_group_id = gid, lc_uin = u, lc_device_id = d, lc_last_seq = max sq seed,
              lc_updated_at = now\<rparr>
            (\<lambda>c. c\<lparr>lc_last_seq := max (lc_last_seq c) sq,
                  lc_updated_at := if lc_last_seq c < sq then now else lc_updated_at c\<rparr>)
            (group_log_cursors s)\<rparr>
      in (case find_log_cursor s' gid u d of None \<Rightarrow> 0 | Some c \<Rightarrow> lc_last_seq c, s'))"

definition seed_cursors_on_join :: "datetime \<Rightarrow> int \<Rightarrow> uin \<Rightarrow> island \<Rightarrow> island" where
  "seed_cursors_on_join now gid u s =
     (let devices = map lr_device_id (filter (\<lambda>r. lr_uin r = u) (group_log_readers s));
          head = room_head s gid
      in fold (\<lambda>d s. snd (upsert_log_cursor now gid u d 0 head s)) devices s)"

section \<open>The fair page\<close>

definition group_log_page_bytes :: nat where
  "group_log_page_bytes = 128 * 1024"

definition group_log_room_chunk_min :: nat where
  "group_log_room_chunk_min = 8"

definition group_log_room_chunk_max :: nat where
  "group_log_room_chunk_max = 128"

text \<open>The rows of a room a member may read above a sequence, oldest first.\<close>

definition room_stream :: "island \<Rightarrow> uin \<Rightarrow> int \<Rightarrow> int \<Rightarrow> group_log_row list" where
  "room_stream s u gid after = sort_key gl_seq
     (filter (\<lambda>r. gl_group_id r = gid \<and> after < gl_seq r \<and> (gl_to_uin r = None \<or> gl_to_uin r = Some u))
       (group_log s))"

definition row_size :: "group_log_row \<Rightarrow> nat" where
  "row_size r = length (gl_payload r)"

text \<open>The local variables of the loop; a turn is (bytes given, position in the order, room).\<close>

type_synonym turn = "nat \<times> nat \<times> int"

record page_state =
  pg_buf :: "int \<Rightarrow> group_log_row list"
  pg_read_to :: "int \<Rightarrow> int"
  pg_unread :: "int \<Rightarrow> bool"
  pg_picked :: "int \<Rightarrow> group_log_row list"
  pg_given :: "int \<Rightarrow> nat"
  pg_turns :: "turn list"
  pg_rows_left :: nat
  pg_bytes_left :: nat
  pg_too_big :: "int list"
  pg_stretched :: bool

fun turn_le :: "turn \<Rightarrow> turn \<Rightarrow> bool" where
  "turn_le (a, i, g) (b, j, h) \<longleftrightarrow> a < b \<or> a = b \<and> (i < j \<or> i = j \<and> g \<le> h)"

fun min_turn :: "turn \<Rightarrow> turn list \<Rightarrow> turn" where
  "min_turn t [] = t"
| "min_turn t (x # xs) = min_turn (if turn_le x t then x else t) xs"

definition heappop :: "turn list \<Rightarrow> turn \<times> turn list" where
  "heappop ts = (let t = min_turn (hd ts) (tl ts) in (t, remove1 t ts))"

definition read_room :: "island \<Rightarrow> uin \<Rightarrow> nat \<Rightarrow> int \<Rightarrow> page_state \<Rightarrow> page_state" where
  "read_room s u chunk gid st =
     (if pg_buf st gid = [] \<and> pg_unread st gid then
        let got = take chunk (room_stream s u gid (pg_read_to st gid))
        in st\<lparr>pg_buf := (pg_buf st)(gid := got),
              pg_read_to := (if got = [] then pg_read_to st
                             else (pg_read_to st)(gid := gl_seq (last got))),
              pg_unread := (pg_unread st)(gid := length got = chunk)\<rparr>
      else st)"

definition pick_row :: "nat \<Rightarrow> int \<Rightarrow> page_state \<Rightarrow> page_state" where
  "pick_row i gid st =
     (let size = row_size (hd (pg_buf st gid))
      in st\<lparr>pg_picked := (pg_picked st)(gid := pg_picked st gid @ [hd (pg_buf st gid)]),
            pg_buf := (pg_buf st)(gid := tl (pg_buf st gid)),
            pg_given := (pg_given st)(gid := pg_given st gid + size),
            pg_rows_left := pg_rows_left st - 1,
            pg_turns := (pg_given st gid + size, i, gid) # pg_turns st\<rparr>)"

definition fair_turn :: "island \<Rightarrow> uin \<Rightarrow> nat \<Rightarrow> page_state \<Rightarrow> page_state" where
  "fair_turn s u chunk st0 =
     (case heappop (pg_turns st0) of ((_, i, gid), rest) \<Rightarrow>
        let st = read_room s u chunk gid (st0\<lparr>pg_turns := rest\<rparr>)
        in if pg_buf st gid = [] then st
           else
             let size = row_size (hd (pg_buf st gid))
             in if pg_bytes_left st < size then
                  if 0 < pg_given st gid \<or> pg_stretched st \<or> group_log_page_bytes < size
                  then st\<lparr>pg_too_big := pg_too_big st @ [gid]\<rparr>
                  else pick_row i gid (st\<lparr>pg_stretched := True\<rparr>)
                else pick_row i gid (st\<lparr>pg_bytes_left := pg_bytes_left st - size\<rparr>))"

lemma min_turn_in: "min_turn t ts \<in> insert t (set ts)"
  by (induction t ts rule: min_turn.induct) auto

lemma heappop_length:
  assumes "heappop ts = (t, rest)" and "ts \<noteq> []"
  shows "Suc (length rest) = length ts" "t \<in> set ts" "set rest \<subseteq> set ts"
proof -
  obtain x xs where ts: "ts = x # xs" using assms(2) by (cases ts) auto
  then show t: "t \<in> set ts" using assms(1) min_turn_in [of x xs] by (auto simp: heappop_def Let_def)
  have rest: "rest = remove1 t ts" using assms(1) by (auto simp: heappop_def Let_def)
  show "Suc (length rest) = length ts" unfolding rest length_remove1
    using t length_pos_if_in_set [OF t] by simp
  show "set rest \<subseteq> set ts" unfolding rest by (rule set_remove1_subset)
qed

lemma read_room_frame [simp]:
  "pg_turns (read_room s u chunk gid st) = pg_turns st"
  "pg_rows_left (read_room s u chunk gid st) = pg_rows_left st"
  "pg_bytes_left (read_room s u chunk gid st) = pg_bytes_left st"
  "pg_picked (read_room s u chunk gid st) = pg_picked st"
  "pg_given (read_room s u chunk gid st) = pg_given st"
  "pg_too_big (read_room s u chunk gid st) = pg_too_big st"
  "pg_stretched (read_room s u chunk gid st) = pg_stretched st"
  by (simp_all add: read_room_def Let_def)

lemma fair_turn_decreases:
  assumes "pg_turns st \<noteq> []" and "0 < pg_rows_left st"
  shows "pg_rows_left (fair_turn s u chunk st) + length (pg_turns (fair_turn s u chunk st))
           < pg_rows_left st + length (pg_turns st)"
proof -
  obtain a i gid rest where pop: "heappop (pg_turns st) = ((a, i, gid), rest)"
    by (metis surj_pair)
  from heappop_length(1) [OF pop assms(1)] assms(2) show ?thesis
    by (simp add: fair_turn_def pop pick_row_def Let_def)
qed

function fair_loop :: "island \<Rightarrow> uin \<Rightarrow> nat \<Rightarrow> page_state \<Rightarrow> page_state" where
  "fair_loop s u chunk st =
     (if pg_turns st \<noteq> [] \<and> 0 < pg_rows_left st then fair_loop s u chunk (fair_turn s u chunk st)
      else st)"
  by pat_completeness auto
termination
  by (relation "measure (\<lambda>(s, u, chunk, st). pg_rows_left st + length (pg_turns st))")
     (auto simp: fair_turn_decreases)

declare fair_loop.simps [simp del]

definition page_chunk :: "nat \<Rightarrow> nat \<Rightarrow> nat" where
  "page_chunk limit rooms =
     min limit (max group_log_room_chunk_min
       ((min limit group_log_room_chunk_max + rooms - 1) div rooms))"

definition page_start :: "(int \<times> int) list \<Rightarrow> nat \<Rightarrow> page_state" where
  "page_start starts limit =
     \<lparr>pg_buf = (\<lambda>_. []), pg_read_to = (\<lambda>g. case map_of starts g of None \<Rightarrow> 0 | Some a \<Rightarrow> a),
       pg_unread = (\<lambda>_. True), pg_picked = (\<lambda>_. []), pg_given = (\<lambda>_. 0),
       pg_turns = map (\<lambda>(i, gid, _). (0, i, gid)) (List.enumerate 0 starts),
       pg_rows_left = limit, pg_bytes_left = group_log_page_bytes, pg_too_big = [],
       pg_stretched = False\<rparr>"

definition gids :: "(int \<times> int) list \<Rightarrow> int list" where
  "gids starts = map fst starts"

fun index_of :: "int \<Rightarrow> int list \<Rightarrow> nat" where
  "index_of g [] = 0"
| "index_of g (h # hs) = (if g = h then 0 else Suc (index_of g hs))"

definition alone_le :: "(int \<times> int) list \<Rightarrow> page_state \<Rightarrow> int \<Rightarrow> int \<Rightarrow> bool" where
  "alone_le starts st g h =
     (let a = row_size (hd (pg_buf st g)); b = row_size (hd (pg_buf st h))
      in a < b \<or> a = b \<and> index_of g (gids starts) \<le> index_of h (gids starts))"

fun alone_min :: "(int \<times> int) list \<Rightarrow> page_state \<Rightarrow> int \<Rightarrow> int list \<Rightarrow> int" where
  "alone_min starts st g [] = g"
| "alone_min starts st g (h # hs) =
     alone_min starts st (if alone_le starts st g h then g else h) hs"

text \<open>A page that would be empty takes the smallest of the rows that are too big, alone.\<close>

definition serve_alone :: "(int \<times> int) list \<Rightarrow> page_state \<Rightarrow> page_state" where
  "serve_alone starts st =
     (if pg_too_big st \<noteq> [] \<and> list_all (\<lambda>g. pg_picked st g = []) (gids starts) then
        let gid = alone_min starts st (hd (pg_too_big st)) (tl (pg_too_big st))
        in st\<lparr>pg_picked := (pg_picked st)(gid := pg_picked st gid @ [hd (pg_buf st gid)]),
              pg_buf := (pg_buf st)(gid := tl (pg_buf st gid))\<rparr>
      else st)"

definition fair_log_page ::
  "island \<Rightarrow> uin \<Rightarrow> (int \<times> int) list \<Rightarrow> nat \<Rightarrow> (int \<times> group_log_row list) list \<times> bool" where
  "fair_log_page s u starts limit =
     (if starts = [] then ([], False)
      else
        let st = serve_alone starts
                   (fair_loop s u (page_chunk limit (length starts)) (page_start starts limit))
        in (map (\<lambda>g. (g, pg_picked st g)) (gids starts),
            list_ex (\<lambda>g. pg_buf st g \<noteq> [] \<or> pg_unread st g) (gids starts)))"

section \<open>The room-log routes\<close>

record log_answer_row =
  la_gid :: int
  la_seq :: int
  la_envelope_type :: string
  la_cls :: int
  la_payload :: string
  la_received_at :: datetime

definition answer_row :: "int \<Rightarrow> group_log_row \<Rightarrow> log_answer_row" where
  "answer_row gid r = \<lparr>la_gid = gid, la_seq = gl_seq r, la_envelope_type = gl_envelope_type r,
     la_cls = gl_cls r, la_payload = gl_payload r, la_received_at = gl_received_at r\<rparr>"

record log_answer =
  ans_rows :: "log_answer_row list"
  ans_heads :: "int \<rightharpoonup> int"
  ans_cursors :: "int \<rightharpoonup> int"
  ans_more :: bool

record fetch_acc =
  fa_island :: island
  fa_heads :: "int \<rightharpoonup> int"
  fa_cursors :: "int \<rightharpoonup> int"
  fa_cur_out :: "int \<rightharpoonup> int"
  fa_starts :: "(int \<times> int) list"

definition fetch_room :: "datetime \<Rightarrow> uin \<Rightarrow> device \<Rightarrow> int \<times> int option \<Rightarrow> fetch_acc \<Rightarrow> fetch_acc" where
  "fetch_room now u d room acc =
     (let gid = fst room;
          head = room_head (fa_island acc) gid;
          (at, s') = (case fa_cursors acc gid of
              Some at \<Rightarrow> (at, fa_island acc)
            | None \<Rightarrow> upsert_log_cursor now gid u d 0 head (fa_island acc));
          start = (case snd room of Some after \<Rightarrow> after | None \<Rightarrow> at);
          kept = filter (\<lambda>p. fst p \<noteq> gid) (fa_starts acc)
      in \<lparr>fa_island = s', fa_heads = (fa_heads acc)(gid \<mapsto> head),
           fa_cursors = (fa_cursors acc)(gid \<mapsto> at), fa_cur_out = (fa_cur_out acc)(gid \<mapsto> at),
           fa_starts = (if start < head then kept @ [(gid, start)] else kept)\<rparr>)"

definition member_rooms :: "island \<Rightarrow> uin \<Rightarrow> int list" where
  "member_rooms s u = remdups (map gm_group_id (filter (\<lambda>m. gm_uin m = u) (group_members s)))"

definition wanted_rooms :: "island \<Rightarrow> uin \<Rightarrow> (int \<times> int option) list option \<Rightarrow> (int \<times> int option) list" where
  "wanted_rooms s u rooms =
     (case rooms of
        None \<Rightarrow> map (\<lambda>g. (g, None)) (sort (member_rooms s u))
      | Some rs \<Rightarrow> filter (\<lambda>r. fst r \<in> set (member_rooms s u)) rs)"

definition known_cursors :: "island \<Rightarrow> uin \<Rightarrow> device \<Rightarrow> int list \<Rightarrow> int \<rightharpoonup> int" where
  "known_cursors s u d rooms =
     (\<lambda>g. if g \<in> set rooms then map_option lc_last_seq (find_log_cursor s g u d) else None)"

definition fetch_group_log ::
  "(string \<Rightarrow> string) \<Rightarrow> datetime \<Rightarrow> (int \<times> int option) list option \<Rightarrow> nat \<Rightarrow> uin \<Rightarrow> device \<Rightarrow> island
     \<Rightarrow> log_answer \<times> island" where
  "fetch_group_log bucket now rooms limit u d s =
     (let s1 = touch_poll bucket now u (mark_device_seen u d s);
          wanted = wanted_rooms s1 u rooms;
          acc = fold (fetch_room now u d) wanted
                  \<lparr>fa_island = s1, fa_heads = Map.empty,
                    fa_cursors = known_cursors s1 u d (map fst wanted),
                    fa_cur_out = Map.empty, fa_starts = []\<rparr>;
          (picked, more) = fair_log_page (fa_island acc) u (fa_starts acc) limit;
          out_rows = concat (map (\<lambda>(gid, rows). map (answer_row gid) rows) picked);
          s2 = (if out_rows = [] then mark_reader now u d (fa_island acc) else fa_island acc)
      in (\<lparr>ans_rows = out_rows, ans_heads = fa_heads acc, ans_cursors = fa_cur_out acc,
            ans_more = more\<rparr>, s2))"

definition ack_room ::
  "datetime \<Rightarrow> uin \<Rightarrow> device \<Rightarrow> int \<times> int \<Rightarrow> int \<times> (int \<rightharpoonup> int) \<times> island \<Rightarrow> int \<times> (int \<rightharpoonup> int) \<times> island" where
  "ack_room now u d room acc =
     (case (room, acc) of ((gid, up_to), (moved, known, s)) \<Rightarrow>
        if (case known gid of None \<Rightarrow> False | Some at \<Rightarrow> up_to \<le> at) then (moved, known, s)
        else (case upsert_log_cursor now gid u d up_to up_to s of (at, s') \<Rightarrow>
                (moved + 1, known(gid \<mapsto> at), s')))"

definition ack_group_log ::
  "datetime \<Rightarrow> (int \<times> int) list \<Rightarrow> uin \<Rightarrow> device \<Rightarrow> island \<Rightarrow> int \<times> island" where
  "ack_group_log now rooms u d s =
     (case fold (ack_room now u d) (sort_key fst rooms) (0, known_cursors s u d (map fst rooms), s) of
        (moved, _, s') \<Rightarrow> (moved, if moved \<noteq> 0 then mark_reader now u d s' else s'))"

section \<open>Room marks\<close>

definition log_mark :: "island \<Rightarrow> int \<times> uin \<times> device \<Rightarrow> int option" where
  "log_mark s k = (case k of (gid, u, d) \<Rightarrow> map_option lc_last_seq (find_log_cursor s gid u d))"

definition raise_log_cursor :: "datetime \<Rightarrow> island \<Rightarrow> int \<times> uin \<times> device \<Rightarrow> int \<Rightarrow> int \<Rightarrow> island" where
  "raise_log_cursor now s k m sd = (case k of (gid, u, d) \<Rightarrow> snd (upsert_log_cursor now gid u d m sd s))"

lemma log_mark_upsert:
  "log_mark (snd (upsert_log_cursor now gid u d sq sd s)) (gid, u, d) =
     Some (case log_mark s (gid, u, d) of None \<Rightarrow> max sq sd | Some v \<Rightarrow> max v sq)"
  unfolding log_mark_def find_log_cursor_def upsert_log_cursor_def Let_def
  by (simp add: get_upsert_same is_log_cursor_def split: option.splits)

lemma log_mark_upsert_other:
  assumes "k \<noteq> (gid, u, d)"
  shows "log_mark (snd (upsert_log_cursor now gid u d sq sd s)) k = log_mark s k"
proof -
  obtain g' u' d' where k: "k = (g', u', d')" by (cases k)
  have "get_row (is_log_cursor g' u' d') (upsert_row (is_log_cursor gid u d)
      \<lparr>lc_group_id = gid, lc_uin = u, lc_device_id = d, lc_last_seq = max sq sd, lc_updated_at = now\<rparr>
      (\<lambda>c. c\<lparr>lc_last_seq := max (lc_last_seq c) sq,
            lc_updated_at := if lc_last_seq c < sq then now else lc_updated_at c\<rparr>)
      (group_log_cursors s)) = get_row (is_log_cursor g' u' d') (group_log_cursors s)"
    by (rule get_upsert_other) (use assms k in \<open>auto simp: is_log_cursor_def\<close>)
  then show ?thesis
    by (simp add: log_mark_def k find_log_cursor_def upsert_log_cursor_def Let_def)
qed

lemma upsert_log_value:
  "fst (upsert_log_cursor now gid u d sq sd s) =
     (case log_mark s (gid, u, d) of None \<Rightarrow> max sq sd | Some v \<Rightarrow> max v sq)"
  using log_mark_upsert [of now gid u d sq sd s]
  by (auto simp: upsert_log_cursor_def Let_def log_mark_def)

interpretation room_marks: cursor_store log_mark raise_log_cursor
proof unfold_locales
  show "log_mark (raise_log_cursor t s k m d) k =
      Some (case log_mark s k of None \<Rightarrow> sup m d | Some v \<Rightarrow> sup v m)" for t s k m d
    by (cases k) (simp add: raise_log_cursor_def log_mark_upsert sup_int_def split: option.splits)
  show "k' \<noteq> k \<Longrightarrow> log_mark (raise_log_cursor t s k m d) k' = log_mark s k'" for k' k t s m d
    by (cases k) (simp add: raise_log_cursor_def log_mark_upsert_other)
qed

end
