(* ===== verification/Fair_Page.thy ===== *)
theory Fair_Page
  imports Group_Log
begin

text \<open>
  The page loop of \<open>_fair_log_page\<close>: what it serves of each room, what it costs, that it always
  makes progress, and how evenly it shares. The invariant is in four parts, one per question.
\<close>

section \<open>Reading a room in chunks\<close>

definition log_unique :: "island \<Rightarrow> bool" where
  "log_unique s \<longleftrightarrow> unique_key (\<lambda>r. (gl_group_id r, gl_seq r)) (group_log s)"

lemma room_stream_later:
  "a \<le> b \<Longrightarrow> room_stream s u g b = filter (\<lambda>r. b < gl_seq r) (room_stream s u g a)"
  by (auto simp: room_stream_def filter_sort intro!: arg_cong [where f = "sort_key gl_seq"] filter_cong)

lemma room_stream_strict:
  assumes "log_unique s"
  shows "sorted_wrt (<) (map gl_seq (room_stream s u g a))"
proof -
  have "distinct (map gl_seq (filter P (group_log s)))" if "\<And>r. P r \<Longrightarrow> gl_group_id r = g" for P
    using assms that unfolding log_unique_def unique_key_def
    by (induction "group_log s" arbitrary: s) (auto simp: distinct_map inj_on_def)
  from this [of "\<lambda>r. gl_group_id r = g \<and> a < gl_seq r \<and> (gl_to_uin r = None \<or> gl_to_uin r = Some u)"]
  have "distinct (map gl_seq (room_stream s u g a))"
    by (simp add: room_stream_def distinct_map)
  moreover have "sorted (map gl_seq (room_stream s u g a))" by (simp add: room_stream_def)
  ultimately show ?thesis by (simp add: strict_sorted_iff)
qed

lemma sorted_below_last:
  fixes f :: "'a \<Rightarrow> int"
  shows "sorted_wrt (<) (map f xs) \<Longrightarrow> x \<in> set xs \<Longrightarrow> f x \<le> f (last xs)"
  by (induction xs) (auto simp: less_imp_le)

lemma filter_after_take:
  fixes f :: "'a \<Rightarrow> int"
  assumes "sorted_wrt (<) (map f xs)" and "take n xs \<noteq> []"
  shows "filter (\<lambda>x. f (last (take n xs)) < f x) xs = drop n xs"
proof -
  let ?l = "last (take n xs)"
  have split: "sorted_wrt (<) (map f (take n xs @ drop n xs))" using assms(1) by simp
  then have low: "f x \<le> f ?l" if "x \<in> set (take n xs)" for x
    using sorted_below_last [of f "take n xs" x] that unfolding map_append sorted_wrt_append by blast
  have high: "f ?l < f x" if "x \<in> set (drop n xs)" for x
    using split that last_in_set [OF assms(2)] unfolding map_append sorted_wrt_append by auto
  have "filter (\<lambda>x. f ?l < f x) (take n xs) = []" "filter (\<lambda>x. f ?l < f x) (drop n xs) = drop n xs"
    using low high by (auto simp: filter_empty_conv not_less)
  then show ?thesis by (metis append_Nil append_take_drop_id filter_append)
qed

lemma room_stream_continue:
  assumes "log_unique s" and "take n (room_stream s u g a) = got" and "got \<noteq> []"
  shows "room_stream s u g (gl_seq (last got)) = drop n (room_stream s u g a)"
proof -
  have "last got \<in> set (room_stream s u g a)"
    using assms(2,3) by (metis in_set_takeD last_in_set)
  then have "a \<le> gl_seq (last got)" by (auto simp: room_stream_def)
  then show ?thesis
    using room_stream_later filter_after_take [OF room_stream_strict [OF assms(1)]] assms(2,3) by metis
qed

section \<open>One turn\<close>

lemma fair_loop_invariant:
  assumes "P st"
    and "\<And>st. P st \<Longrightarrow> pg_turns st \<noteq> [] \<Longrightarrow> 0 < pg_rows_left st \<Longrightarrow> P (fair_turn s u chunk st)"
  shows "P (fair_loop s u chunk st) \<and>
    (pg_turns (fair_loop s u chunk st) = [] \<or> pg_rows_left (fair_loop s u chunk st) = 0)"
  using assms(1)
proof (induction "pg_rows_left st + length (pg_turns st)" arbitrary: st rule: less_induct)
  case less
  show ?case
  proof (cases "pg_turns st \<noteq> [] \<and> 0 < pg_rows_left st")
    case True
    then have "fair_loop s u chunk st = fair_loop s u chunk (fair_turn s u chunk st)"
      by (subst fair_loop.simps) simp
    with True less show ?thesis using assms(2) fair_turn_decreases by metis
  next
    case False
    then have "fair_loop s u chunk st = st" by (subst fair_loop.simps) auto
    with False less.prems show ?thesis by auto
  qed
qed

text \<open>The four outcomes of a turn.\<close>

lemma fair_turn_cases:
  assumes "pg_turns st0 \<noteq> []"
  obtains b i gid rest st where "heappop (pg_turns st0) = ((b, i, gid), rest)"
      "st = read_room s u chunk gid (st0\<lparr>pg_turns := rest\<rparr>)"
      "pg_buf st gid = []" "fair_turn s u chunk st0 = st"
    | b i gid rest st where "heappop (pg_turns st0) = ((b, i, gid), rest)"
      "st = read_room s u chunk gid (st0\<lparr>pg_turns := rest\<rparr>)"
      "pg_buf st gid \<noteq> []" "pg_bytes_left st < row_size (hd (pg_buf st gid))"
      "0 < pg_given st gid \<or> pg_stretched st \<or> group_log_page_bytes < row_size (hd (pg_buf st gid))"
      "fair_turn s u chunk st0 = st\<lparr>pg_too_big := pg_too_big st @ [gid]\<rparr>"
    | b i gid rest st where "heappop (pg_turns st0) = ((b, i, gid), rest)"
      "st = read_room s u chunk gid (st0\<lparr>pg_turns := rest\<rparr>)"
      "pg_buf st gid \<noteq> []" "pg_bytes_left st < row_size (hd (pg_buf st gid))"
      "pg_given st gid = 0" "\<not> pg_stretched st" "row_size (hd (pg_buf st gid)) \<le> group_log_page_bytes"
      "fair_turn s u chunk st0 = pick_row i gid (st\<lparr>pg_stretched := True\<rparr>)"
    | b i gid rest st where "heappop (pg_turns st0) = ((b, i, gid), rest)"
      "st = read_room s u chunk gid (st0\<lparr>pg_turns := rest\<rparr>)"
      "pg_buf st gid \<noteq> []" "row_size (hd (pg_buf st gid)) \<le> pg_bytes_left st"
      "fair_turn s u chunk st0 =
         pick_row i gid (st\<lparr>pg_bytes_left := pg_bytes_left st - row_size (hd (pg_buf st gid))\<rparr>)"
proof -
  obtain b i gid rest where pop: "heappop (pg_turns st0) = ((b, i, gid), rest)" by (metis surj_pair)
  let ?st = "read_room s u chunk gid (st0\<lparr>pg_turns := rest\<rparr>)"
  have turn: "fair_turn s u chunk st0 =
    (if pg_buf ?st gid = [] then ?st
     else if pg_bytes_left ?st < row_size (hd (pg_buf ?st gid)) then
       if 0 < pg_given ?st gid \<or> pg_stretched ?st \<or> group_log_page_bytes < row_size (hd (pg_buf ?st gid))
       then ?st\<lparr>pg_too_big := pg_too_big ?st @ [gid]\<rparr>
       else pick_row i gid (?st\<lparr>pg_stretched := True\<rparr>)
     else pick_row i gid (?st\<lparr>pg_bytes_left := pg_bytes_left ?st - row_size (hd (pg_buf ?st gid))\<rparr>))"
    by (simp add: fair_turn_def pop Let_def)
  show thesis
  proof (cases "pg_buf ?st gid = []")
    case True
    with turn have "fair_turn s u chunk st0 = ?st" by simp
    with that(1) [OF pop refl True] show thesis .
  next
    case False
    show thesis
    proof (cases "pg_bytes_left ?st < row_size (hd (pg_buf ?st gid))")
      case small: True
      show thesis
      proof (cases "0 < pg_given ?st gid \<or> pg_stretched ?st \<or> group_log_page_bytes < row_size (hd (pg_buf ?st gid))")
        case True
        with False small turn
        have "fair_turn s u chunk st0 = ?st\<lparr>pg_too_big := pg_too_big ?st @ [gid]\<rparr>" by simp
        with that(2) [OF pop refl False small True] show thesis .
      next
        case no: False
        then have no': "pg_given ?st gid = 0" "\<not> pg_stretched ?st"
            "row_size (hd (pg_buf ?st gid)) \<le> group_log_page_bytes" by auto
        with False small turn no
        have "fair_turn s u chunk st0 = pick_row i gid (?st\<lparr>pg_stretched := True\<rparr>)" by simp
        with that(3) [OF pop refl False small no'] show thesis .
      qed
    next
      case fits: False
      then have le: "row_size (hd (pg_buf ?st gid)) \<le> pg_bytes_left ?st" by simp
      from False fits turn have "fair_turn s u chunk st0 =
         pick_row i gid (?st\<lparr>pg_bytes_left := pg_bytes_left ?st - row_size (hd (pg_buf ?st gid))\<rparr>)" by simp
      with that(4) [OF pop refl False le] show thesis .
    qed
  qed
qed

section \<open>What is served of each room\<close>

definition room_ok :: "island \<Rightarrow> uin \<Rightarrow> page_state \<Rightarrow> int \<times> int \<Rightarrow> bool" where
  "room_ok s u st p \<longleftrightarrow>
     room_stream s u (fst p) (snd p) =
       pg_picked st (fst p) @ pg_buf st (fst p) @ room_stream s u (fst p) (pg_read_to st (fst p)) \<and>
     (pg_unread st (fst p) \<or> room_stream s u (fst p) (pg_read_to st (fst p)) = [])"

lemma room_ok_read:
  assumes "log_unique s" and "0 < chunk" and "room_ok s u st p"
  shows "room_ok s u (read_room s u chunk gid st) p"
proof (cases "fst p = gid \<and> pg_buf st gid = [] \<and> pg_unread st gid")
  case True
  let ?str = "room_stream s u gid (pg_read_to st gid)"
  let ?got = "take chunk ?str"
  let ?st' = "read_room s u chunk gid st"
  have buf: "pg_buf ?st' gid = ?got" using True by (simp add: read_room_def Let_def)
  have rest: "room_stream s u gid (pg_read_to ?st' gid) = drop chunk ?str"
  proof (cases "?got = []")
    case True': True
    then have "?str = []" using assms(2) by simp
    with True True' show ?thesis by (simp add: read_room_def Let_def)
  next
    case False
    with True room_stream_continue [OF assms(1) refl False] show ?thesis
      by (simp add: read_room_def Let_def)
  qed
  have "pg_unread ?st' gid \<or> drop chunk ?str = []"
    using True by (auto simp: read_room_def Let_def)
  with assms(3) True buf rest show ?thesis by (simp add: room_ok_def)
next
  case False
  with assms(3) show ?thesis by (auto simp: room_ok_def read_room_def Let_def)
qed

lemma room_ok_pick: "pg_buf st gid \<noteq> [] \<Longrightarrow> room_ok s u st p \<Longrightarrow> room_ok s u (pick_row i gid st) p"
  by (cases "fst p = gid") (auto simp: room_ok_def pick_row_def Let_def)

lemma room_ok_cong:
  assumes "pg_buf st' = pg_buf st" "pg_picked st' = pg_picked st" "pg_read_to st' = pg_read_to st"
    "pg_unread st' = pg_unread st"
  shows "room_ok s u st' p = room_ok s u st p"
  using assms by (simp add: room_ok_def)

lemma room_ok_turn:
  assumes "log_unique s" and "0 < chunk" and "room_ok s u st0 p" and "pg_turns st0 \<noteq> []"
  shows "room_ok s u (fair_turn s u chunk st0) p"
proof -
  have read: "room_ok s u (read_room s u chunk gid (st0\<lparr>pg_turns := rest\<rparr>)) p" for gid rest
    by (rule room_ok_read [OF assms(1,2)]) (use assms(3) in \<open>simp add: room_ok_def\<close>)
  from assms(4) show ?thesis
    by (cases rule: fair_turn_cases [where s = s and u = u and chunk = chunk])
       (use read in \<open>auto intro!: room_ok_pick simp: room_ok_cong [where st' = "_\<lparr>pg_too_big := _\<rparr>"]
          room_ok_cong [where st' = "_\<lparr>pg_stretched := _\<rparr>"]
          room_ok_cong [where st' = "_\<lparr>pg_bytes_left := _\<rparr>"]\<close>)
qed

section \<open>Turns\<close>

text \<open>
  Each room has at most one turn, a turn carries the bytes its room was given, and a room without
  a turn is either finished or was set aside with a row that did not fit.
\<close>

definition turn_rooms :: "page_state \<Rightarrow> int list" where
  "turn_rooms st = map (\<lambda>(b, i, g). g) (pg_turns st)"

definition turns_ok :: "int list \<Rightarrow> page_state \<Rightarrow> bool" where
  "turns_ok rooms st \<longleftrightarrow> distinct (turn_rooms st) \<and> set (turn_rooms st) \<subseteq> set rooms \<and>
     (\<forall>(b, i, g) \<in> set (pg_turns st). b = pg_given st g) \<and>
     (\<forall>g \<in> set (pg_too_big st). g \<in> set rooms \<and> pg_buf st g \<noteq> [] \<and> g \<notin> set (turn_rooms st)) \<and>
     (\<forall>g \<in> set rooms. g \<in> set (turn_rooms st) \<or> g \<in> set (pg_too_big st) \<or>
        (pg_buf st g = [] \<and> \<not> pg_unread st g))"

lemma remove1_image:
  assumes "distinct (map f xs)" and "x \<in> set xs"
  shows "distinct (map f (remove1 x xs))" "f ` set (remove1 x xs) = f ` set xs - {f x}"
proof -
  have "distinct xs" using assms(1) by (simp add: distinct_map)
  then have set: "set (remove1 x xs) = set xs - {x}" by simp
  show "distinct (map f (remove1 x xs))"
    using assms(1) \<open>distinct xs\<close> by (auto simp: distinct_map inj_on_def)
  show "f ` set (remove1 x xs) = f ` set xs - {f x}"
    using assms unfolding set by (auto simp: distinct_map inj_on_def)
qed

lemma turns_ok_pop:
  assumes "turns_ok rooms st0" and "pg_turns st0 \<noteq> []" and "heappop (pg_turns st0) = ((b, i, gid), rest)"
  shows "gid \<in> set rooms" "b = pg_given st0 gid" "gid \<notin> set (pg_too_big st0)"
    "distinct (map (\<lambda>(b, i, g). g) rest)"
    "(\<lambda>(b, i, g). g) ` set rest = set (turn_rooms st0) - {gid}" "set rest \<subseteq> set (pg_turns st0)"
proof -
  let ?g = "\<lambda>(b, i, g). g :: int"
  have mem: "(b, i, gid) \<in> set (pg_turns st0)" and sub: "set rest \<subseteq> set (pg_turns st0)"
    using heappop_length(2,3) [OF assms(3,2)] by auto
  have rest: "rest = remove1 (b, i, gid) (pg_turns st0)"
    using assms(3) by (auto simp: heappop_def Let_def)
  have dist: "distinct (map ?g (pg_turns st0))"
    using assms(1) by (simp add: turns_ok_def turn_rooms_def)
  have room: "gid \<in> set (turn_rooms st0)" using mem by (force simp: turn_rooms_def)
  with assms(1) show "gid \<in> set rooms" "gid \<notin> set (pg_too_big st0)" by (auto simp: turns_ok_def)
  show "b = pg_given st0 gid" using assms(1) mem by (auto simp: turns_ok_def)
  show "distinct (map ?g rest)" "?g ` set rest = set (turn_rooms st0) - {gid}"
    using remove1_image [OF dist mem] by (simp_all add: rest turn_rooms_def)
  show "set rest \<subseteq> set (pg_turns st0)" by (rule sub)
qed

lemma read_room_other [simp]:
  "g \<noteq> gid \<Longrightarrow> pg_buf (read_room s u chunk gid st) g = pg_buf st g"
  "g \<noteq> gid \<Longrightarrow> pg_unread (read_room s u chunk gid st) g = pg_unread st g"
  by (simp_all add: read_room_def Let_def)

lemma read_room_empty:
  "0 < chunk \<Longrightarrow> pg_buf (read_room s u chunk gid st) gid = [] \<Longrightarrow>
     \<not> pg_unread (read_room s u chunk gid st) gid"
  by (auto simp: read_room_def Let_def split: if_splits)

lemma turns_okI:
  assumes "distinct (turn_rooms st)" and "set (turn_rooms st) \<subseteq> set rooms"
    and "\<And>b i g. (b, i, g) \<in> set (pg_turns st) \<Longrightarrow> b = pg_given st g"
    and "\<And>g. g \<in> set (pg_too_big st) \<Longrightarrow> g \<in> set rooms \<and> pg_buf st g \<noteq> [] \<and> g \<notin> set (turn_rooms st)"
    and "\<And>g. g \<in> set rooms \<Longrightarrow> g \<notin> set (turn_rooms st) \<Longrightarrow> g \<notin> set (pg_too_big st) \<Longrightarrow>
        pg_buf st g = [] \<and> \<not> pg_unread st g"
  shows "turns_ok rooms st"
  using assms unfolding turns_ok_def by blast

text \<open>After the pop, for the rooms other than the one whose turn it is.\<close>

lemma turns_ok_others:
  assumes "turns_ok rooms st0" and "pg_turns st0 \<noteq> []" and "heappop (pg_turns st0) = ((b, i, gid), rest)"
    and "st = read_room s u chunk gid (st0\<lparr>pg_turns := rest\<rparr>)"
  shows "distinct (turn_rooms st)" "set (turn_rooms st) \<subseteq> set rooms - {gid}" "gid \<in> set rooms"
    and "(b', i', g) \<in> set (pg_turns st) \<Longrightarrow> b' = pg_given st g \<and> g \<noteq> gid"
    and "g \<in> set (pg_too_big st) \<Longrightarrow> g \<in> set rooms \<and> pg_buf st g \<noteq> [] \<and> g \<noteq> gid \<and> g \<notin> set (turn_rooms st)"
    and "g \<in> set rooms \<Longrightarrow> g \<noteq> gid \<Longrightarrow> g \<notin> set (turn_rooms st) \<Longrightarrow> g \<notin> set (pg_too_big st) \<Longrightarrow>
        pg_buf st g = [] \<and> \<not> pg_unread st g"
proof -
  note pop = turns_ok_pop [OF assms(1-3)]
  have frame: "pg_turns st = rest" "pg_given st = pg_given st0" "pg_too_big st = pg_too_big st0"
    by (simp_all add: assms(4))
  have rooms: "set (turn_rooms st) = set (turn_rooms st0) - {gid}"
    using pop(5) by (simp add: turn_rooms_def frame)
  show "distinct (turn_rooms st)" using pop(4) by (simp add: turn_rooms_def frame)
  show "set (turn_rooms st) \<subseteq> set rooms - {gid}" using assms(1) rooms by (auto simp: turns_ok_def)
  show "gid \<in> set rooms" by (rule pop(1))
  show "b' = pg_given st g \<and> g \<noteq> gid" if "(b', i', g) \<in> set (pg_turns st)"
  proof -
    have "g \<in> set (turn_rooms st)" using that by (force simp: turn_rooms_def)
    moreover have "(b', i', g) \<in> set (pg_turns st0)" using that pop(6) by (auto simp: frame)
    ultimately show ?thesis using assms(1) rooms by (auto simp: turns_ok_def frame)
  qed
  show "g \<in> set rooms \<and> pg_buf st g \<noteq> [] \<and> g \<noteq> gid \<and> g \<notin> set (turn_rooms st)"
    if "g \<in> set (pg_too_big st)"
  proof -
    have ne: "g \<noteq> gid" using that pop(3) by (auto simp: frame)
    then have "pg_buf st g = pg_buf st0 g" by (simp add: assms(4))
    with that assms(1) rooms ne show ?thesis by (auto simp: turns_ok_def frame)
  qed
  show "pg_buf st g = [] \<and> \<not> pg_unread st g"
    if "g \<in> set rooms" "g \<noteq> gid" "g \<notin> set (turn_rooms st)" "g \<notin> set (pg_too_big st)"
  proof -
    have "pg_buf st g = pg_buf st0 g" "pg_unread st g = pg_unread st0 g"
      using that(2) by (simp_all add: assms(4))
    with that assms(1) rooms show ?thesis by (auto simp: turns_ok_def frame)
  qed
qed

lemma turns_ok_turn:
  assumes "turns_ok rooms st0" and "pg_turns st0 \<noteq> []" and "0 < chunk"
  shows "turns_ok rooms (fair_turn s u chunk st0)"
  using assms(2)
proof (cases rule: fair_turn_cases [where s = s and u = u and chunk = chunk])
  case (1 b i gid rest st)
  note o = turns_ok_others [OF assms(1,2) 1(1,2)]
  have "\<not> pg_unread st gid" using 1(2,3) read_room_empty [OF assms(3)] by simp
  with 1(3) o show ?thesis unfolding 1(4) by (intro turns_okI) blast+
next
  case (2 b i gid rest st)
  note o = turns_ok_others [OF assms(1,2) 2(1,2)]
  have "turn_rooms (st\<lparr>pg_too_big := pg_too_big st @ [gid]\<rparr>) = turn_rooms st" by (simp add: turn_rooms_def)
  with 2(3) o show ?thesis unfolding 2(6) by (intro turns_okI) auto
next
  case (3 b i gid rest st)
  note o = turns_ok_others [OF assms(1,2) 3(1,2)]
  have "turn_rooms (pick_row i gid (st\<lparr>pg_stretched := True\<rparr>)) = gid # turn_rooms st"
    by (simp add: turn_rooms_def pick_row_def Let_def)
  with 3(3) o show ?thesis unfolding 3(8) by (intro turns_okI) (auto simp: pick_row_def Let_def)
next
  case (4 b i gid rest st)
  note o = turns_ok_others [OF assms(1,2) 4(1,2)]
  have "turn_rooms (pick_row i gid (st\<lparr>pg_bytes_left := k\<rparr>)) = gid # turn_rooms st" for k
    by (simp add: turn_rooms_def pick_row_def Let_def)
  with 4(3) o show ?thesis unfolding 4(5) by (intro turns_okI) (auto simp: pick_row_def Let_def)
qed

section \<open>Budget and fairness\<close>

definition served_bytes :: "page_state \<Rightarrow> int \<Rightarrow> nat" where
  "served_bytes st g = sum_list (map row_size (pg_picked st g))"

definition budget_ok :: "int list \<Rightarrow> nat \<Rightarrow> page_state \<Rightarrow> bool" where
  "budget_ok rooms limit st \<longleftrightarrow>
     (\<forall>g. pg_given st g = served_bytes st g) \<and>
     (\<Sum>g \<in> set rooms. length (pg_picked st g)) + pg_rows_left st = limit \<and>
     group_log_page_bytes \<le> (\<Sum>g \<in> set rooms. pg_given st g) + pg_bytes_left st \<and>
     (\<Sum>g \<in> set rooms. pg_given st g) + pg_bytes_left st \<le>
       group_log_page_bytes + (if pg_stretched st then group_log_page_bytes else 0) \<and>
     (pg_stretched st \<longrightarrow> (\<exists>g \<in> set rooms. pg_picked st g \<noteq> []))"

definition set_aside_ok :: "int list \<Rightarrow> page_state \<Rightarrow> bool" where
  "set_aside_ok rooms st \<longleftrightarrow> (\<forall>g \<in> set (pg_too_big st).
     (\<exists>h \<in> set rooms. pg_picked st h \<noteq> []) \<or> group_log_page_bytes < row_size (hd (pg_buf st g)))"

definition fair_ok :: "int list \<Rightarrow> page_state \<Rightarrow> bool" where
  "fair_ok rooms st \<longleftrightarrow> (\<forall>g h. pg_picked st g \<noteq> [] \<longrightarrow> h \<in> set (turn_rooms st) \<longrightarrow>
     pg_given st g \<le> pg_given st h + row_size (last (pg_picked st g)))"

lemma sum_upd:
  fixes f :: "'a \<Rightarrow> nat"
  assumes "finite A" and "x \<in> A"
  shows "(\<Sum>y \<in> A. if y = x then f y + k else f y) = (\<Sum>y \<in> A. f y) + k"
proof -
  have "(\<Sum>y \<in> A. if y = x then f y + k else f y) = (\<Sum>y \<in> A. f y + (if y = x then k else 0))"
    by (rule sum.cong) auto
  with assms show ?thesis by (simp add: sum.distrib)
qed

lemma pick_sums:
  assumes "gid \<in> set rooms"
  shows "(\<Sum>g \<in> set rooms. length (pg_picked (pick_row i gid st) g)) =
           (\<Sum>g \<in> set rooms. length (pg_picked st g)) + 1"
    and "(\<Sum>g \<in> set rooms. pg_given (pick_row i gid st) g) =
           (\<Sum>g \<in> set rooms. pg_given st g) + row_size (hd (pg_buf st gid))"
proof -
  have "length (pg_picked (pick_row i gid st) g) =
      (if g = gid then length (pg_picked st g) + 1 else length (pg_picked st g))" for g
    by (simp add: pick_row_def Let_def)
  then show "(\<Sum>g \<in> set rooms. length (pg_picked (pick_row i gid st) g)) =
           (\<Sum>g \<in> set rooms. length (pg_picked st g)) + 1"
    using assms by (simp only: sum_upd finite_set)
  have "pg_given (pick_row i gid st) g =
      (if g = gid then pg_given st g + row_size (hd (pg_buf st gid)) else pg_given st g)" for g
    by (simp add: pick_row_def Let_def)
  then show "(\<Sum>g \<in> set rooms. pg_given (pick_row i gid st) g) =
           (\<Sum>g \<in> set rooms. pg_given st g) + row_size (hd (pg_buf st gid))"
    using assms by (simp only: sum_upd finite_set)
qed

lemma pick_frame:
  "pg_rows_left (pick_row i gid st) = pg_rows_left st - 1"
  "pg_bytes_left (pick_row i gid st) = pg_bytes_left st"
  "pg_stretched (pick_row i gid st) = pg_stretched st"
  "pg_too_big (pick_row i gid st) = pg_too_big st"
  "pg_picked (pick_row i gid st) gid = pg_picked st gid @ [hd (pg_buf st gid)]"
  "(\<forall>g. pg_given st g = served_bytes st g) \<Longrightarrow>
     pg_given (pick_row i gid st) g = served_bytes (pick_row i gid st) g"
  by (simp_all add: pick_row_def Let_def served_bytes_def)

lemma budget_ok_cong:
  assumes "pg_picked st' = pg_picked st" "pg_given st' = pg_given st" "pg_rows_left st' = pg_rows_left st"
    "pg_bytes_left st' = pg_bytes_left st" "pg_stretched st' = pg_stretched st"
  shows "budget_ok rooms limit st' = budget_ok rooms limit st"
  by (simp only: budget_ok_def served_bytes_def assms)

lemma budget_ok_turn:
  assumes "budget_ok rooms limit st0" and "turns_ok rooms st0" and "pg_turns st0 \<noteq> []"
    and "0 < pg_rows_left st0"
  shows "budget_ok rooms limit (fair_turn s u chunk st0)"
  using assms(3)
proof (cases rule: fair_turn_cases [where s = s and u = u and chunk = chunk])
  case (1 b i gid rest st)
  show ?thesis unfolding 1(4) 1(2) by (subst budget_ok_cong [where st = st0]) (simp_all add: assms(1))
next
  case (2 b i gid rest st)
  show ?thesis unfolding 2(6) 2(2) by (subst budget_ok_cong [where st = st0]) (simp_all add: assms(1))
next
  case (3 b i gid rest st)
  have room: "gid \<in> set rooms" by (rule turns_ok_pop(1) [OF assms(2,3) 3(1)])
  have old: "budget_ok rooms limit st"
    unfolding 3(2) by (subst budget_ok_cong [where st = st0]) (simp_all add: assms(1))
  let ?st = "st\<lparr>pg_stretched := True\<rparr>"
  have given: "\<forall>g. pg_given ?st g = served_bytes ?st g"
    using old by (simp add: budget_ok_def served_bytes_def)
  have rows: "0 < pg_rows_left st" using assms(4) by (simp add: 3(2))
  from old rows room 3(4,6,7) pick_frame(6) [OF given, of i gid] show ?thesis
    unfolding 3(8) budget_ok_def pick_sums [OF room] pick_frame(1-3)
    by (auto simp: budget_ok_def pick_frame(5) intro!: bexI [where x = gid])
next
  case (4 b i gid rest st)
  have room: "gid \<in> set rooms" by (rule turns_ok_pop(1) [OF assms(2,3) 4(1)])
  have old: "budget_ok rooms limit st"
    unfolding 4(2) by (subst budget_ok_cong [where st = st0]) (simp_all add: assms(1))
  let ?st = "st\<lparr>pg_bytes_left := pg_bytes_left st - row_size (hd (pg_buf st gid))\<rparr>"
  have given: "\<forall>g. pg_given ?st g = served_bytes ?st g"
    using old by (simp add: budget_ok_def served_bytes_def)
  have rows: "0 < pg_rows_left st" using assms(4) by (simp add: 4(2))
  from old rows room 4(4) pick_frame(6) [OF given, of i gid] show ?thesis
    unfolding 4(5) budget_ok_def pick_sums [OF room] pick_frame(1-3)
    by (auto simp: budget_ok_def pick_frame(5) intro!: bexI [where x = gid])
qed

lemma set_aside_turn:
  assumes "set_aside_ok rooms st0" and "budget_ok rooms limit st0" and "turns_ok rooms st0"
    and "pg_turns st0 \<noteq> []"
  shows "set_aside_ok rooms (fair_turn s u chunk st0)"
  using assms(4)
proof (cases rule: fair_turn_cases [where s = s and u = u and chunk = chunk])
  case (1 b i gid rest st)
  note o = turns_ok_others(5) [OF assms(3,4) 1(1,2)]
  have "pg_buf st g = pg_buf st0 g" if "g \<in> set (pg_too_big st)" for g
    using o [OF that] by (simp add: 1(2))
  with assms(1) show ?thesis unfolding 1(4) set_aside_ok_def by (simp add: 1(2))
next
  case (2 b i gid rest st)
  note o = turns_ok_others(5) [OF assms(3,4) 2(1,2)]
  have same: "pg_buf st g = pg_buf st0 g" if "g \<in> set (pg_too_big st)" for g
    using o [OF that] by (simp add: 2(2))
  have room: "gid \<in> set rooms" by (rule turns_ok_pop(1) [OF assms(3,4) 2(1)])
  have "(\<exists>h \<in> set rooms. pg_picked st h \<noteq> []) \<or> group_log_page_bytes < row_size (hd (pg_buf st gid))"
  proof (cases "0 < pg_given st gid")
    case True
    with assms(2) have "pg_picked st gid \<noteq> []" by (auto simp: 2(2) budget_ok_def served_bytes_def)
    with room show ?thesis by blast
  next
    case False
    with 2(5) assms(2) show ?thesis by (auto simp: 2(2) budget_ok_def)
  qed
  with assms(1) same show ?thesis unfolding 2(6) set_aside_ok_def by (auto simp: 2(2))
next
  case (3 b i gid rest st)
  have room: "gid \<in> set rooms" by (rule turns_ok_pop(1) [OF assms(3,4) 3(1)])
  then show ?thesis unfolding 3(8) set_aside_ok_def by (auto simp: pick_frame(5) intro!: bexI [where x = gid])
next
  case (4 b i gid rest st)
  have room: "gid \<in> set rooms" by (rule turns_ok_pop(1) [OF assms(3,4) 4(1)])
  then show ?thesis unfolding 4(5) set_aside_ok_def by (auto simp: pick_frame(5) intro!: bexI [where x = gid])
qed

lemma min_turn_le: "x \<in> insert t (set ts) \<Longrightarrow> fst (min_turn t ts) \<le> fst x"
proof (induction t ts arbitrary: x rule: min_turn.induct)
  case (2 t y ys)
  let ?m = "if turn_le y t then y else t"
  have "fst ?m \<le> fst y" "fst ?m \<le> fst t" by (cases t; cases y; auto)+
  with 2(2) show ?case using 2(1) [of ?m] 2(1) [of x] by auto
qed simp

lemma fair_ok_turn:
  assumes "fair_ok rooms st0" and "turns_ok rooms st0" and "pg_turns st0 \<noteq> []"
  shows "fair_ok rooms (fair_turn s u chunk st0)"
proof -
  have least: "pg_given st0 gid \<le> pg_given st0 h"
    if pop: "heappop (pg_turns st0) = ((b, i, gid), rest)" and mem: "h \<in> set (turn_rooms st0)" for b i gid rest h
  proof -
    obtain b' i' where h: "(b', i', h) \<in> set (pg_turns st0)" using mem by (auto simp: turn_rooms_def)
    have "min_turn (hd (pg_turns st0)) (tl (pg_turns st0)) = (b, i, gid)"
      using pop by (auto simp: heappop_def Let_def)
    then have "b \<le> b'"
      using min_turn_le [of "(b', i', h)" "hd (pg_turns st0)" "tl (pg_turns st0)"] h assms(3)
      by (cases "pg_turns st0") auto
    with h assms(2) turns_ok_pop(2) [OF assms(2,3) pop] show ?thesis by (auto simp: turns_ok_def)
  qed
  have rest: "set (turn_rooms (read_room s u chunk gid (st0\<lparr>pg_turns := rest\<rparr>))) \<subseteq> set (turn_rooms st0)"
    if "heappop (pg_turns st0) = ((b, i, gid), rest)" for b i gid rest
    using turns_ok_pop(5) [OF assms(2,3) that] by (auto simp: turn_rooms_def)
  have picked: "fair_ok rooms (pick_row i gid st)"
    if "heappop (pg_turns st0) = ((b, i, gid), rest)" "pg_given st = pg_given st0" "pg_picked st = pg_picked st0"
      "set (turn_rooms st) \<subseteq> set (turn_rooms st0)" for b i gid rest st
  proof -
    have gid: "gid \<in> set (turn_rooms st0)"
      using heappop_length(2) [OF that(1) assms(3)] by (force simp: turn_rooms_def)
    have turns: "set (turn_rooms (pick_row i gid st)) \<subseteq> set (turn_rooms st0)"
      using that(4) gid by (auto simp: turn_rooms_def pick_row_def Let_def)
    show ?thesis
      unfolding fair_ok_def
    proof (intro allI impI)
      fix g h assume g: "pg_picked (pick_row i gid st) g \<noteq> []" "h \<in> set (turn_rooms (pick_row i gid st))"
      then have h: "h \<in> set (turn_rooms st0)" using turns by blast
      show "pg_given (pick_row i gid st) g \<le>
          pg_given (pick_row i gid st) h + row_size (last (pg_picked (pick_row i gid st) g))"
      proof (cases "g = gid")
        case True
        then show ?thesis using least [OF that(1) h] by (simp add: pick_row_def Let_def that(2))
      next
        case False
        then have "pg_given st0 g \<le> pg_given st0 h + row_size (last (pg_picked st0 g))"
          using assms(1) g(1) h by (simp add: fair_ok_def pick_row_def Let_def that(3))
        with False show ?thesis by (auto simp: pick_row_def Let_def that(2,3))
      qed
    qed
  qed
  have same: "fair_ok rooms st" if "pg_given st = pg_given st0" "pg_picked st = pg_picked st0"
      "set (turn_rooms st) \<subseteq> set (turn_rooms st0)" for st
    using assms(1) that by (auto simp: fair_ok_def)
  from assms(3) show ?thesis
  proof (cases rule: fair_turn_cases [where s = s and u = u and chunk = chunk])
    case (1 b i gid rest st)
    show ?thesis unfolding 1(4) 1(2) by (rule same) (use rest [OF 1(1)] in auto)
  next
    case (2 b i gid rest st)
    show ?thesis unfolding 2(6) 2(2) by (rule same) (use rest [OF 2(1)] in \<open>auto simp: turn_rooms_def\<close>)
  next
    case (3 b i gid rest st)
    show ?thesis unfolding 3(8) 3(2)
      by (rule picked [OF 3(1)]) (use rest [OF 3(1)] in \<open>auto simp: turn_rooms_def\<close>)
  next
    case (4 b i gid rest st)
    show ?thesis unfolding 4(5) 4(2)
      by (rule picked [OF 4(1)]) (use rest [OF 4(1)] in \<open>auto simp: turn_rooms_def\<close>)
  qed
qed

section \<open>The whole page\<close>

definition page_inv :: "island \<Rightarrow> uin \<Rightarrow> (int \<times> int) list \<Rightarrow> nat \<Rightarrow> page_state \<Rightarrow> bool" where
  "page_inv s u starts limit st \<longleftrightarrow> (\<forall>p \<in> set starts. room_ok s u st p) \<and>
     turns_ok (gids starts) st \<and> budget_ok (gids starts) limit st \<and>
     set_aside_ok (gids starts) st \<and> fair_ok (gids starts) st"

lemma enumerate_rooms:
  "map (\<lambda>(b, i, g). g) (map (\<lambda>(i, gid, _). (0 :: nat, i, gid)) (List.enumerate n xs)) = map fst xs"
  by (induction xs arbitrary: n) auto

lemma turn_rooms_start: "turn_rooms (page_start starts limit) = gids starts"
  unfolding turn_rooms_def gids_def page_start_def page_state.simps by (rule enumerate_rooms)

lemma page_inv_start:
  assumes "distinct (gids starts)"
  shows "page_inv s u starts limit (page_start starts limit)"
proof -
  have "map_of starts g = Some a" if "(g, a) \<in> set starts" for g a
    using assms that by (simp add: gids_def)
  then have "\<forall>p \<in> set starts. room_ok s u (page_start starts limit) p"
    by (auto simp: room_ok_def page_start_def)
  moreover have "turns_ok (gids starts) (page_start starts limit)"
  proof (rule turns_okI)
    show "distinct (turn_rooms (page_start starts limit))"
      "set (turn_rooms (page_start starts limit)) \<subseteq> set (gids starts)"
      using assms by (simp_all add: turn_rooms_start)
    show "pg_buf (page_start starts limit) g = [] \<and> \<not> pg_unread (page_start starts limit) g"
      if "g \<in> set (gids starts)" "g \<notin> set (turn_rooms (page_start starts limit))" for g
      using that by (simp add: turn_rooms_start)
  qed (auto simp: page_start_def)
  moreover have "budget_ok (gids starts) limit (page_start starts limit)"
    by (simp add: budget_ok_def page_start_def served_bytes_def)
  ultimately show ?thesis
    by (simp add: page_inv_def set_aside_ok_def fair_ok_def page_start_def)
qed

lemma page_inv_loop:
  fixes u :: uin and limit :: nat
  assumes "log_unique s" and "0 < chunk" and "distinct (gids starts)"
  defines "st \<equiv> fair_loop s u chunk (page_start starts limit)"
  shows "page_inv s u starts limit st" "pg_turns st = [] \<or> pg_rows_left st = 0"
proof -
  have step: "page_inv s u starts limit (fair_turn s u chunk st)"
    if "page_inv s u starts limit st" "pg_turns st \<noteq> []" "0 < pg_rows_left st" for st
    using that assms(1,2) unfolding page_inv_def
    by (auto intro: room_ok_turn turns_ok_turn budget_ok_turn set_aside_turn fair_ok_turn)
  note result = fair_loop_invariant [where P = "page_inv s u starts limit" and s = s and u = u and chunk = chunk,
      OF page_inv_start [OF assms(3)] step]
  show "page_inv s u starts limit st" unfolding st_def by (rule conjunct1 [OF result])
  show "pg_turns st = [] \<or> pg_rows_left st = 0" unfolding st_def by (rule conjunct2 [OF result])
qed

lemma alone_min_in: "alone_min starts st g hs \<in> insert g (set hs)"
  by (induction starts st g hs rule: alone_min.induct) (auto split: if_splits)

text \<open>What the last step adds: nothing, or one row of a room that was set aside.\<close>

lemma serve_alone_cases:
  assumes "page_inv s u starts limit st"
  obtains "serve_alone starts st = st" "pg_too_big st = [] \<or> (\<exists>g \<in> set (gids starts). pg_picked st g \<noteq> [])"
    | gid where "gid \<in> set (gids starts)" "gid \<in> set (pg_too_big st)" "pg_buf st gid \<noteq> []"
      "\<forall>g \<in> set (gids starts). pg_picked st g = []"
      "serve_alone starts st = st\<lparr>pg_picked := (pg_picked st)(gid := [hd (pg_buf st gid)]),
         pg_buf := (pg_buf st)(gid := tl (pg_buf st gid))\<rparr>"
proof (cases "pg_too_big st \<noteq> [] \<and> list_all (\<lambda>g. pg_picked st g = []) (gids starts)")
  case True
  let ?gid = "alone_min starts st (hd (pg_too_big st)) (tl (pg_too_big st))"
  have mem: "?gid \<in> set (pg_too_big st)"
    using alone_min_in [of starts st "hd (pg_too_big st)" "tl (pg_too_big st)"] True
    by (cases "pg_too_big st") auto
  then have room: "?gid \<in> set (gids starts)" "pg_buf st ?gid \<noteq> []"
    using assms by (auto simp: page_inv_def turns_ok_def)
  have none: "\<forall>g \<in> set (gids starts). pg_picked st g = []" using True by (simp add: list_all_iff)
  have "serve_alone starts st = st\<lparr>pg_picked := (pg_picked st)(?gid := [hd (pg_buf st ?gid)]),
         pg_buf := (pg_buf st)(?gid := tl (pg_buf st ?gid))\<rparr>"
    using True none room(1) by (simp add: serve_alone_def Let_def)
  with that(2) [OF room(1) mem room(2) none] show thesis .
next
  case False
  then have "pg_too_big st = [] \<or> (\<exists>g \<in> set (gids starts). pg_picked st g \<noteq> [])"
    by (auto simp: list_all_iff)
  moreover have "serve_alone starts st = st" using False by (auto simp: serve_alone_def)
  ultimately show thesis by (rule that(1) [rotated])
qed

lemma serve_alone_rooms:
  assumes "page_inv s u starts limit st" and "p \<in> set starts"
  shows "room_ok s u (serve_alone starts st) p"
  using assms(1)
proof (cases rule: serve_alone_cases)
  case 1
  with assms show ?thesis by (simp add: page_inv_def)
next
  case (2 gid)
  have "fst p \<in> set (gids starts)" using assms(2) by (auto simp: gids_def)
  with 2 assms show ?thesis
    by (cases "fst p = gid") (auto simp: page_inv_def room_ok_def dest!: bspec)
qed

lemma page_chunk_pos: "0 < limit \<Longrightarrow> 0 < page_chunk limit n"
  by (simp add: page_chunk_def group_log_room_chunk_min_def)

text \<open>The final state of a page, and the page read off it.\<close>

lemma fair_log_page_state:
  assumes "log_unique s" and "distinct (gids starts)" and "0 < limit" and "starts \<noteq> []"
  obtains st where "page_inv s u starts limit st" "pg_turns st = [] \<or> pg_rows_left st = 0"
    "fair_log_page s u starts limit =
       (map (\<lambda>g. (g, pg_picked (serve_alone starts st) g)) (gids starts),
        list_ex (\<lambda>g. pg_buf (serve_alone starts st) g \<noteq> [] \<or> pg_unread (serve_alone starts st) g) (gids starts))"
proof
  let ?chunk = "page_chunk limit (length starts)"
  show "page_inv s u starts limit (fair_loop s u ?chunk (page_start starts limit))"
    "pg_turns (fair_loop s u ?chunk (page_start starts limit)) = [] \<or>
     pg_rows_left (fair_loop s u ?chunk (page_start starts limit)) = 0"
    by (rule page_inv_loop [OF assms(1) page_chunk_pos [OF assms(3)] assms(2)])+
qed (use assms(4) in \<open>simp add: fair_log_page_def Let_def\<close>)

lemma fair_page_gids: "map fst (fst (fair_log_page s u starts limit)) = gids starts"
  by (simp add: fair_log_page_def Let_def gids_def comp_def)

lemma fair_page_room:
  assumes "log_unique s" and "distinct (gids starts)" and "0 < limit"
    and "fair_log_page s u starts limit = (picked, again)"
    and "(gid, start) \<in> set starts" and "(gid, rows) \<in> set picked"
  shows "prefix rows (room_stream s u gid start) \<and> (again \<or> rows = room_stream s u gid start)"
proof -
  have "starts \<noteq> []" using assms(5) by auto
  then show ?thesis
  proof (rule fair_log_page_state [OF assms(1-3), where u = u])
    fix st assume inv: "page_inv s u starts limit st"
      and page: "fair_log_page s u starts limit =
       (map (\<lambda>g. (g, pg_picked (serve_alone starts st) g)) (gids starts),
        list_ex (\<lambda>g. pg_buf (serve_alone starts st) g \<noteq> [] \<or> pg_unread (serve_alone starts st) g) (gids starts))"
    let ?st = "serve_alone starts st"
    have picked: "picked = map (\<lambda>g. (g, pg_picked ?st g)) (gids starts)"
      and again: "again = list_ex (\<lambda>g. pg_buf ?st g \<noteq> [] \<or> pg_unread ?st g) (gids starts)"
      using assms(4) unfolding page by simp_all
    have rows: "rows = pg_picked ?st gid" using assms(6) unfolding picked by auto
    have room: "gid \<in> set (gids starts)" using assms(5) by (force simp: gids_def)
    have "room_ok s u (serve_alone starts st) (gid, start)" by (rule serve_alone_rooms [OF inv assms(5)])
    moreover have "again \<or> pg_buf (serve_alone starts st) gid = [] \<and> \<not> pg_unread (serve_alone starts st) gid"
      unfolding again list_ex_iff using room by blast
    ultimately show ?thesis by (auto simp: rows room_ok_def)
  qed
qed

text \<open>
  C8. A page of the room log serves each room a contiguous prefix of what that room holds for the
  member above its start, in sequence order, and when it reports nothing more it served every
  room to its end. So a client that acknowledges the last sequence of a room skips nothing.
\<close>

theorem fair_page_contiguous:
  assumes "log_unique s" and "distinct (gids starts)" and "0 < limit"
    and "fair_log_page s u starts limit = (picked, again)"
    and "(gid, start) \<in> set starts"
  shows "\<exists>rows. (gid, rows) \<in> set picked \<and> prefix rows (room_stream s u gid start) \<and>
           (again \<or> rows = room_stream s u gid start)"
proof -
  have "map fst picked = gids starts" using fair_page_gids [of s u starts limit] by (simp add: assms(4))
  then have "gid \<in> fst ` set picked" using assms(5) by (metis fst_conv gids_def image_eqI set_map)
  then obtain rows where "(gid, rows) \<in> set picked" by force
  with fair_page_room [OF assms this] show ?thesis by blast
qed

definition page_example :: island where
  "page_example = empty_island\<lparr>group_log :=
     [\<lparr>gl_group_id = 1, gl_seq = 1, gl_to_uin = None, gl_envelope_type = ''gmsg'', gl_cls = 1,
        gl_payload = ''aaaa'', gl_received_at = 0\<rparr>,
      \<lparr>gl_group_id = 2, gl_seq = 1, gl_to_uin = Some 7, gl_envelope_type = ''skdm'', gl_cls = 2,
        gl_payload = ''b'', gl_received_at = 0\<rparr>,
      \<lparr>gl_group_id = 1, gl_seq = 2, gl_to_uin = None, gl_envelope_type = ''gmsg'', gl_cls = 1,
        gl_payload = ''cc'', gl_received_at = 0\<rparr>],
     group_seq := [1 \<mapsto> 2, 2 \<mapsto> 1]\<rparr>"

lemma page_example_unique: "log_unique page_example"
  by (simp add: log_unique_def unique_key_def page_example_def)

theorem fair_page_contiguous_witness:
  "\<exists>rows. (1, rows) \<in> set (fst (fair_log_page page_example 7 [(1, 0), (2, 0)] 2)) \<and>
     prefix rows (room_stream page_example 7 1 0)"
proof -
  obtain picked again where page: "fair_log_page page_example 7 [(1, 0), (2, 0)] 2 = (picked, again)" by fastforce
  from fair_page_contiguous [OF page_example_unique _ _ page, of 1 0] show ?thesis
    by (auto simp: gids_def page)
qed

definition picked_rows :: "(int \<times> group_log_row list) list \<Rightarrow> group_log_row list" where
  "picked_rows picked = concat (map snd picked)"

lemma picked_rows_sums:
  assumes "distinct rooms"
  shows "length (picked_rows (map (\<lambda>g. (g, f g)) rooms)) = (\<Sum>g \<in> set rooms. length (f g))"
    and "sum_list (map row_size (picked_rows (map (\<lambda>g. (g, f g)) rooms))) =
           (\<Sum>g \<in> set rooms. sum_list (map row_size (f g)))"
proof -
  have sums: "sum_list (map h rooms) = (\<Sum>g \<in> set rooms. h g)" for h :: "int \<Rightarrow> nat"
    using assms by (rule sum_list_distinct_conv_sum_set)
  show "length (picked_rows (map (\<lambda>g. (g, f g)) rooms)) = (\<Sum>g \<in> set rooms. length (f g))"
    using sums [of "\<lambda>g. length (f g)"] by (simp add: picked_rows_def length_concat comp_def)
  have "sum_list (map row_size (concat (map f rs))) = sum_list (map (\<lambda>g. sum_list (map row_size (f g))) rs)" for rs
    by (induction rs) auto
  then show "sum_list (map row_size (picked_rows (map (\<lambda>g. (g, f g)) rooms))) =
           (\<Sum>g \<in> set rooms. sum_list (map row_size (f g)))"
    using sums [of "\<lambda>g. sum_list (map row_size (f g))"] by (simp add: picked_rows_def comp_def)
qed

text \<open>
  A page is bounded: at most \<open>limit\<close> rows, and at most twice the page budget of 128 KiB
  of payload, except for a page that is a single row, which is the only page on which a row
  larger than the budget goes out.
\<close>

theorem fair_page_bounds:
  assumes "log_unique s" and "distinct (gids starts)" and "0 < limit"
    and "fair_log_page s u starts limit = (picked, again)"
  shows "length (picked_rows picked) \<le> limit \<and>
    (sum_list (map row_size (picked_rows picked)) \<le> 2 * 131072 \<or> length (picked_rows picked) = 1)"
proof (cases "starts = []")
  case True
  with assms(4) show ?thesis by (auto simp: fair_log_page_def picked_rows_def)
next
  case False
  then show ?thesis
  proof (rule fair_log_page_state [OF assms(1-3), where u = u])
    fix st assume inv: "page_inv s u starts limit st"
      and page: "fair_log_page s u starts limit =
       (map (\<lambda>g. (g, pg_picked (serve_alone starts st) g)) (gids starts),
        list_ex (\<lambda>g. pg_buf (serve_alone starts st) g \<noteq> [] \<or> pg_unread (serve_alone starts st) g) (gids starts))"
    have picked: "picked = map (\<lambda>g. (g, pg_picked (serve_alone starts st) g)) (gids starts)"
      using assms(4) page by simp
    note sums = picked_rows_sums [OF assms(2)]
    from inv have budget: "budget_ok (gids starts) limit st" by (simp add: page_inv_def)
    from inv show ?thesis
    proof (cases rule: serve_alone_cases)
      case 1
      have "(\<Sum>g \<in> set (gids starts). served_bytes st g) \<le> 2 * group_log_page_bytes"
        using budget by (auto simp: budget_ok_def split: if_splits)
      moreover have "(\<Sum>g \<in> set (gids starts). length (pg_picked st g)) \<le> limit"
        using budget by (auto simp: budget_ok_def)
      ultimately show ?thesis
        by (simp add: picked sums 1(1) served_bytes_def group_log_page_bytes_def)
    next
      case (2 gid)
      have "length (pg_picked (serve_alone starts st) g) = (if g = gid then 1 else 0)"
        if "g \<in> set (gids starts)" for g using 2(4,5) that by simp
      then have "(\<Sum>g \<in> set (gids starts). length (pg_picked (serve_alone starts st) g)) = 1"
        using 2(1) by (simp cong: sum.cong)
      with assms(3) show ?thesis by (simp add: picked sums)
    qed
  qed
qed

theorem fair_page_bounds_witness:
  "length (picked_rows (fst (fair_log_page page_example 7 [(1, 0), (2, 0)] 2))) \<le> 2"
  using fair_page_bounds [OF page_example_unique, of "[(1, 0), (2, 0)]" 2 7]
  by (cases "fair_log_page page_example 7 [(1, 0), (2, 0)] 2") (simp add: gids_def)

text \<open>
  A page always makes progress: as long as some room holds a row for the member above its
  start, the page hands out at least one row, however large the rows at the head of each room.
\<close>

theorem fair_page_progress:
  assumes "log_unique s" and "distinct (gids starts)" and "0 < limit"
    and "(gid, start) \<in> set starts" and "room_stream s u gid start \<noteq> []"
  shows "picked_rows (fst (fair_log_page s u starts limit)) \<noteq> []"
proof -
  have "starts \<noteq> []" using assms(4) by auto
  then show ?thesis
  proof (rule fair_log_page_state [OF assms(1-3), where u = u])
    fix st assume inv: "page_inv s u starts limit st" and stop: "pg_turns st = [] \<or> pg_rows_left st = 0"
      and page: "fair_log_page s u starts limit =
       (map (\<lambda>g. (g, pg_picked (serve_alone starts st) g)) (gids starts),
        list_ex (\<lambda>g. pg_buf (serve_alone starts st) g \<noteq> [] \<or> pg_unread (serve_alone starts st) g) (gids starts))"
    have room: "gid \<in> set (gids starts)" using assms(4) by (force simp: gids_def)
    have "\<exists>g \<in> set (gids starts). pg_picked (serve_alone starts st) g \<noteq> []"
      using inv
    proof (cases rule: serve_alone_cases)
      case 1
      have "\<exists>g \<in> set (gids starts). pg_picked st g \<noteq> []"
      proof (rule ccontr)
        assume none: "\<not> ?thesis"
        then have rows: "pg_rows_left st = limit" using inv by (auto simp: page_inv_def budget_ok_def)
        with stop assms(3) have "pg_turns st = []" by simp
        with none 1(2) inv room have "pg_buf st gid = []" "\<not> pg_unread st gid"
          by (auto simp: page_inv_def turns_ok_def turn_rooms_def)
        moreover have "room_ok s u st (gid, start)" using inv assms(4) by (simp add: page_inv_def)
        ultimately show False using none room assms(5) by (auto simp: room_ok_def)
      qed
      with 1 show ?thesis by simp
    next
      case (2 gid')
      then show ?thesis by (auto intro!: bexI [where x = gid'])
    qed
    then show ?thesis by (auto simp: page picked_rows_def)
  qed
qed

theorem fair_page_progress_witness:
  "picked_rows (fst (fair_log_page page_example 7 [(1, 0), (2, 0)] 2)) \<noteq> []"
proof (rule fair_page_progress [OF page_example_unique])
  show "room_stream page_example 7 1 0 \<noteq> []" by code_simp
qed (simp_all add: gids_def)

text \<open>
  The page is shared fairly: while a room still has a turn, no room has been given more bytes
  than that room plus the one row it was handed last. So when the row limit ends a page, a room
  with a long tail is at most one row ahead of every room still waiting.
\<close>

theorem fair_page_shares:
  assumes "log_unique s" and "distinct (gids starts)" and "0 < limit"
    and "st = fair_loop s u (page_chunk limit (length starts)) (page_start starts limit)"
    and "h \<in> set (turn_rooms st)" and "pg_picked st g \<noteq> []"
  shows "served_bytes st g \<le> served_bytes st h + row_size (last (pg_picked st g))"
proof -
  have "page_inv s u starts limit st"
    unfolding assms(4) by (rule page_inv_loop(1) [OF assms(1) page_chunk_pos [OF assms(3)] assms(2)])
  with assms(5,6) show ?thesis by (auto simp: page_inv_def fair_ok_def budget_ok_def)
qed

lemmas page_step_defs =
  fair_turn_def heappop_def read_room_def pick_row_def page_start_def page_chunk_def turn_rooms_def
  room_stream_def row_size_def page_example_def Let_def group_log_page_bytes_def
  group_log_room_chunk_min_def group_log_room_chunk_max_def

theorem fair_page_shares_witness:
  "let st = fair_loop page_example 7 (page_chunk 2 2) (page_start [(1, 0), (2, 0)] 2)
   in served_bytes st 1 \<le> served_bytes st 2 + row_size (last (pg_picked st 1))"
proof -
  let ?st = "fair_loop page_example 7 (page_chunk 2 2) (page_start [(1, 0), (2, 0)] 2)"
  have "served_bytes ?st 1 \<le> served_bytes ?st 2 + row_size (last (pg_picked ?st 1))"
  proof (rule fair_page_shares [where starts = "[(1, 0), (2, 0)]" and limit = 2 and u = 7,
        OF page_example_unique])
    show "2 \<in> set (turn_rooms ?st)" "pg_picked ?st 1 \<noteq> []"
      by (simp_all add: fair_loop.simps page_step_defs)
  qed (simp_all add: gids_def numeral_2_eq_2)
  then show ?thesis by (simp add: Let_def)
qed

end
