(* ===== verification/Log_Routes.thy ===== *)
theory Log_Routes
  imports Fair_Page
begin

text \<open>
  The room-log routes of \<open>app/routers/messages.py\<close> over the fair page: what a fetch of every
  room answers, what an acknowledgement moves, when a device earns its reader mark, and the
  room counters and cursors behind them.
\<close>

section \<open>The rooms a fetch reads\<close>

lemma upsert_log_frame [simp]:
  "group_log (snd (upsert_log_cursor now gid u d sq sd s)) = group_log s"
  "group_seq (snd (upsert_log_cursor now gid u d sq sd s)) = group_seq s"
  "group_log_readers (snd (upsert_log_cursor now gid u d sq sd s)) = group_log_readers s"
  by (simp_all add: upsert_log_cursor_def Let_def)

lemma fetch_room_frame [simp]:
  "group_log (fa_island (fetch_room now u d r acc)) = group_log (fa_island acc)"
  "group_seq (fa_island (fetch_room now u d r acc)) = group_seq (fa_island acc)"
  "group_log_readers (fa_island (fetch_room now u d r acc)) = group_log_readers (fa_island acc)"
  by (simp_all add: fetch_room_def Let_def split_beta split: option.splits)

lemma fetch_rooms_frame:
  "group_log (fa_island (fold (fetch_room now u d) wanted acc)) = group_log (fa_island acc)"
  "group_seq (fa_island (fold (fetch_room now u d) wanted acc)) = group_seq (fa_island acc)"
  "group_log_readers (fa_island (fold (fetch_room now u d) wanted acc)) = group_log_readers (fa_island acc)"
  by (induction wanted arbitrary: acc) auto

lemma fetch_room_starts:
  "fa_starts (fetch_room now u d (gid, after) acc) =
     (let kept = filter (\<lambda>p. fst p \<noteq> gid) (fa_starts acc);
          at = (case fa_cursors acc gid of Some at \<Rightarrow> at
                | None \<Rightarrow> fst (upsert_log_cursor now gid u d 0 (room_head (fa_island acc) gid) (fa_island acc)));
          start = (case after of Some a \<Rightarrow> a | None \<Rightarrow> at)
      in if start < room_head (fa_island acc) gid then kept @ [(gid, start)] else kept)"
  by (simp add: fetch_room_def Let_def split_beta split: option.splits)

lemma gids_filter: "distinct (gids starts) \<Longrightarrow> distinct (gids (filter P starts))"
  by (induction starts) (auto simp: gids_def)

lemma fetch_rooms_distinct:
  "distinct (gids (fa_starts acc)) \<Longrightarrow> distinct (gids (fa_starts (fold (fetch_room now u d) wanted acc)))"
proof (induction wanted arbitrary: acc)
  case (Cons r wanted)
  obtain gid after where r: "r = (gid, after)" by (cases r)
  have "distinct (gids (fa_starts (fetch_room now u d r acc)))"
    using gids_filter [OF Cons.prems, of "\<lambda>p. fst p \<noteq> gid"]
    by (auto simp: r fetch_room_starts Let_def gids_def)
  with Cons.IH show ?case by simp
qed simp

lemma fetch_room_keeps:
  assumes "fst r \<noteq> gid"
  shows "fa_cursors (fetch_room now u d r acc) gid = fa_cursors acc gid"
    and "p \<in> set (fa_starts acc) \<Longrightarrow> fst p = gid \<Longrightarrow> p \<in> set (fa_starts (fetch_room now u d r acc))"
proof -
  obtain g after where r: "r = (g, after)" by (cases r)
  show "fa_cursors (fetch_room now u d r acc) gid = fa_cursors acc gid"
    using assms by (simp add: fetch_room_def Let_def split_beta r split: option.splits)
  show "p \<in> set (fa_starts acc) \<Longrightarrow> fst p = gid \<Longrightarrow> p \<in> set (fa_starts (fetch_room now u d r acc))"
    using assms by (auto simp: r fetch_room_starts Let_def)
qed

lemma fetch_rooms_keeps:
  assumes "gid \<notin> fst ` set wanted" and "p \<in> set (fa_starts acc)" and "fst p = gid"
  shows "p \<in> set (fa_starts (fold (fetch_room now u d) wanted acc))"
  using assms
proof (induction wanted arbitrary: acc)
  case (Cons r wanted)
  then have "p \<in> set (fa_starts (fetch_room now u d r acc))" by (intro fetch_room_keeps(2)) auto
  with Cons show ?case by simp
qed simp

lemma fetch_rooms_starts:
  assumes "distinct (map fst wanted)" and "(gid, None) \<in> set wanted"
    and "fa_cursors acc gid = Some at" and "at < room_head (fa_island acc) gid"
  shows "(gid, at) \<in> set (fa_starts (fold (fetch_room now u d) wanted acc))"
  using assms
proof (induction wanted arbitrary: acc)
  case (Cons r wanted)
  show ?case
  proof (cases "fst r = gid")
    case True
    have "gid \<notin> fst ` set wanted" using Cons.prems(1) True by auto
    then have "(gid, None) \<notin> set wanted" by force
    then have r: "r = (gid, None)" using Cons.prems(2) by auto
    have "(gid, at) \<in> set (fa_starts (fetch_room now u d r acc))"
      using Cons.prems(3,4) by (simp add: r fetch_room_starts Let_def)
    moreover have "gid \<notin> fst ` set wanted" using Cons.prems(1) True by auto
    ultimately show ?thesis by (simp add: fetch_rooms_keeps)
  next
    case False
    have "(gid, None) \<in> set wanted" using Cons.prems(2) False by auto
    moreover have "fa_cursors (fetch_room now u d r acc) gid = Some at"
      using Cons.prems(3) fetch_room_keeps(1) [OF False] by simp
    moreover have "at < room_head (fa_island (fetch_room now u d r acc)) gid"
      using Cons.prems(4) by (simp add: room_head_def)
    ultimately show ?thesis using Cons.IH Cons.prems(1) by simp
  qed
qed simp

lemma side_effects_log [simp]:
  "group_log (touch_poll bucket now u (mark_device_seen u d s)) = group_log s"
  "group_seq (touch_poll bucket now u (mark_device_seen u d s)) = group_seq s"
  "group_members (touch_poll bucket now u (mark_device_seen u d s)) = group_members s"
  "group_log_cursors (touch_poll bucket now u (mark_device_seen u d s)) = group_log_cursors s"
  "group_log_readers (touch_poll bucket now u (mark_device_seen u d s)) = group_log_readers s"
  by (simp_all add: touch_poll_def is_guest_def ensure_def rebuild_def rebuild_apply_def
      mark_device_seen_def split_beta Let_def)

text \<open>The state of a fetch of every room of the member, before the page is read.\<close>

definition fetch_all_rooms :: "(string \<Rightarrow> string) \<Rightarrow> datetime \<Rightarrow> uin \<Rightarrow> device \<Rightarrow> island \<Rightarrow> fetch_acc" where
  "fetch_all_rooms bucket now u d s =
     (let s1 = touch_poll bucket now u (mark_device_seen u d s);
          wanted = wanted_rooms s1 u None
      in fold (fetch_room now u d) wanted
           \<lparr>fa_island = s1, fa_heads = Map.empty, fa_cursors = known_cursors s1 u d (map fst wanted),
             fa_cur_out = Map.empty, fa_starts = []\<rparr>)"

lemma fetch_all_rooms_start:
  assumes "gid \<in> set (member_rooms s u)" and "log_mark s (gid, u, d) = Some at" and "at < room_head s gid"
  shows "(gid, at) \<in> set (fa_starts (fetch_all_rooms bucket now u d s))"
proof -
  let ?s1 = "touch_poll bucket now u (mark_device_seen u d s)"
  have rooms: "member_rooms ?s1 u = member_rooms s u" by (simp add: member_rooms_def)
  have w: "wanted_rooms ?s1 u None = map (\<lambda>g. (g, None)) (sort (member_rooms s u))"
    by (simp add: wanted_rooms_def rooms)
  have fst: "map fst (wanted_rooms ?s1 u None) = sort (member_rooms s u)" by (simp add: w comp_def)
  have "distinct (member_rooms s u)" by (simp add: member_rooms_def)
  then show ?thesis
    unfolding fetch_all_rooms_def Let_def fst
    by (intro fetch_rooms_starts)
       (use assms in \<open>auto simp: w comp_def known_cursors_def log_mark_def find_log_cursor_def room_head_def\<close>)
qed

lemma fetch_group_log_all:
  "fetch_group_log bucket now None limit u d s =
     (let acc = fetch_all_rooms bucket now u d s;
          page = fair_log_page (fa_island acc) u (fa_starts acc) limit;
          out = concat (map (\<lambda>(gid, rows). map (answer_row gid) rows) (fst page))
      in (\<lparr>ans_rows = out, ans_heads = fa_heads acc, ans_cursors = fa_cur_out acc, ans_more = snd page\<rparr>,
          if out = [] then mark_reader now u d (fa_island acc) else fa_island acc))"
  by (simp add: fetch_group_log_def fetch_all_rooms_def Let_def split_beta)

lemma fetch_all_rooms_frame:
  "group_log (fa_island (fetch_all_rooms bucket now u d s)) = group_log s"
  "group_log_readers (fa_island (fetch_all_rooms bucket now u d s)) = group_log_readers s"
  "distinct (gids (fa_starts (fetch_all_rooms bucket now u d s)))"
  by (simp_all add: fetch_all_rooms_def Let_def fetch_rooms_frame)
     (rule fetch_rooms_distinct, simp add: gids_def)

lemma room_stream_cong: "group_log s' = group_log s \<Longrightarrow> room_stream s' u = room_stream s u"
  by (simp add: room_stream_def fun_eq_iff)

text \<open>
  C7. A fetch of every room that reports nothing more is complete: each row of a room the account
  is a member of, addressed to it or to everybody, above the device's cursor in that room, is in
  the answer.
\<close>

theorem fetch_log_complete:
  assumes "log_unique s" and "0 < limit"
    and "gid \<in> set (member_rooms s u)" and "log_mark s (gid, u, d) = Some at"
    and "r \<in> set (group_log s)" and "gl_group_id r = gid" and "at < gl_seq r" and "gl_seq r \<le> room_head s gid"
    and "gl_to_uin r = None \<or> gl_to_uin r = Some u"
    and "\<not> ans_more (fst (fetch_group_log bucket now None limit u d s))"
  shows "answer_row gid r \<in> set (ans_rows (fst (fetch_group_log bucket now None limit u d s)))"
proof -
  let ?acc = "fetch_all_rooms bucket now u d s"
  obtain picked again where page: "fair_log_page (fa_island ?acc) u (fa_starts ?acc) limit = (picked, again)"
    by fastforce
  have more: "\<not> again" using assms(10) by (simp add: fetch_group_log_all Let_def page)
  have start: "(gid, at) \<in> set (fa_starts ?acc)"
    by (rule fetch_all_rooms_start [OF assms(3,4)]) (use assms(7,8) in simp)
  have uniq: "log_unique (fa_island ?acc)"
    using assms(1) by (simp add: log_unique_def fetch_all_rooms_frame)
  have "map fst picked = gids (fa_starts ?acc)"
    using fair_page_gids [of "fa_island ?acc" u "fa_starts ?acc" limit] by (simp add: page)
  then have "gid \<in> fst ` set picked" using start by (metis fst_conv gids_def image_eqI set_map)
  then obtain rows where rows: "(gid, rows) \<in> set picked" by force
  have "rows = room_stream s u gid at"
    using fair_page_room [OF uniq fetch_all_rooms_frame(3) assms(2) page start rows] more
    by (simp add: room_stream_cong [OF fetch_all_rooms_frame(1)])
  then have "r \<in> set rows" using assms(5-7,9) by (simp add: room_stream_def)
  with rows show ?thesis by (force simp: fetch_group_log_all Let_def page)
qed

definition log_example :: island where
  "log_example = page_example\<lparr>group_members :=
     [\<lparr>gm_group_id = 1, gm_uin = 7, gm_role = ''member'', gm_permissions = [], gm_joined_at = None\<rparr>],
     group_log_cursors := [\<lparr>lc_group_id = 1, lc_uin = 7, lc_device_id = ''phone'', lc_last_seq = 1,
       lc_updated_at = 0\<rparr>]\<rparr>"

theorem fetch_log_complete_witness:
  "answer_row 1 (group_log log_example ! 2) \<in>
     set (ans_rows (fst (fetch_group_log (\<lambda>k. k) 5 None 50 7 ''phone'' log_example)))"
proof (rule fetch_log_complete [where at = 1])
  show "log_unique log_example" by (simp add: log_unique_def unique_key_def log_example_def page_example_def)
  show "log_mark log_example (1, 7, ''phone'') = Some 1"
    by (simp add: log_mark_def find_log_cursor_def is_log_cursor_def log_example_def get_row_Cons)
  show "\<not> ans_more (fst (fetch_group_log (\<lambda>k. k) 5 None 50 7 ''phone'' log_example))"
    by (simp add: fetch_group_log_def touch_poll_def is_guest_def ensure_def rebuild_def rebuild_apply_def
        mark_device_seen_def guest_rows_def log_example_def empty_island_def empty_guest_cache_def
        wanted_rooms_def member_rooms_def fetch_room_def known_cursors_def find_log_cursor_def
        is_log_cursor_def get_row_Cons room_head_def fair_log_page_def fair_loop.simps page_step_defs
        serve_alone_def gids_def live_pending_def)
qed (simp_all add: log_example_def page_example_def member_rooms_def room_head_def)

section \<open>Acknowledgements and reader marks\<close>

definition raise_to :: "int \<Rightarrow> int option \<Rightarrow> int option" where
  "raise_to x m = Some (case m of None \<Rightarrow> x | Some v \<Rightarrow> max v x)"

definition acks_for :: "int \<Rightarrow> (int \<times> int) list \<Rightarrow> int list" where
  "acks_for gid rooms = map snd (filter (\<lambda>r. fst r = gid) rooms)"

lemma ack_room_mark:
  assumes "known (fst r) = log_mark s (fst r, u, d)" and "ack_room now u d r (moved, known, s) = (m', k', s')"
  shows "log_mark s' (g, u', d') =
           (if (g, u', d') = (fst r, u, d) then raise_to (snd r) (log_mark s (g, u', d'))
            else log_mark s (g, u', d'))"
    and "k' = known \<or> k' = known(fst r := log_mark s' (fst r, u, d))"
    and "k' (fst r) = log_mark s' (fst r, u, d)"
proof -
  obtain gid up where r: "r = (gid, up)" by (cases r)
  show "log_mark s' (g, u', d') =
           (if (g, u', d') = (fst r, u, d) then raise_to (snd r) (log_mark s (g, u', d'))
            else log_mark s (g, u', d'))"
    using assms log_mark_upsert [of now gid u d up up s]
      log_mark_upsert_other [of "(g, u', d')" gid u d now up up s]
    by (auto simp: ack_room_def r raise_to_def split_beta max_def split: if_splits option.splits)
  show "k' = known \<or> k' = known(fst r := log_mark s' (fst r, u, d))"
    and "k' (fst r) = log_mark s' (fst r, u, d)"
    using assms log_mark_upsert [of now gid u d up up s] upsert_log_value [of now gid u d up up s]
    by (auto simp: ack_room_def r split_beta split: if_splits option.splits)
qed

lemma ack_fold_marks:
  assumes "\<forall>g \<in> fst ` set rooms. known g = log_mark s (g, u, d)"
  shows "log_mark (snd (snd (fold (ack_room now u d) rooms (moved, known, s)))) (g, u', d') =
           (if (u', d') = (u, d) then fold raise_to (acks_for g rooms) (log_mark s (g, u', d'))
            else log_mark s (g, u', d'))"
  using assms
proof (induction rooms arbitrary: moved known s)
  case Nil
  then show ?case by (simp add: acks_for_def)
next
  case (Cons r rooms)
  obtain m1 k1 s1 where r: "ack_room now u d r (moved, known, s) = (m1, k1, s1)" by (metis surj_pair)
  have known: "known (fst r) = log_mark s (fst r, u, d)" using Cons.prems by simp
  note one = ack_room_mark [OF known r]
  have "k1 g = log_mark s1 (g, u, d)" if "g \<in> fst ` set rooms" for g
  proof (cases "g = fst r")
    case False
    with one(1) [of g u d] one(2) Cons.prems that show ?thesis by auto
  qed (use one(3) in simp)
  then have "log_mark (snd (snd (fold (ack_room now u d) rooms (m1, k1, s1)))) (g, u', d') =
      (if (u', d') = (u, d) then fold raise_to (acks_for g rooms) (log_mark s1 (g, u', d'))
       else log_mark s1 (g, u', d'))" by (intro Cons.IH) blast
  then show ?case using one(1) [of g u' d'] by (auto simp: r acks_for_def)
qed

lemma fold_raise_to:
  "ups \<noteq> [] \<Longrightarrow> fold raise_to ups m =
     Some (case m of None \<Rightarrow> Max (set ups) | Some v \<Rightarrow> max v (Max (set ups)))"
proof (induction ups arbitrary: m)
  case (Cons x ups)
  show ?case
  proof (cases "ups = []")
    case False
    with Cons.IH [of "raise_to x m"] show ?thesis
      by (auto simp: raise_to_def max.assoc split: option.splits)
  qed (simp add: raise_to_def split: option.splits)
qed simp

lemma log_mark_reader [simp]: "log_mark (mark_reader now u d s) = log_mark s"
  by (simp add: log_mark_def find_log_cursor_def mark_reader_def fun_eq_iff)

text \<open>
  An acknowledgement of the room log moves exactly the cursors it names, exactly as far as the
  furthest sequence it names for the room and never back, and no cursor of another device or
  account.
\<close>

theorem ack_log_moves_exactly:
  "log_mark (snd (ack_group_log now rooms u d s)) (gid, u', d') =
     (if (u', d') = (u, d) \<and> acks_for gid rooms \<noteq> [] then
        Some (case log_mark s (gid, u, d) of
                None \<Rightarrow> Max (set (acks_for gid rooms))
              | Some v \<Rightarrow> max v (Max (set (acks_for gid rooms))))
      else log_mark s (gid, u', d'))"
proof -
  let ?rooms = "sort_key fst rooms"
  obtain m k s' where f: "fold (ack_room now u d) ?rooms (0, known_cursors s u d (map fst rooms), s) = (m, k, s')"
    by (metis surj_pair)
  have same: "set (acks_for gid ?rooms) = set (acks_for gid rooms)" by (simp add: acks_for_def)
  then have empty: "acks_for gid ?rooms = [] \<longleftrightarrow> acks_for gid rooms = []" by (metis set_empty)
  have "\<forall>g \<in> fst ` set ?rooms. known_cursors s u d (map fst rooms) g = log_mark s (g, u, d)"
    by (auto simp: known_cursors_def log_mark_def image_iff)
  from ack_fold_marks [OF this, of now 0 gid u' d']
  have "log_mark s' (gid, u', d') =
      (if (u', d') = (u, d) then fold raise_to (acks_for gid ?rooms) (log_mark s (gid, u', d'))
       else log_mark s (gid, u', d'))" by (simp add: f)
  then show ?thesis
    using fold_raise_to [of "acks_for gid ?rooms" "log_mark s (gid, u, d)", unfolded same] empty
    by (auto simp: ack_group_log_def f)
qed

text \<open>
  The reader mark is earned by receiving, not by asking. A fetch that hands out rows leaves every
  reader mark as it was, a fetch that hands out none marks the device, and an acknowledgement
  that moves no cursor changes nothing at all.
\<close>

theorem reader_mark_earned:
  "(ans_rows (fst (fetch_group_log bucket now asked limit u d s)) \<noteq> [] \<longrightarrow>
      group_log_readers (snd (fetch_group_log bucket now asked limit u d s)) = group_log_readers s) \<and>
   (ans_rows (fst (fetch_group_log bucket now asked limit u d s)) = [] \<longrightarrow>
      reads_log (snd (fetch_group_log bucket now asked limit u d s)) u d) \<and>
   (fst (ack_group_log now rooms u d s) = 0 \<longrightarrow> snd (ack_group_log now rooms u d s) = s)"
proof (intro conjI impI)
  assume "ans_rows (fst (fetch_group_log bucket now asked limit u d s)) \<noteq> []"
  then show "group_log_readers (snd (fetch_group_log bucket now asked limit u d s)) = group_log_readers s"
    by (auto simp: fetch_group_log_def Let_def split_beta fetch_rooms_frame)
next
  assume "ans_rows (fst (fetch_group_log bucket now asked limit u d s)) = []"
  moreover have "reads_log (mark_reader now u d s') u d" for s'
    by (simp add: reads_log_def mark_reader_def list_ex_upsert)
  ultimately show "reads_log (snd (fetch_group_log bucket now asked limit u d s)) u d"
    by (simp add: fetch_group_log_def Let_def split_beta)
next
  have grows: "m \<le> fst (fold (ack_room now u d) rs (m, k, s')) \<and>
      (fst (fold (ack_room now u d) rs (m, k, s')) = m \<longrightarrow>
         snd (snd (fold (ack_room now u d) rs (m, k, s'))) = s')" for rs m k s'
  proof (induction rs arbitrary: m k s')
    case (Cons r rs)
    obtain m1 k1 s1 where r: "ack_room now u d r (m, k, s') = (m1, k1, s1)" by (metis surj_pair)
    then have "m1 = m \<and> s1 = s' \<or> m1 = m + 1"
      by (auto simp: ack_room_def split_beta split: if_splits)
    with Cons.IH [of m1 k1 s1] show ?case by (auto simp: r)
  qed simp
  assume "fst (ack_group_log now rooms u d s) = 0"
  with grows [of 0 "sort_key fst rooms" "known_cursors s u d (map fst rooms)" s]
  show "snd (ack_group_log now rooms u d s) = s" by (auto simp: ack_group_log_def split_beta)
qed

theorem reader_mark_earned_witness:
  "fst (ack_group_log 9 [(1, 1)] 7 ''phone'' log_example) = 0 \<and>
   snd (ack_group_log 9 [(1, 1)] 7 ''phone'' log_example) = log_example"
proof -
  have "fst (ack_group_log 9 [(1, 1)] 7 ''phone'' log_example) = 0"
    by (simp add: ack_group_log_def ack_room_def known_cursors_def find_log_cursor_def
        is_log_cursor_def get_row_Cons log_example_def)
  with reader_mark_earned [of "\<lambda>k. k" 9 None 50 7 "''phone''" log_example "[(1, 1)]"] show ?thesis by simp
qed

section \<open>Joining a room, room counters and races\<close>

lemma seed_fold_marks:
  assumes "\<forall>d \<in> set ds. \<forall>v. log_mark s (gid, u, d) = Some v \<longrightarrow> 0 \<le> v" and "0 \<le> head"
  shows "log_mark (fold (\<lambda>d s. snd (upsert_log_cursor now gid u d 0 head s)) ds s) (g, u', d') =
     (if (g, u') = (gid, u) \<and> d' \<in> set ds \<and> log_mark s (g, u', d') = None then Some head
      else log_mark s (g, u', d'))"
  using assms(1)
proof (induction ds arbitrary: s)
  case (Cons d ds)
  let ?s = "snd (upsert_log_cursor now gid u d 0 head s)"
  have one: "log_mark ?s (a, b, c) = (if (a, b, c) = (gid, u, d) \<and> log_mark s (a, b, c) = None
      then Some head else log_mark s (a, b, c))" for a b c
    using log_mark_upsert [of now gid u d 0 head s] log_mark_upsert_other [of "(a, b, c)" gid u d now 0 head s]
      Cons.prems assms(2)
    by (cases "(a, b, c) = (gid, u, d)") (auto simp: max_def split: option.splits)
  have "\<forall>d' \<in> set ds. \<forall>v. log_mark ?s (gid, u, d') = Some v \<longrightarrow> 0 \<le> v"
    using Cons.prems assms(2) by (auto simp: one)
  from Cons.IH [OF this] show ?case by (auto simp: one)
qed simp

text \<open>
  Joining a room loses nothing that is posted afterwards: every device of the account that reads
  the log and had no position in the room is placed at the room's head as of the join, and a
  device that already had a position keeps it.
\<close>

theorem join_seeds_at_head:
  assumes "\<forall>d v. log_mark s (gid, u, d) = Some v \<longrightarrow> 0 \<le> v" and "0 \<le> room_head s gid"
    and "reads_log s u d"
  shows "log_mark (seed_cursors_on_join now gid u s) (gid, u, d) =
     Some (case log_mark s (gid, u, d) of None \<Rightarrow> room_head s gid | Some v \<Rightarrow> v)"
proof -
  let ?ds = "map lr_device_id (filter (\<lambda>r. lr_uin r = u) (group_log_readers s))"
  have "d \<in> set ?ds" using assms(3) by (auto simp: reads_log_def list_ex_iff)
  with seed_fold_marks [of ?ds s gid u "room_head s gid" now gid u d] assms(1,2) show ?thesis
    by (auto simp: seed_cursors_on_join_def Let_def split: option.splits)
qed

theorem join_seeds_at_head_witness:
  "log_mark (seed_cursors_on_join 9 2 7 (mark_reader 3 7 ''phone'' log_example)) (2, 7, ''phone'') = Some 1"
proof -
  let ?s = "mark_reader 3 7 ''phone'' log_example"
  have none: "log_mark log_example (2, 7, d) = None" for d
    by (simp add: log_mark_def find_log_cursor_def is_log_cursor_def log_example_def get_row_Cons)
  have head: "room_head ?s 2 = 1" by (simp add: room_head_def mark_reader_def log_example_def page_example_def)
  have "reads_log ?s 7 ''phone''" by (simp add: reads_log_def mark_reader_def list_ex_upsert)
  with join_seeds_at_head [of ?s 2 7 "''phone''" 9] show ?thesis by (simp add: none head)
qed

text \<open>
  C32. Claiming a block of room sequences in one statement is the same as claiming them one by one:
  the same numbers in the same order, and the same counter afterwards for every room.
\<close>

theorem block_of_sequences_as_singles:
  "fst (next_group_seqs s gid (int n)) = map snd (fst (room_seq.take_run s (replicate n gid))) \<and>
   room_head (snd (next_group_seqs s gid (int n))) g = room_head (snd (room_seq.take_run s (replicate n gid))) g"
  by (simp add: room_seq.take_block_is_run room_seq.take_block_counter_as_run)

text \<open>
  Overlapping writers of room cursors commute: whatever order a batch of upserts lands in, every
  device of every account ends at the same position in every room.
\<close>

theorem room_cursor_upserts_commute:
  assumes "mset (map snd acks) = mset (map snd acks')"
  shows "log_mark (room_marks.ack_all s acks) = log_mark (room_marks.ack_all s acks')"
  by (rule room_marks.ack_all_order [OF assms])

theorem room_cursor_upserts_commute_witness:
  "log_mark (room_marks.ack_all log_example [(1, (1, 7, ''phone''), 2), (2, (1, 7, ''web''), 1)]) =
   log_mark (room_marks.ack_all log_example [(3, (1, 7, ''web''), 1), (4, (1, 7, ''phone''), 2)])"
  using room_cursor_upserts_commute [of "[(1, (1, 7, ''phone''), 2), (2, (1, 7, ''web''), 1)]"
      "[(3, (1, 7, ''web''), 1), (4, (1, 7, ''phone''), 2)]" log_example]
  by simp

end
