(* ===== verification/Rate_Limit.thy ===== *)
theory Rate_Limit
  imports Rcq_Prelude
begin

text \<open>
  \<open>app/core/rate_limit.py\<close>: the sliding-window script, the fixed-window cost script, the
  in-process window that stands in when Redis does not answer, and the limiters built on them.
  The clock is in microseconds, windows are in seconds as in the code. \<open>bucket\<close> is the
  keyed hash of \<open>bucket_name\<close>, \<open>decode\<close> the token decoder of the security module,
  \<open>ttl\<close> the rounding of Redis' \<open>TTL\<close> answer, and \<open>ip_version\<close>, \<open>ip_network\<close> the
  standard library's address parser. \<open>up\<close> says whether Redis answers this call.
\<close>

section \<open>State\<close>

text \<open>
  A sliding bucket is a sorted set whose members are their own scores, so a list of distinct
  instants in ascending order, with the instant its key expires. A cost counter holds the
  amount used and the instant it expires.
\<close>

record sliding_bucket =
  hits :: "datetime list"
  sb_expires :: datetime

record limiter =
  sliding :: "string \<rightharpoonup> sliding_bucket"
  cost_counters :: "string \<rightharpoonup> int \<times> datetime"
  local_hits :: "(string \<times> datetime list) list"

definition empty_limiter :: limiter where
  "empty_limiter = \<lparr>sliding = Map.empty, cost_counters = Map.empty, local_hits = []\<rparr>"

definition live_hits :: "datetime \<Rightarrow> sliding_bucket option \<Rightarrow> datetime list" where
  "live_hits now b = (case b of None \<Rightarrow> [] | Some sb \<Rightarrow> if now < sb_expires sb then hits sb else [])"

section \<open>The scripts\<close>

definition limiter_script ::
  "datetime \<Rightarrow> int \<Rightarrow> int \<Rightarrow> sliding_bucket option \<Rightarrow> (bool \<times> int) \<times> sliding_bucket option" where
  "limiter_script now window limit b =
     (let cutoff = now - seconds window;
          kept = filter (\<lambda>t. cutoff < t) (live_hits now b)
      in if limit \<le> int (length kept) then
           ((False, if kept = [] then 1 else max 1 ((hd kept + seconds window - now) div 1000000 + 1)),
            if kept = [] then None
            else Some \<lparr>hits = kept, sb_expires = (case b of None \<Rightarrow> now | Some sb \<Rightarrow> sb_expires sb)\<rparr>)
         else
           ((True, 0), Some \<lparr>hits = insort_insert now kept, sb_expires = now + seconds (window + 5)\<rparr>))"

definition cost_script ::
  "(datetime \<Rightarrow> int) \<Rightarrow> datetime \<Rightarrow> int \<Rightarrow> int \<Rightarrow> int \<Rightarrow> (int \<times> datetime) option
     \<Rightarrow> (bool \<times> int) \<times> (int \<times> datetime) option" where
  "cost_script ttl now cost limit window c =
     (let live = (case c of None \<Rightarrow> None | Some (used, until) \<Rightarrow> if now < until then Some (used, until) else None);
          used = cost + (case live of None \<Rightarrow> 0 | Some (u, _) \<Rightarrow> u);
          until = (if used = cost then now + seconds window
                   else (case live of None \<Rightarrow> now + seconds window | Some (_, t) \<Rightarrow> t))
      in ((if limit < used then (False, ttl (until - now)) else (True, 0)), Some (used, until)))"

section \<open>The in-process window\<close>

definition local_max_keys :: nat where
  "local_max_keys = 20000"

definition lookup_hits :: "string \<Rightarrow> (string \<times> datetime list) list \<Rightarrow> datetime list" where
  "lookup_hits key m = (case map_of m key of None \<Rightarrow> [] | Some hs \<Rightarrow> hs)"

definition store_hits :: "string \<Rightarrow> datetime list \<Rightarrow> (string \<times> datetime list) list \<Rightarrow> (string \<times> datetime list) list" where
  "store_hits key hs m = upsert_row (\<lambda>p. fst p = key) (key, hs) (\<lambda>p. (key, hs)) m"

datatype local_answer = Allowed | Refused int | Index_Error

definition local_window :: "int \<Rightarrow> int \<Rightarrow> datetime \<Rightarrow> datetime list \<Rightarrow> local_answer \<times> datetime list" where
  "local_window limit window now hs =
     (let kept = dropWhile (\<lambda>t. t < now - seconds window) hs
      in if limit \<le> int (length kept) then
           ((if kept = [] then Index_Error
             else Refused (max 1 ((hd kept + seconds window - now) div 1000000))), kept)
         else (Allowed, kept @ [now]))"

definition local_allow :: "string \<Rightarrow> int \<Rightarrow> int \<Rightarrow> datetime \<Rightarrow> limiter \<Rightarrow> local_answer \<times> limiter" where
  "local_allow key limit window now L =
     (let m = (if local_max_keys < length (local_hits L) then [] else local_hits L);
          (ans, hs) = local_window limit window now (lookup_hits key m)
      in (ans, L\<lparr>local_hits := store_hits key hs m\<rparr>))"

section \<open>Enforcement\<close>

definition rate_limited :: "int \<Rightarrow> http_error" where
  "rate_limited retry = HttpError 429 ''rate_limited'' (Some retry)"

definition local_outcome :: "local_answer \<Rightarrow> unit outcome" where
  "local_outcome a = (case a of Allowed \<Rightarrow> Inr () | Refused r \<Rightarrow> Inl (rate_limited r)
     | Index_Error \<Rightarrow> Inl (HttpError 500 ''internal_error'' None))"

definition run_limiter :: "string \<Rightarrow> int \<Rightarrow> int \<Rightarrow> datetime \<Rightarrow> limiter \<Rightarrow> (bool \<times> int) \<times> limiter" where
  "run_limiter key limit window now L =
     (case limiter_script now window limit (sliding L key) of (ans, b) \<Rightarrow>
        (ans, L\<lparr>sliding := (sliding L)(key := b)\<rparr>))"

definition limit_key :: "(string \<Rightarrow> string) \<Rightarrow> string \<Rightarrow> string \<Rightarrow> string" where
  "limit_key bucket rule identity = ''rl:'' @ rule @ '':'' @ bucket identity"

definition enforce_rate_limit ::
  "(string \<Rightarrow> string) \<Rightarrow> bool \<Rightarrow> string \<Rightarrow> string \<Rightarrow> int \<Rightarrow> int \<Rightarrow> bool \<Rightarrow> datetime \<Rightarrow> limiter
     \<Rightarrow> unit outcome \<times> limiter" where
  "enforce_rate_limit bucket up identity rule limit window fail_closed now L =
     (let key = limit_key bucket rule identity
      in if up then
           (case run_limiter key limit window now L of ((accepted, retry), L') \<Rightarrow>
              (if accepted then Inr () else Inl (rate_limited retry), L'))
         else if \<not> fail_closed then (Inr (), L)
         else (case local_allow key limit window now L of (ans, L') \<Rightarrow> (local_outcome ans, L')))"

definition enforce_cost_budget ::
  "(string \<Rightarrow> string) \<Rightarrow> (datetime \<Rightarrow> int) \<Rightarrow> bool \<Rightarrow> string \<Rightarrow> string \<Rightarrow> int \<Rightarrow> int \<Rightarrow> int \<Rightarrow> datetime
     \<Rightarrow> limiter \<Rightarrow> unit outcome \<times> limiter" where
  "enforce_cost_budget bucket ttl up identity rule cost limit window now L =
     (if cost \<le> 0 \<or> \<not> up then (Inr (), L)
      else
        let key = ''rlc:'' @ rule @ '':'' @ bucket identity;
            (ans, c) = cost_script ttl now cost limit window (cost_counters L key);
            L' = L\<lparr>cost_counters := (cost_counters L)(key := c)\<rparr>
        in (if fst ans then Inr ()
            else Inl (HttpError 429 ''fanout_budget_exhausted'' (Some (snd ans))), L'))"

section \<open>Identities\<close>

definition py_space :: "char \<Rightarrow> bool" where
  "py_space c = (let n = of_char c :: nat in (9 \<le> n \<and> n \<le> 13) \<or> (28 \<le> n \<and> n \<le> 32) \<or> n = 133 \<or> n = 160)"

definition strip :: "string \<Rightarrow> string" where
  "strip s = rev (dropWhile py_space (rev (dropWhile py_space s)))"

definition client_ip :: "string option \<Rightarrow> string option \<Rightarrow> string" where
  "client_ip xff peer =
     (case xff of
        Some (c # cs) \<Rightarrow> strip (takeWhile (\<lambda>x. x \<noteq> CHR '','') (c # cs))
      | _ \<Rightarrow> (case peer of None \<Rightarrow> ''unknown'' | Some host \<Rightarrow> host))"

definition identity_of ::
  "(string \<Rightarrow> uin option) \<Rightarrow> string option \<Rightarrow> string option \<Rightarrow> string option \<Rightarrow> string" where
  "identity_of decode creds xff peer =
     (case (case creds of None \<Rightarrow> None | Some token \<Rightarrow> decode token) of
        Some u \<Rightarrow> ''uin:'' @ show_int u
      | None \<Rightarrow> ''ip:'' @ client_ip xff peer)"

definition subnet_of :: "(string \<Rightarrow> nat option) \<Rightarrow> (string \<Rightarrow> nat \<Rightarrow> string) \<Rightarrow> string \<Rightarrow> string" where
  "subnet_of ip_version ip_network ip =
     (case ip_version ip of
        None \<Rightarrow> ip
      | Some v \<Rightarrow> if v = 4 then ip_network ip 24 @ ''/24'' else ip_network ip 64 @ ''/64'')"

definition rate_limit_identity ::
  "(string \<Rightarrow> nat option) \<Rightarrow> (string \<Rightarrow> nat \<Rightarrow> string) \<Rightarrow> bool \<Rightarrow> string \<Rightarrow> string" where
  "rate_limit_identity ip_version ip_network by_subnet identity =
     (if by_subnet \<and> take 3 identity = ''ip:'' then
        ''net:'' @ subnet_of ip_version ip_network (drop 3 identity)
      else identity)"

definition rate_limit ::
  "(string \<Rightarrow> string) \<Rightarrow> (string \<Rightarrow> nat option) \<Rightarrow> (string \<Rightarrow> nat \<Rightarrow> string) \<Rightarrow> bool \<Rightarrow> string \<Rightarrow> int \<Rightarrow> int
     \<Rightarrow> bool \<Rightarrow> bool \<Rightarrow> string \<Rightarrow> datetime \<Rightarrow> limiter \<Rightarrow> unit outcome \<times> limiter" where
  "rate_limit bucket ip_version ip_network up rule limit window fail_closed by_subnet identity now L =
     enforce_rate_limit bucket up (rate_limit_identity ip_version ip_network by_subnet identity)
       rule limit window fail_closed now L"

section \<open>The island ceiling and the socket ceiling\<close>

definition ceiling_key :: "string \<Rightarrow> int \<Rightarrow> string" where
  "ceiling_key rule window = ''rl:ceiling:'' @ rule @ '':'' @ show_int window"

definition island_busy :: "int \<Rightarrow> http_error" where
  "island_busy retry = HttpError 503 ''island_busy'' (Some retry)"

definition ceiling_window :: "bool \<Rightarrow> string \<Rightarrow> int \<Rightarrow> int \<Rightarrow> datetime \<Rightarrow> limiter \<Rightarrow> unit outcome \<times> limiter" where
  "ceiling_window up rule window limit now L =
     (let key = ceiling_key rule window
      in if up then
           (case run_limiter key limit window now L of ((accepted, retry), L') \<Rightarrow>
              (if accepted then Inr () else Inl (island_busy retry), L'))
         else
           (case local_allow key limit window now L of (ans, L') \<Rightarrow>
              (case ans of
                 Allowed \<Rightarrow> (Inr (), L')
               | Refused r \<Rightarrow> (Inl (island_busy r), L')
               | Index_Error \<Rightarrow> (Inl (HttpError 500 ''internal_error'' None), L'))))"

definition island_ceiling ::
  "bool \<times> bool \<Rightarrow> string \<Rightarrow> int \<Rightarrow> int \<Rightarrow> datetime \<Rightarrow> limiter \<Rightarrow> unit outcome \<times> limiter" where
  "island_ceiling up rule per_minute per_hour now L =
     (case ceiling_window (fst up) rule 60 per_minute now L of
        (Inl e, L') \<Rightarrow> (Inl e, L')
      | (Inr _, L') \<Rightarrow> ceiling_window (snd up) rule 3600 per_hour now L')"

definition ws_connects_per_min :: int where
  "ws_connects_per_min = 12"

definition allow_ws_connect ::
  "(string \<Rightarrow> string) \<Rightarrow> (datetime \<Rightarrow> int) \<Rightarrow> bool \<Rightarrow> uin \<Rightarrow> datetime \<Rightarrow> limiter \<Rightarrow> bool \<times> limiter" where
  "allow_ws_connect bucket ttl up u now L =
     (if \<not> up then (True, L)
      else
        let key = ''wsrate:'' @ bucket (''uin:'' @ show_int u);
            (ans, c) = cost_script ttl now 1 ws_connects_per_min 60 (cost_counters L key)
        in (fst ans, L\<lparr>cost_counters := (cost_counters L)(key := c)\<rparr>))"

end
