(* ===== verification/Limiter_Windows.thy ===== *)
theory Limiter_Windows
  imports Rate_Limit "HOL-Library.Sublist"
begin

text \<open>
  What the windows of \<open>app/core/rate_limit.py\<close> bound: how many calls any window admits, with and
  without Redis, what \<open>Retry-After\<close> promises, and where the promise is not kept.
\<close>

section \<open>The sliding window\<close>

fun limiter_run :: "int \<Rightarrow> int \<Rightarrow> datetime list \<Rightarrow> sliding_bucket option \<Rightarrow> datetime list \<times> sliding_bucket option" where
  "limiter_run window limit [] b = ([], b)"
| "limiter_run window limit (t # ts) b =
     (let (ans, b') = limiter_script t window limit b;
          (acc, b'') = limiter_run window limit ts b'
      in (if fst ans then t # acc else acc, b''))"

text \<open>
  The bucket after the calls up to \<open>last\<close> that admitted \<open>H\<close>: it holds only admitted
  instants, all of those still in the window, and its key outlives each of them.
\<close>

definition bucket_ok :: "int \<Rightarrow> datetime \<Rightarrow> datetime set \<Rightarrow> sliding_bucket option \<Rightarrow> bool" where
  "bucket_ok window last' H b \<longleftrightarrow> finite H \<and> (\<forall>x \<in> H. x \<le> last') \<and>
     (case b of
        None \<Rightarrow> \<forall>x \<in> H. x \<le> last' - seconds window
      | Some sb \<Rightarrow> sorted (hits sb) \<and> distinct (hits sb) \<and> set (hits sb) \<subseteq> H \<and>
          {x \<in> H. last' - seconds window < x} \<subseteq> set (hits sb) \<and>
          (\<forall>x \<in> H. x + seconds window < sb_expires sb))"

definition window_ok :: "int \<Rightarrow> int \<Rightarrow> datetime set \<Rightarrow> bool" where
  "window_ok window limit H \<longleftrightarrow>
     (\<forall>t. int (card {x \<in> H. t - seconds window < x \<and> x \<le> t}) \<le> limit)"

lemma kept_hits:
  assumes "bucket_ok window last' H b" and "last' \<le> now"
  defines "kept \<equiv> filter (\<lambda>t. now - seconds window < t) (live_hits now b)"
  shows "set kept = {x \<in> H. now - seconds window < x}" "sorted kept" "distinct kept"
    "int (length kept) = int (card {x \<in> H. now - seconds window < x})"
proof -
  show set: "set kept = {x \<in> H. now - seconds window < x}"
  proof (cases b)
    case None
    with assms show ?thesis by (fastforce simp: bucket_ok_def live_hits_def)
  next
    case (Some sb)
    show ?thesis
    proof (cases "now < sb_expires sb")
      case True
      with Some assms show ?thesis by (fastforce simp: bucket_ok_def live_hits_def)
    next
      case False
      with Some assms show ?thesis by (fastforce simp: bucket_ok_def live_hits_def)
    qed
  qed
  show "sorted kept" and dist: "distinct kept"
    using assms by (auto simp: bucket_ok_def live_hits_def sorted_filter [where f = id, simplified] split: option.splits)
  show "int (length kept) = int (card {x \<in> H. now - seconds window < x})"
    using dist by (simp add: set [symmetric] distinct_card)
qed

lemma script_step:
  assumes "bucket_ok window last' H b" and "last' \<le> now" and "window_ok window limit H"
    and "limiter_script now window limit b = (ans, b')"
  shows "bucket_ok window now (if fst ans then insert now H else H) b'"
    and "window_ok window limit (if fst ans then insert now H else H)"
proof -
  let ?kept = "filter (\<lambda>t. now - seconds window < t) (live_hits now b)"
  note kept = kept_hits [OF assms(1,2)]
  have H: "finite H" "\<forall>x \<in> H. x \<le> now" using assms(1,2) by (auto simp: bucket_ok_def)
  show "bucket_ok window now (if fst ans then insert now H else H) b'"
  proof (cases "fst ans")
    case True
    then have b': "b' = Some \<lparr>hits = insort_insert now ?kept, sb_expires = now + seconds (window + 5)\<rparr>"
      using assms(4) by (auto simp: limiter_script_def Let_def split: if_splits)
    have "set (insort_insert now ?kept) = insert now (set ?kept)" by (simp add: set_insort_insert)
    with True H kept show ?thesis
      by (auto simp: b' bucket_ok_def sorted_insort_insert distinct_insort_insert)
  next
    case False
    show ?thesis
    proof (cases "?kept = []")
      case True
      then have "b' = None" using assms(4) False by (auto simp: limiter_script_def Let_def split: if_splits)
      moreover have "{x \<in> H. now - seconds window < x} = {}" using kept(1) True by simp
      ultimately show ?thesis using False H by (auto simp: bucket_ok_def)
    next
      case kept_ne: False
      then obtain sb where b: "b = Some sb" by (cases b) (auto simp: live_hits_def)
      have "b' = Some \<lparr>hits = ?kept, sb_expires = sb_expires sb\<rparr>"
        using assms(4) False kept_ne by (auto simp: limiter_script_def Let_def b split: if_splits)
      then show ?thesis using False H kept assms(1) by (auto simp: bucket_ok_def b)
    qed
  qed
  show "window_ok window limit (if fst ans then insert now H else H)"
  proof (cases "fst ans")
    case True
    then have "int (length ?kept) < limit"
      using assms(4) by (auto simp: limiter_script_def Let_def split: if_splits)
    then have room: "int (card {x \<in> H. now - seconds window < x}) < limit" using kept(4) by simp
    have "int (card {x \<in> insert now H. t - seconds window < x \<and> x \<le> t}) \<le> limit" for t
    proof (cases "t < now")
      case True
      then have "{x \<in> insert now H. t - seconds window < x \<and> x \<le> t} =
          {x \<in> H. t - seconds window < x \<and> x \<le> t}" by auto
      with assms(3) show ?thesis by (simp add: window_ok_def)
    next
      case False
      then have "{x \<in> insert now H. t - seconds window < x \<and> x \<le> t} \<subseteq>
          insert now {x \<in> H. now - seconds window < x}" by auto
      moreover have fin: "finite {x \<in> H. now - seconds window < x}" using H by simp
      ultimately have "card {x \<in> insert now H. t - seconds window < x \<and> x \<le> t} \<le>
          card (insert now {x \<in> H. now - seconds window < x})"
        by (intro card_mono) simp_all
      also have "\<dots> \<le> Suc (card {x \<in> H. now - seconds window < x})"
        using fin by (simp add: card_insert_if)
      finally show ?thesis using room by linarith
    qed
    with True show ?thesis by (simp add: window_ok_def)
  next
    case False
    with assms(3) show ?thesis by simp
  qed
qed

lemma limiter_run_ok:
  assumes "bucket_ok window last' H b" and "window_ok window limit H" and "sorted (last' # ts)"
    and "limiter_run window limit ts b = (acc, b')"
  shows "bucket_ok window (last (last' # ts)) (H \<union> set acc) b' \<and> window_ok window limit (H \<union> set acc)"
  using assms
proof (induction ts arbitrary: last' H b acc b')
  case (Cons t ts)
  obtain ans b1 where step: "limiter_script t window limit b = (ans, b1)" by fastforce
  obtain acc1 b2 where run2: "limiter_run window limit ts b1 = (acc1, b2)" by fastforce
  then have run: "limiter_run window limit ts b1 = (acc1, b')"
      and acc: "acc = (if fst ans then t # acc1 else acc1)"
    using Cons.prems(4) by (auto simp: step)
  have le: "last' \<le> t" using Cons.prems(3) by simp
  let ?H = "if fst ans then insert t H else H"
  have "bucket_ok window (last (t # ts)) (?H \<union> set acc1) b' \<and> window_ok window limit (?H \<union> set acc1)"
    using Cons.IH [OF script_step [OF Cons.prems(1) le Cons.prems(2) step] _ run] Cons.prems(3) by simp
  moreover have "?H \<union> set acc1 = H \<union> set acc" by (simp add: acc)
  ultimately show ?case by simp
qed simp

lemma limiter_run_fresh:
  assumes "sorted ts" and "0 \<le> limit" and "limiter_run window limit ts None = (acc, b)"
  shows "window_ok window limit (set acc)"
    and "\<forall>t \<in> set ts. t \<le> now \<Longrightarrow> \<exists>last'. last' \<le> now \<and> bucket_ok window last' (set acc) b"
proof -
  have zero: "bucket_ok window t {} None" "window_ok window limit {}" for t
    using assms(2) by (simp_all add: bucket_ok_def window_ok_def)
  have run: "bucket_ok window (last (t # ts)) (set acc) b \<and> window_ok window limit (set acc)"
    if "\<forall>x \<in> set ts. t \<le> x" for t
    using limiter_run_ok [OF zero(1) zero(2) _ assms(3), of t] assms(1) that by simp
  show "window_ok window limit (set acc)"
  proof (cases ts)
    case (Cons t ts')
    then show ?thesis using run [of t] assms(1) by auto
  qed (use assms(3) zero in simp)
  assume le: "\<forall>t \<in> set ts. t \<le> now"
  show "\<exists>last'. last' \<le> now \<and> bucket_ok window last' (set acc) b"
  proof (cases ts)
    case Nil
    then show ?thesis using assms(3) zero(1) [of now] by auto
  next
    case (Cons t ts')
    then have "last ts \<le> now" using le last_in_set [of ts] by blast
    then show ?thesis using run [of t] assms(1) Cons by auto
  qed
qed

lemma limiter_run_subseq: "limiter_run window limit ts b = (acc, b') \<Longrightarrow> subseq acc ts"
proof (induction ts arbitrary: b acc)
  case (Cons t ts)
  then show ?case by (force simp: split_beta split: if_splits)
qed simp

text \<open>
  C24. No window admits more than the limit. Over any run of calls at increasing instants on a fresh
  bucket, the calls admitted within any window of the rule's length number at most the limit.
\<close>

theorem limiter_window_bound:
  assumes "sorted_wrt (<) ts" and "0 \<le> limit"
    and "limiter_run window limit ts None = (acc, b)"
  shows "int (length (filter (\<lambda>x. t - seconds window < x \<and> x \<le> t) acc)) \<le> limit"
proof -
  have "distinct acc"
    using limiter_run_subseq [OF assms(3)] assms(1) by (auto simp: strict_sorted_iff subseq_conv_nths)
  then have "length (filter (\<lambda>x. t - seconds window < x \<and> x \<le> t) acc) =
      card {x \<in> set acc. t - seconds window < x \<and> x \<le> t}"
    by (intro length_filter_le_card) simp
  moreover have "window_ok window limit (set acc)"
    using limiter_run_fresh(1) [OF _ assms(2,3)] assms(1) by (simp add: strict_sorted_iff)
  ultimately show ?thesis by (simp add: window_ok_def)
qed

theorem limiter_window_bound_witness:
  "fst (limiter_run 60 2 [0, 1, 2, seconds 61] None) = [0, 1, seconds 61] \<and>
   int (length (filter (\<lambda>x. seconds 61 - seconds 60 < x \<and> x \<le> seconds 61)
     (fst (limiter_run 60 2 [0, 1, 2, seconds 61] None)))) \<le> 2"
proof -
  have "fst (limiter_run 60 2 [0, 1, 2, seconds 61] None) = [0, 1, seconds 61]" by code_simp
  moreover have "int (length (filter (\<lambda>x. seconds 61 - seconds 60 < x \<and> x \<le> seconds 61)
     (fst (limiter_run 60 2 [0, 1, 2, seconds 61] None)))) \<le> 2"
    by (rule limiter_window_bound [of "[0, 1, 2, seconds 61]" 2 60 _
          "snd (limiter_run 60 2 [0, 1, 2, seconds 61] None)"]) simp_all
  ultimately show ?thesis by blast
qed

text \<open>The whole seconds of the answer reach past the instant the oldest admission leaves the window.\<close>

lemma retry_passes:
  fixes first now w r :: int
  assumes "r = max 1 ((first + seconds w - now) div 1000000 + 1)"
  shows "first \<le> now + seconds r - seconds w"
proof -
  let ?x = "first + seconds w - now"
  have "?x div 1000000 * 1000000 + ?x mod 1000000 = ?x" by (rule div_mult_mod_eq)
  moreover have "?x mod 1000000 < 1000000" by (rule pos_mod_bound) simp
  moreover have "?x div 1000000 + 1 \<le> r" unfolding assms by (rule max.cobounded2)
  ultimately show ?thesis by linarith
qed

lemma card_smaller_without:
  assumes "A \<subseteq> set xs - {x}" "x \<in> set xs"
  shows "card A < card (set xs)"
proof -
  have "card A \<le> card (set xs - {x})" by (rule card_mono [OF _ assms(1)]) (rule finite_Diff, rule finite_set)
  also have "\<dots> < card (set xs)" by (rule card_Diff1_less [OF finite_set assms(2)])
  finally show ?thesis .
qed

text \<open>
  Retry-After is honoured. A caller refused by the shared window and told to come back in r seconds
  is admitted when it does, if nobody was admitted to the bucket in between.
\<close>

theorem retry_after_admits:
  assumes "sorted ts" and "0 < limit" and "\<forall>t \<in> set ts. t \<le> now"
    and "limiter_run window limit ts None = (acc, b)"
    and "limiter_script now window limit b = ((False, r), b')"
  shows "fst (fst (limiter_script (now + seconds r) window limit b'))"
proof -
  have lim: "0 \<le> limit" using assms(2) by simp
  obtain last' where le: "last' \<le> now" and ok: "bucket_ok window last' (set acc) b"
    using limiter_run_fresh(2) [OF assms(1) lim assms(4,3)] by blast
  have wok: "window_ok window limit (set acc)" by (rule limiter_run_fresh(1) [OF assms(1) lim assms(4)])
  let ?kept = "filter (\<lambda>t. now - seconds window < t) (live_hits now b)"
  note kept = kept_hits [OF ok le]
  have bound: "\<forall>x \<in> set acc. x \<le> now" using ok le by (auto simp: bucket_ok_def)
  have full: "limit \<le> int (length ?kept)"
    using assms(5) by (auto simp: limiter_script_def Let_def split: if_splits)
  then have ne: "?kept \<noteq> []" using assms(2) by auto
  have r: "r = max 1 ((hd ?kept + seconds window - now) div 1000000 + 1)"
    using assms(5) ne by (auto simp: limiter_script_def Let_def split: if_splits)
  let ?later = "now + seconds r"
  have gone: "hd ?kept \<le> ?later - seconds window" by (rule retry_passes [OF r])
  have r1: "1 \<le> r" unfolding r by simp
  have step: "bucket_ok window now (set acc) b'"
    using script_step(1) [OF ok le wok assms(5)] by simp
  have le': "now \<le> ?later" using r1 by simp
  let ?kept' = "filter (\<lambda>t. ?later - seconds window < t) (live_hits ?later b')"
  note kept' = kept_hits [OF step le']
  have sub: "{x \<in> set acc. ?later - seconds window < x} \<subseteq> set ?kept - {hd ?kept}"
  proof
    fix x
    assume x: "x \<in> {x \<in> set acc. ?later - seconds window < x}"
    then have "x \<in> set ?kept" unfolding kept(1) using le' by simp
    moreover have "x \<noteq> hd ?kept" using gone x by auto
    ultimately show "x \<in> set ?kept - {hd ?kept}" by blast
  qed
  have fewer: "card {x \<in> set acc. ?later - seconds window < x} < card (set ?kept)"
    by (rule card_smaller_without [OF sub hd_in_set [OF ne]])
  have "{x \<in> set acc. now - seconds window < x} = {x \<in> set acc. now - seconds window < x \<and> x \<le> now}"
    using bound by blast
  then have "int (card (set ?kept)) \<le> limit" using wok unfolding kept(1) window_ok_def by simp
  with fewer kept'(4) have "int (length ?kept') < limit" by linarith
  then show ?thesis by (simp add: limiter_script_def Let_def)
qed

theorem retry_after_admits_witness:
  "\<exists>r b'. limiter_script 10 60 1 (snd (limiter_run 60 1 [0] None)) = ((False, r), b') \<and>
     fst (fst (limiter_script (10 + seconds r) 60 1 b'))"
proof -
  have refused: "\<not> fst (fst (limiter_script 10 60 1 (snd (limiter_run 60 1 [0] None))))" by code_simp
  obtain ok r b' where step: "limiter_script 10 60 1 (snd (limiter_run 60 1 [0] None)) = ((ok, r), b')"
    by (metis surj_pair)
  with refused have "\<not> ok" by simp
  with step have step: "limiter_script 10 60 1 (snd (limiter_run 60 1 [0] None)) = ((False, r), b')" by simp
  have "fst (fst (limiter_script (10 + seconds r) 60 1 b'))"
    by (rule retry_after_admits [OF _ _ _ _ step, of "[0]" "fst (limiter_run 60 1 [0] None)"]) simp_all
  with step show ?thesis by blast
qed



section \<open>The window in the process\<close>

fun local_run :: "int \<Rightarrow> int \<Rightarrow> datetime list \<Rightarrow> datetime list \<Rightarrow> datetime list \<times> datetime list" where
  "local_run limit window [] hs = ([], hs)"
| "local_run limit window (t # ts) hs =
     (let (ans, hs') = local_window limit window t hs;
          (acc, hs'') = local_run limit window ts hs'
      in (if ans = Allowed then t # acc else acc, hs''))"

text \<open>The deque is the tail of the admitted instants that are still in the window.\<close>

definition deque_ok :: "int \<Rightarrow> int \<Rightarrow> datetime \<Rightarrow> datetime list \<Rightarrow> datetime list \<Rightarrow> bool" where
  "deque_ok limit window last' acc hs \<longleftrightarrow> sorted acc \<and> (\<forall>x \<in> set acc. x \<le> last') \<and>
     (\<exists>old. acc = old @ hs \<and> (\<forall>x \<in> set old. x < last' - seconds window)) \<and>
     (\<forall>t. int (length (filter (\<lambda>x. t - seconds window \<le> x \<and> x \<le> t) acc)) \<le> limit)"

lemma deque_okI:
  assumes "acc = old @ hs" and "\<forall>x \<in> set old. x < last' - seconds window"
    and "sorted acc" and "\<forall>x \<in> set acc. x \<le> last'"
    and "\<And>t. int (length (filter (\<lambda>x. t - seconds window \<le> x \<and> x \<le> t) acc)) \<le> limit"
  shows "deque_ok limit window last' acc hs"
  unfolding deque_ok_def using assms by blast

lemma sorted_dropWhile_less:
  fixes c :: int
  shows "sorted xs \<Longrightarrow> dropWhile (\<lambda>t. t < c) xs = filter (\<lambda>t. c \<le> t) xs"
proof (induction xs)
  case (Cons x xs)
  show ?case
  proof (cases "x < c")
    case False
    then have "\<forall>y \<in> set xs. c \<le> y" using Cons.prems by auto
    with False show ?thesis by simp
  qed (use Cons in simp)
qed simp

lemma length_filter_le_filter:
  "(\<And>x. x \<in> set xs \<Longrightarrow> P x \<Longrightarrow> Q x) \<Longrightarrow> length (filter P xs) \<le> length (filter Q xs)"
  by (induction xs) (auto simp: le_SucI)

lemma local_step:
  assumes "deque_ok limit window last' acc hs" and "last' \<le> now"
    and "local_window limit window now hs = (ans, hs')"
  shows "deque_ok limit window now (if ans = Allowed then acc @ [now] else acc) hs'"
proof -
  from assms(1) obtain old where old: "acc = old @ hs" "\<forall>x \<in> set old. x < last' - seconds window"
      and acc: "sorted acc" "\<forall>x \<in> set acc. x \<le> last'"
      and bound: "int (length (filter (\<lambda>x. t - seconds window \<le> x \<and> x \<le> t) acc)) \<le> limit" for t
    by (auto simp: deque_ok_def)
  let ?kept = "dropWhile (\<lambda>t. t < now - seconds window) hs"
  let ?gone = "takeWhile (\<lambda>t. t < now - seconds window) hs"
  have split: "acc = (old @ ?gone) @ ?kept" using old(1) by simp
  have gone: "\<forall>x \<in> set (old @ ?gone). x < now - seconds window"
    using old(2) assms(2) by (auto dest: set_takeWhileD)
  have kept: "?kept = filter (\<lambda>t. now - seconds window \<le> t) hs"
    by (rule sorted_dropWhile_less) (use acc(1) old(1) in \<open>simp add: sorted_append\<close>)
  have count: "length (filter (\<lambda>t. now - seconds window \<le> t) acc) = length ?kept"
    using old assms(2) by (auto simp: kept filter_empty_conv)
  have le: "\<forall>x \<in> set acc. x \<le> now" using acc(2) assms(2) by auto
  show ?thesis
  proof (cases "ans = Allowed")
    case True
    then have hs': "hs' = ?kept @ [now]" and room: "int (length ?kept) < limit"
      using assms(3) by (auto simp: local_window_def Let_def split: if_splits)
    have within: "int (length (filter (\<lambda>x. t - seconds window \<le> x \<and> x \<le> t) (acc @ [now]))) \<le> limit" for t
    proof (cases "t < now")
      case True
      with bound [of t] show ?thesis by simp
    next
      case False
      then have "length (filter (\<lambda>x. t - seconds window \<le> x \<and> x \<le> t) acc) \<le>
          length (filter (\<lambda>t. now - seconds window \<le> t) acc)"
        by (intro length_filter_le_filter) auto
      with room count show ?thesis by simp
    qed
    have "deque_ok limit window now (acc @ [now]) (?kept @ [now])"
    proof (rule deque_okI [OF _ gone _ _ within])
      show "acc @ [now] = (old @ ?gone) @ ?kept @ [now]" using split by simp
      show "sorted (acc @ [now])" using acc(1) le by (simp add: sorted_append)
    qed (use le in simp)
    with True hs' show ?thesis by simp
  next
    case False
    then have "hs' = ?kept" using assms(3) by (auto simp: local_window_def Let_def split: if_splits)
    moreover have "deque_ok limit window now acc ?kept" by (rule deque_okI [OF split gone acc(1) le bound])
    ultimately show ?thesis using False by simp
  qed
qed

lemma local_run_ok:
  assumes "deque_ok limit window last' acc0 hs" and "sorted (last' # ts)"
    and "local_run limit window ts hs = (acc, hs')"
  shows "deque_ok limit window (last (last' # ts)) (acc0 @ acc) hs'"
  using assms
proof (induction ts arbitrary: last' acc0 hs acc hs')
  case (Cons t ts)
  obtain ans hs1 where step: "local_window limit window t hs = (ans, hs1)" by fastforce
  obtain acc1 hs2 where run: "local_run limit window ts hs1 = (acc1, hs2)" by fastforce
  let ?acc0 = "if ans = Allowed then acc0 @ [t] else acc0"
  have "deque_ok limit window t ?acc0 hs1" using local_step [OF Cons.prems(1) _ step] Cons.prems(2) by simp
  from Cons.IH [OF this _ run] Cons.prems(2,3) show ?case by (auto simp: step run split: if_splits)
qed simp

text \<open>
  A fail-closed rule keeps a cap without Redis. Over any run of calls in one process, at instants
  that never go back, the calls admitted within any window of the rule's length number at most
  the limit, calls at the same instant included.
\<close>

theorem local_window_bound:
  assumes "sorted ts" and "0 \<le> limit" and "local_run limit window ts [] = (acc, hs)"
  shows "int (length (filter (\<lambda>x. t - seconds window \<le> x \<and> x \<le> t) acc)) \<le> limit"
proof (cases ts)
  case Nil
  with assms(2,3) show ?thesis by simp
next
  case (Cons t0 ts')
  have "deque_ok limit window t0 [] []" using assms(2) by (simp add: deque_ok_def)
  from local_run_ok [OF this _ assms(3)] show ?thesis using assms(1) Cons by (simp add: deque_ok_def)
qed

theorem local_window_bound_witness:
  "int (length (filter (\<lambda>x. 5 - seconds 60 \<le> x \<and> x \<le> 5) (fst (local_run 2 60 [3, 3, 3, 5] [])))) \<le> 2 \<and>
   fst (local_run 2 60 [3, 3, 3, 5] []) = [3, 3]"
proof -
  have "fst (local_run 2 60 [3, 3, 3, 5] []) = [3, 3]" by code_simp
  moreover have "int (length (filter (\<lambda>x. 5 - seconds 60 \<le> x \<and> x \<le> 5)
      (fst (local_run 2 60 [3, 3, 3, 5] [])))) \<le> 2"
    by (rule local_window_bound [of "[3, 3, 3, 5]" 2 60 _ "snd (local_run 2 60 [3, 3, 3, 5] [])"]) simp_all
  ultimately show ?thesis by blast
qed

text \<open>
  Without Redis the Retry-After answer can be too early: the in-process window truncates the wait
  where the shared one rounds it up. A caller refused half a second into a two-second window is
  told one second, comes back after that second, and is refused again.
\<close>

theorem local_retry_too_early:
  "let (first, hs) = local_window 1 2 0 [];
       (second, hs') = local_window 1 2 500000 hs
   in first = Allowed \<and> second = Refused 1 \<and>
      fst (local_window 1 2 (500000 + seconds 1) hs') \<noteq> Allowed"
  by code_simp

section \<open>Fixed-window costs\<close>

fun cost_run :: "(datetime \<Rightarrow> int) \<Rightarrow> int \<Rightarrow> int \<Rightarrow> (datetime \<times> int) list \<Rightarrow> (int \<times> datetime) option
    \<Rightarrow> (datetime \<times> int) list" where
  "cost_run ttl limit window [] c = []"
| "cost_run ttl limit window ((t, cost) # calls) c =
     (let (ans, c') = cost_script ttl t cost limit window c
      in if fst ans then (t, cost) # cost_run ttl limit window calls c' else cost_run ttl limit window calls c')"

lemma cost_run_calls: "p \<in> set (cost_run ttl limit window calls c) \<Longrightarrow> p \<in> set calls"
proof (induction calls arbitrary: c)
  case (Cons call calls)
  then show ?case by (cases call) (auto simp: Let_def split: prod.splits if_splits)
qed simp

lemma cost_run_within:
  assumes "\<forall>(t, cost) \<in> set calls. 0 < cost \<and> t < until" and "0 < used"
  shows "used + sum_list (map snd (cost_run ttl limit window calls (Some (used, until)))) \<le> max used limit"
  using assms
proof (induction calls arbitrary: used)
  case (Cons call calls)
  obtain t cost where call: "call = (t, cost)" by (cases call)
  have pos: "0 < cost" "t < until" using Cons.prems(1) by (auto simp: call)
  have script: "cost_script ttl t cost limit window (Some (used, until)) =
      ((if limit < cost + used then (False, ttl (until - t)) else (True, 0)), Some (cost + used, until))"
    using pos Cons.prems(2) by (simp add: cost_script_def Let_def)
  have "cost + used + sum_list (map snd (cost_run ttl limit window calls (Some (cost + used, until)))) \<le>
      max (cost + used) limit"
    by (rule Cons.IH) (use Cons.prems pos in auto)
  moreover have "0 \<le> sum_list (map snd (cost_run ttl limit window calls (Some (cost + used, until))))"
    if "limit < cost + used"
    by (rule sum_list_nonneg) (use cost_run_calls Cons.prems(1) in fastforce)
  ultimately show ?case using pos by (auto simp: call script)
qed simp

text \<open>
  A cost budget bounds the work one caller is granted: within one window the recipients of all the
  fan-outs admitted for an identity add up to at most its allowance, however the calls are sized.
\<close>

theorem cost_budget_bound:
  assumes "\<forall>(t, cost) \<in> set calls. 0 < cost \<and> start \<le> t \<and> t < start + seconds window"
    and "0 < first" and "0 \<le> limit" and "0 < window"
  shows "sum_list (map snd (cost_run ttl limit window ((start, first) # calls) None)) \<le> limit"
proof -
  have script: "cost_script ttl start first limit window None =
      ((if limit < first then (False, ttl (seconds window)) else (True, 0)), Some (first, start + seconds window))"
    by (simp add: cost_script_def Let_def)
  have "first + sum_list (map snd (cost_run ttl limit window calls (Some (first, start + seconds window)))) \<le>
      max first limit"
    by (rule cost_run_within) (use assms in auto)
  then show ?thesis using assms(2,3) by (auto simp: script)
qed

theorem cost_budget_bound_witness:
  "sum_list (map snd (cost_run (\<lambda>d. d div 1000000) 10 60 [(0, 6), (1, 5), (2, 4)] None)) \<le> 10"
  using cost_budget_bound [of "[(1, 5), (2, 4)]" 0 60 6 10 "\<lambda>d. d div 1000000"] by simp

end
