(* ===== verification/Cluster.thy ===== *)
theory Cluster
  imports Rcq_Prelude
begin

text \<open>
  \<open>app/services/connection_manager.py\<close> and \<open>app/services/presence_sweep.py\<close>: the sockets
  each worker process holds, the Redis presence keys, and the one pub/sub channel every worker
  reads in order. The set \<open>_conns[uin]\<close> is never empty while its key is present, so one table
  of (account, socket) pairs stands for the dictionary. What the manager does to the outside
  (frames written to sockets, sockets it starts to close) is kept as two logs. \<open>up\<close> says
  whether Redis answers the operation, \<open>me\<close> names the worker that runs it. Every worker is
  subscribed: the reconnecting loop and its watchdog are not modelled. The per-account device
  keys are named by the account here, by its keyed hash in the code.
\<close>

section \<open>State\<close>

type_synonym socket = nat

record frame =
  f_type :: string
  f_payload :: string
  f_server_time :: datetime
  f_to_device_id :: "int option"
  f_group_id :: "int option"
  f_seq :: "int option"

datatype envelope =
    To_User uin frame "device option"
  | To_All frame
  | Supersede uin device "nat option"
  | Kick_Uin uin
  | Heartbeat nat

record worker =
  held :: "(uin \<times> socket) list"
  device_of :: "socket \<rightharpoonup> device"
  opened_at :: "socket \<rightharpoonup> int"

record cluster =
  workers :: "nat \<Rightarrow> worker"
  inboxes :: "nat \<Rightarrow> envelope list"
  online_devs :: "uin \<rightharpoonup> device list \<times> datetime"
  online_uins :: "uin list"
  sent_frames :: "(nat \<times> socket \<times> frame) list"
  closing :: "(socket \<times> int) list"

definition empty_worker :: worker where
  "empty_worker = \<lparr>held = [], device_of = Map.empty, opened_at = Map.empty\<rparr>"

definition empty_cluster :: cluster where
  "empty_cluster = \<lparr>workers = (\<lambda>_. empty_worker), inboxes = (\<lambda>_. []), online_devs = Map.empty,
     online_uins = [], sent_frames = [], closing = []\<rparr>"

definition online_devs_ttl :: int where
  "online_devs_ttl = seconds 180"

definition conns_of :: "worker \<Rightarrow> uin \<Rightarrow> socket list" where
  "conns_of w u = map snd (filter (\<lambda>e. fst e = u) (held w))"

definition device_name :: "worker \<Rightarrow> socket \<Rightarrow> device" where
  "device_name w k = (case device_of w k of None \<Rightarrow> ''primary'' | Some d \<Rightarrow> d)"

section \<open>One worker\<close>

definition forget_sockets :: "uin \<Rightarrow> socket list \<Rightarrow> worker \<Rightarrow> worker" where
  "forget_sockets u gone w = w\<lparr>
     held := filter (\<lambda>e. \<not> (fst e = u \<and> snd e \<in> set gone)) (held w),
     device_of := device_of w |` (- set gone),
     opened_at := opened_at w |` (- set gone)\<rparr>"

definition sockets_of_device :: "worker \<Rightarrow> uin \<Rightarrow> device \<Rightarrow> socket list" where
  "sockets_of_device w u d = filter (\<lambda>k. device_name w k = d) (conns_of w u)"

definition close_local_sockets_for_device :: "uin \<Rightarrow> device \<Rightarrow> worker \<Rightarrow> socket list \<times> worker" where
  "close_local_sockets_for_device u d w =
     (let old = sockets_of_device w u d in (old, forget_sockets u old w))"

definition close_local_sockets_for_uin :: "uin \<Rightarrow> worker \<Rightarrow> socket list \<times> worker" where
  "close_local_sockets_for_uin u w = (conns_of w u, forget_sockets u (conns_of w u) w)"

text \<open>
  What \<open>connect\<close> does under the lock: the same device's sockets go, the new one is added, and
  above the ceiling the oldest of the others go too. \<open>cap\<close> is \<open>_MAX_SOCKETS_PER_UIN\<close>.
\<close>

definition surplus_sockets :: "nat \<Rightarrow> worker \<Rightarrow> socket list \<Rightarrow> socket list" where
  "surplus_sockets cap w kept =
     (if cap < Suc (length kept)
      then take (Suc (length kept) - cap)
             (sort_key (\<lambda>k. case opened_at w k of None \<Rightarrow> 0 | Some t \<Rightarrow> t) kept)
      else [])"

definition add_socket :: "int \<Rightarrow> uin \<Rightarrow> socket \<Rightarrow> device \<Rightarrow> worker \<Rightarrow> worker" where
  "add_socket t u k d w = w\<lparr>held := held w @ [(u, k)], device_of := (device_of w)(k \<mapsto> d),
     opened_at := (opened_at w)(k \<mapsto> t)\<rparr>"

definition accept_socket :: "nat \<Rightarrow> int \<Rightarrow> uin \<Rightarrow> socket \<Rightarrow> device \<Rightarrow> worker \<Rightarrow> socket list \<times> worker" where
  "accept_socket cap t u k d w =
     (let same = sockets_of_device w u d;
          w1 = forget_sockets u same w;
          surplus = surplus_sockets cap w1 (conns_of w1 u);
          w2 = forget_sockets u surplus w1
      in (same @ surplus,
          add_socket t u k d w2))"

section \<open>Presence keys\<close>

definition live_devs :: "datetime \<Rightarrow> uin \<Rightarrow> cluster \<Rightarrow> device list" where
  "live_devs now u C = (case online_devs C u of
     None \<Rightarrow> [] | Some (ds, expires) \<Rightarrow> if now < expires then ds else [])"

definition add_online_dev :: "datetime \<Rightarrow> uin \<Rightarrow> device \<Rightarrow> cluster \<Rightarrow> cluster" where
  "add_online_dev now u d C = C\<lparr>online_devs :=
     (online_devs C)(u \<mapsto> (List.insert d (live_devs now u C), now + online_devs_ttl))\<rparr>"

definition drop_online_dev :: "datetime \<Rightarrow> uin \<Rightarrow> device \<Rightarrow> cluster \<Rightarrow> cluster" where
  "drop_online_dev now u d C = C\<lparr>online_devs := (online_devs C)(u :=
     (case online_devs C u of
        None \<Rightarrow> None
      | Some (ds, expires) \<Rightarrow>
          let left = filter (\<lambda>x. x \<noteq> d) (live_devs now u C)
          in if left = [] then None else Some (left, expires)))\<rparr>"

section \<open>The channel\<close>

definition publish :: "envelope \<Rightarrow> cluster \<Rightarrow> cluster" where
  "publish e C = C\<lparr>inboxes := (\<lambda>p. inboxes C p @ [e])\<rparr>"

definition close_soon :: "int \<Rightarrow> socket list \<Rightarrow> cluster \<Rightarrow> cluster" where
  "close_soon code ks C = C\<lparr>closing := closing C @ map (\<lambda>k. (k, code)) ks\<rparr>"

definition deliver_user_local :: "nat \<Rightarrow> uin \<Rightarrow> frame \<Rightarrow> device option \<Rightarrow> cluster \<Rightarrow> cluster" where
  "deliver_user_local me u f except_device C =
     (let w = workers C me;
          ks = filter (\<lambda>k. except_device = None \<or> Some (device_name w k) \<noteq> except_device) (conns_of w u)
      in C\<lparr>sent_frames := sent_frames C @ map (\<lambda>k. (me, k, f)) ks\<rparr>)"

definition deliver_all_local :: "nat \<Rightarrow> frame \<Rightarrow> cluster \<Rightarrow> cluster" where
  "deliver_all_local me f C =
     C\<lparr>sent_frames := sent_frames C @ map (\<lambda>e. (me, snd e, f)) (held (workers C me))\<rparr>"

definition on_worker :: "nat \<Rightarrow> (worker \<Rightarrow> socket list \<times> worker) \<Rightarrow> int \<Rightarrow> cluster \<Rightarrow> cluster" where
  "on_worker me op code C =
     (case op (workers C me) of (old, w) \<Rightarrow>
        close_soon code old (C\<lparr>workers := (workers C)(me := w)\<rparr>))"

fun dispatch :: "nat \<Rightarrow> envelope \<Rightarrow> cluster \<Rightarrow> cluster" where
  "dispatch me (To_User u f except_device) C = deliver_user_local me u f except_device C"
| "dispatch me (To_All f) C = deliver_all_local me f C"
| "dispatch me (Supersede u d pid) C =
     (if pid = Some me then C else on_worker me (close_local_sockets_for_device u d) 4000 C)"
| "dispatch me (Kick_Uin u) C = on_worker me (close_local_sockets_for_uin u) 1012 C"
| "dispatch me (Heartbeat pid) C = C"

text \<open>The loop body: the worker takes the next envelope off its subscription and acts on it.\<close>

definition pubsub_step :: "nat \<Rightarrow> cluster \<Rightarrow> cluster" where
  "pubsub_step me C =
     (case inboxes C me of
        [] \<Rightarrow> C
      | e # es \<Rightarrow> dispatch me e (C\<lparr>inboxes := (inboxes C)(me := es)\<rparr>))"

definition pubsub_loop :: "nat \<Rightarrow> cluster \<Rightarrow> cluster" where
  "pubsub_loop me C = ((pubsub_step me) ^^ length (inboxes C me)) C"

section \<open>The public operations\<close>

definition connect ::
  "nat \<Rightarrow> bool \<Rightarrow> nat \<Rightarrow> datetime \<Rightarrow> int \<Rightarrow> uin \<Rightarrow> socket \<Rightarrow> device \<Rightarrow> cluster \<Rightarrow> cluster" where
  "connect cap up me now t u k d C =
     (let C1 = on_worker me (accept_socket cap t u k d) 4000 C
      in if \<not> up then C1
         else
           let C2 = add_online_dev now u d C1
           in publish (Supersede u d (Some me)) (C2\<lparr>online_uins := List.insert u (online_uins C2)\<rparr>))"

definition disconnect :: "bool \<Rightarrow> nat \<Rightarrow> datetime \<Rightarrow> uin \<Rightarrow> socket \<Rightarrow> cluster \<Rightarrow> cluster" where
  "disconnect up me now u k C =
     (let w = workers C me;
          gone_device = device_of w k;
          device_still_local = gone_device \<noteq> None \<and>
            list_ex (\<lambda>j. j \<noteq> k \<and> device_of w j = gone_device) (conns_of w u);
          w' = w\<lparr>held := filter (\<lambda>e. e \<noteq> (u, k)) (held w),
                 device_of := (device_of w)(k := None), opened_at := (opened_at w)(k := None)\<rparr>;
          C1 = C\<lparr>workers := (workers C)(me := w')\<rparr>;
          C2 = (case gone_device of
                  None \<Rightarrow> C1
                | Some d \<Rightarrow> if d \<noteq> [] \<and> \<not> device_still_local \<and> up then drop_online_dev now u d C1 else C1)
      in if conns_of w' u \<noteq> [] \<or> \<not> up \<or> live_devs now u C2 \<noteq> [] then C2
         else C2\<lparr>online_uins := filter (\<lambda>x. x \<noteq> u) (online_uins C2)\<rparr>)"

definition kick_device :: "bool \<Rightarrow> nat \<Rightarrow> datetime \<Rightarrow> uin \<Rightarrow> device \<Rightarrow> cluster \<Rightarrow> cluster" where
  "kick_device up me now u d C =
     (let C1 = on_worker me (close_local_sockets_for_device u d) 4000 C
      in if up then publish (Supersede u d None) (drop_online_dev now u d C1) else C1)"

definition kick_uin :: "bool \<Rightarrow> nat \<Rightarrow> uin \<Rightarrow> cluster \<Rightarrow> cluster" where
  "kick_uin up me u C =
     (if up then publish (Kick_Uin u) (C\<lparr>online_devs := (online_devs C)(u := None)\<rparr>)
      else on_worker me (close_local_sockets_for_uin u) 1012 C)"

definition online_devices :: "bool \<Rightarrow> nat \<Rightarrow> datetime \<Rightarrow> uin \<Rightarrow> cluster \<Rightarrow> device list \<times> cluster" where
  "online_devices up me now u C =
     (if up then
        let raw = live_devs now u C
        in (raw, if raw = [] then C
                 else C\<lparr>online_devs := (online_devs C)(u \<mapsto> (raw, now + online_devs_ttl))\<rparr>)
      else (map (device_name (workers C me)) (conns_of (workers C me) u), C))"

definition touch_device :: "bool \<Rightarrow> datetime \<Rightarrow> uin \<Rightarrow> device \<Rightarrow> cluster \<Rightarrow> bool \<times> cluster" where
  "touch_device up now u d C =
     (if up then
        let C1 = add_online_dev now u d C
        in (u \<notin> set (online_uins C1), C1\<lparr>online_uins := List.insert u (online_uins C1)\<rparr>)
      else (False, C))"

definition is_online :: "bool \<Rightarrow> nat \<Rightarrow> uin \<Rightarrow> cluster \<Rightarrow> bool" where
  "is_online up me u C =
     (if up then u \<in> set (online_uins C) else conns_of (workers C me) u \<noteq> [])"

definition online_subset :: "bool \<Rightarrow> nat \<Rightarrow> uin list \<Rightarrow> cluster \<Rightarrow> uin list" where
  "online_subset up me us C = filter (\<lambda>u. is_online up me u C) (remdups us)"

definition send :: "bool \<Rightarrow> nat \<Rightarrow> uin \<Rightarrow> frame \<Rightarrow> device option \<Rightarrow> cluster \<Rightarrow> bool \<times> cluster" where
  "send up me u f except_device C =
     (if up then (u \<in> set (online_uins C), publish (To_User u f except_device) C)
      else (conns_of (workers C me) u \<noteq> [], deliver_user_local me u f except_device C))"

definition broadcast :: "bool \<Rightarrow> nat \<Rightarrow> uin list \<Rightarrow> frame \<Rightarrow> cluster \<Rightarrow> cluster" where
  "broadcast up me us f C =
     (if up then fold (\<lambda>u. publish (To_User u f None)) us C
      else fold (\<lambda>u. deliver_user_local me u f None) us C)"

definition fanout :: "bool \<Rightarrow> nat \<Rightarrow> uin list \<Rightarrow> frame \<Rightarrow> cluster \<Rightarrow> uin list \<times> cluster" where
  "fanout up me us f C =
     (if up then
        let targets = filter (\<lambda>u. u \<in> set (online_uins C)) us
        in (targets, fold (\<lambda>u. publish (To_User u f None)) targets C)
      else (filter (\<lambda>u. conns_of (workers C me) u \<noteq> []) us,
            fold (\<lambda>u. deliver_user_local me u f None) us C))"

definition fanout_each :: "bool \<Rightarrow> nat \<Rightarrow> (uin \<times> frame) list \<Rightarrow> cluster \<Rightarrow> uin list \<times> cluster" where
  "fanout_each up me items C =
     (let targets = filter (\<lambda>(u, f). is_online up me u C) items
      in (map fst targets,
          if up then fold (\<lambda>(u, f). publish (To_User u f None)) targets C
          else fold (\<lambda>(u, f). deliver_user_local me u f None) targets C))"

definition broadcast_all :: "bool \<Rightarrow> nat \<Rightarrow> frame \<Rightarrow> cluster \<Rightarrow> cluster" where
  "broadcast_all up me f C = (if up then publish (To_All f) C else deliver_all_local me f C)"

section \<open>The presence sweep\<close>

definition max_removals_per_cycle :: nat where
  "max_removals_per_cycle = 5000"

definition presence_sweep_once :: "bool \<Rightarrow> datetime \<Rightarrow> cluster \<Rightarrow> nat \<times> cluster" where
  "presence_sweep_once dry_run now C =
     (let ghosts = take max_removals_per_cycle (filter (\<lambda>u. live_devs now u C = []) (online_uins C))
      in (length ghosts,
          if dry_run then C else C\<lparr>online_uins := filter (\<lambda>u. u \<notin> set ghosts) (online_uins C)\<rparr>))"

end
