(* ===== verification/Cluster_Runs.thy ===== *)
theory Cluster_Runs
  imports Cluster
begin

text \<open>
  What the connection manager promises over runs: bounds on the sockets of an account, what a
  kick leaves behind on every worker, that the pipelined fan-out reaches the sockets a plain
  broadcast would, and what the presence keys say about a device whose worker has died.
\<close>

section \<open>One worker\<close>

definition worker_ok :: "nat \<Rightarrow> worker \<Rightarrow> bool" where
  "worker_ok cap w \<longleftrightarrow> distinct (map snd (held w)) \<and>
     (\<forall>u. distinct (map (device_name w) (conns_of w u))) \<and>
     (\<forall>u. length (conns_of w u) \<le> max 1 cap)"

lemma conns_of_distinct: "worker_ok cap w \<Longrightarrow> distinct (conns_of w u)"
  by (auto simp: worker_ok_def distinct_map)

lemma conns_of_forget [simp]:
  "conns_of (forget_sockets u gone w) v =
     (if v = u then filter (\<lambda>k. k \<notin> set gone) (conns_of w u) else conns_of w v)"
  unfolding conns_of_def forget_sockets_def
  by (auto simp: filter_map comp_def intro!: arg_cong [where f = "map snd"] filter_cong)

lemma device_name_forget [simp]:
  "k \<notin> set gone \<Longrightarrow> device_name (forget_sockets u gone w) k = device_name w k"
  by (simp add: device_name_def forget_sockets_def)

lemma sockets_distinct_accounts:
  assumes "worker_ok cap w" and "k \<in> set (conns_of w u)" and "k \<in> set (conns_of w v)"
  shows "u = v"
proof -
  have "(u, k) \<in> set (held w)" "(v, k) \<in> set (held w)"
    using assms(2,3) by (auto simp: conns_of_def)
  moreover have "inj_on snd (set (held w))" using assms(1) by (simp add: worker_ok_def distinct_map)
  ultimately show ?thesis using inj_onD [of snd "set (held w)" "(u, k)" "(v, k)"] by simp
qed

lemma distinct_map_subset:
  "distinct (map f xs) \<Longrightarrow> distinct (map f (filter P xs))"
  by (induction xs) auto

lemma forget_ok:
  assumes ok: "worker_ok cap w" and gone: "set gone \<subseteq> set (conns_of w u)"
  shows "worker_ok cap (forget_sockets u gone w)"
proof -
  let ?w = "forget_sockets u gone w"
  have held: "distinct (map snd (held ?w))"
    using ok by (auto simp: worker_ok_def forget_sockets_def intro: distinct_map_subset)
  have names: "map (device_name ?w) (conns_of ?w v) =
      map (device_name w) (if v = u then filter (\<lambda>k. k \<notin> set gone) (conns_of w u) else conns_of w v)" for v
  proof -
    have "k \<notin> set gone" if "k \<in> set (conns_of ?w v)" for k
      using that gone sockets_distinct_accounts [OF ok] by (auto split: if_splits)
    then show ?thesis by (auto intro!: map_cong)
  qed
  have "distinct (map (device_name ?w) (conns_of ?w v))" for v
    unfolding names using ok by (auto simp: worker_ok_def intro: distinct_map_subset)
  moreover have "length (conns_of ?w v) \<le> max 1 cap" for v
  proof -
    have "length (conns_of ?w v) \<le> length (conns_of w v)" by simp
    also have "\<dots> \<le> max 1 cap" using ok unfolding worker_ok_def by blast
    finally show ?thesis .
  qed
  ultimately show ?thesis using held unfolding worker_ok_def by blast
qed

lemma length_filter_take:
  assumes "distinct xs" and "distinct ys" and "set ys = set xs"
  shows "length (filter (\<lambda>k. k \<notin> set (take n ys)) xs) = length xs - n"
proof -
  have "set (filter (\<lambda>k. k \<in> set (take n ys)) xs) = set (take n ys)"
    using assms(3) set_take_subset [of n ys] by auto
  then have "length (filter (\<lambda>k. k \<in> set (take n ys)) xs) = length (take n ys)"
    using assms(1,2) by (metis distinct_card distinct_filter distinct_take)
  moreover have "length ys = length xs" using assms by (metis distinct_card)
  moreover have "length (filter (\<lambda>k. k \<in> set (take n ys)) xs) +
      length (filter (\<lambda>k. k \<notin> set (take n ys)) xs) = length xs"
    by (rule sum_length_filter_compl)
  ultimately show ?thesis by simp
qed

lemma conns_of_add [simp]:
  "conns_of (add_socket t u k d w) v = conns_of w v @ (if v = u then [k] else [])"
  by (simp add: conns_of_def add_socket_def)

lemma device_name_add [simp]:
  "device_name (add_socket t u k d w) j = (if j = k then d else device_name w j)"
  by (simp add: device_name_def add_socket_def)

lemma add_ok:
  assumes ok: "worker_ok cap w" and fresh: "\<forall>e \<in> set (held w). snd e \<noteq> k"
    and other: "d \<notin> device_name w ` set (conns_of w u)" and room: "length (conns_of w u) < max 1 cap"
  shows "worker_ok cap (add_socket t u k d w)"
proof -
  let ?w = "add_socket t u k d w"
  have notin: "k \<notin> set (conns_of w v)" for v using fresh by (auto simp: conns_of_def)
  then have names: "map (device_name ?w) (conns_of w v) = map (device_name w) (conns_of w v)" for v
    by (intro map_cong) auto
  have dist: "distinct (map (device_name w) (conns_of w v))" for v using ok by (simp add: worker_ok_def)
  have "distinct (map (device_name ?w) (conns_of ?w v))" for v
    unfolding conns_of_add map_append distinct_append names using dist other by auto
  moreover have "length (conns_of ?w v) \<le> max 1 cap" for v
    using ok room by (cases "v = u") (auto simp: worker_ok_def)
  moreover have "distinct (map snd (held ?w))" using ok fresh by (auto simp: add_socket_def worker_ok_def)
  ultimately show ?thesis unfolding worker_ok_def by blast
qed

lemma surplus_room:
  assumes "distinct kept"
  shows "length (filter (\<lambda>k. k \<notin> set (surplus_sockets cap w kept)) kept) < max 1 cap"
proof (cases "cap < Suc (length kept)")
  case True
  then show ?thesis using length_filter_take [OF assms] assms by (simp add: surplus_sockets_def)
qed (simp add: surplus_sockets_def)

lemma surplus_subset: "set (surplus_sockets cap w kept) \<subseteq> set kept"
  using set_take_subset by (fastforce simp: surplus_sockets_def)

lemma accept_ok:
  assumes ok: "worker_ok cap w" and fresh: "\<forall>e \<in> set (held w). snd e \<noteq> k"
  shows "worker_ok cap (snd (accept_socket cap t u k d w))"
proof -
  define w1 where "w1 = forget_sockets u (sockets_of_device w u d) w"
  define w2 where "w2 = forget_sockets u (surplus_sockets cap w1 (conns_of w1 u)) w1"
  have ok1: "worker_ok cap w1" unfolding w1_def by (rule forget_ok [OF ok]) (auto simp: sockets_of_device_def)
  have ok2: "worker_ok cap w2" unfolding w2_def by (rule forget_ok [OF ok1 surplus_subset])
  have "\<forall>e \<in> set (held w2). snd e \<noteq> k" using fresh by (auto simp: w1_def w2_def forget_sockets_def)
  moreover have "d \<notin> device_name w2 ` set (conns_of w2 u)"
    by (auto simp: w1_def w2_def sockets_of_device_def)
  moreover have "length (conns_of w2 u) < max 1 cap"
    using surplus_room [OF conns_of_distinct [OF ok1]] by (simp add: w2_def)
  ultimately have "worker_ok cap (add_socket t u k d w2)" by (rule add_ok [OF ok2])
  then show ?thesis by (simp add: accept_socket_def Let_def w1_def w2_def)
qed

lemma disconnect_ok:
  assumes ok: "worker_ok cap w" and own: "\<forall>e \<in> set (held w). snd e = k \<longrightarrow> fst e = u"
  shows "worker_ok cap (w\<lparr>held := filter (\<lambda>e. e \<noteq> (u, k)) (held w),
     device_of := (device_of w)(k := None), opened_at := (opened_at w)(k := None)\<rparr>)"
    (is "worker_ok cap ?w")
proof -
  have held: "held ?w = held (forget_sockets u [k] w)"
    by (auto simp: forget_sockets_def intro!: filter_cong)
  have conns: "conns_of ?w v = conns_of (forget_sockets u [k] w) v" for v
    unfolding conns_of_def held ..
  have notin: "k \<notin> set (conns_of (forget_sockets u [k] w) v)" for v
    using own by (auto simp: conns_of_def forget_sockets_def)
  have "map (device_name ?w) (conns_of ?w v) = map (device_name w) (conns_of ?w v)" for v
    unfolding conns using notin [of v] by (intro map_cong) (auto simp: device_name_def)
  moreover have "distinct (map (device_name w) (conns_of ?w v))" for v
    unfolding conns using ok by (auto simp: worker_ok_def intro: distinct_map_subset)
  moreover have "length (conns_of ?w v) \<le> max 1 cap" for v
  proof -
    have "length (conns_of ?w v) \<le> length (conns_of w v)" unfolding conns by simp
    also have "\<dots> \<le> max 1 cap" using ok unfolding worker_ok_def by blast
    finally show ?thesis .
  qed
  moreover have "distinct (map snd (held ?w))"
    using ok by (auto simp: worker_ok_def intro: distinct_map_subset)
  ultimately show ?thesis unfolding worker_ok_def by presburger
qed

section \<open>What each operation does to the workers\<close>

named_theorems worker_simps \<open>the worker map after an operation\<close>

lemma workers_publish [worker_simps]: "workers (publish e C) = workers C"
  by (simp add: publish_def)

lemma workers_close_soon [worker_simps]: "workers (close_soon code ks C) = workers C"
  by (simp add: close_soon_def)

lemma workers_add_dev [worker_simps]: "workers (add_online_dev now u d C) = workers C"
  by (simp add: add_online_dev_def)

lemma workers_drop_dev [worker_simps]: "workers (drop_online_dev now u d C) = workers C"
  by (simp add: drop_online_dev_def)

lemma workers_deliver_user [worker_simps]: "workers (deliver_user_local me u f exc C) = workers C"
  by (simp add: deliver_user_local_def Let_def)

lemma workers_deliver_all [worker_simps]: "workers (deliver_all_local me f C) = workers C"
  by (simp add: deliver_all_local_def)

lemma workers_on_worker [worker_simps]:
  "workers (on_worker me op code C) = (workers C)(me := snd (op (workers C me)))"
  by (simp add: on_worker_def worker_simps split: prod.splits)

lemma workers_fold [worker_simps]:
  "(\<And>x C. workers (g x C) = workers C) \<Longrightarrow> workers (fold g xs C) = workers C"
  by (induction xs arbitrary: C) auto

definition cluster_ok :: "nat \<Rightarrow> cluster \<Rightarrow> bool" where
  "cluster_ok cap C \<longleftrightarrow> (\<forall>p. worker_ok cap (workers C p))"

lemma cluster_ok_same: "workers C' = workers C \<Longrightarrow> cluster_ok cap C' = cluster_ok cap C"
  by (simp add: cluster_ok_def)

lemma cluster_ok_update:
  "cluster_ok cap C \<Longrightarrow> workers C' = (workers C)(me := w) \<Longrightarrow> worker_ok cap w \<Longrightarrow> cluster_ok cap C'"
  by (simp add: cluster_ok_def)

lemma close_device_ok: "worker_ok cap w \<Longrightarrow> worker_ok cap (snd (close_local_sockets_for_device u d w))"
  unfolding close_local_sockets_for_device_def Let_def snd_conv
  by (rule forget_ok) (auto simp: sockets_of_device_def)

lemma close_uin_ok: "worker_ok cap w \<Longrightarrow> worker_ok cap (snd (close_local_sockets_for_uin u w))"
  unfolding close_local_sockets_for_uin_def snd_conv by (rule forget_ok) auto

lemma on_worker_ok:
  assumes "cluster_ok cap C" and "\<And>w. worker_ok cap w \<Longrightarrow> worker_ok cap (snd (op w))"
  shows "cluster_ok cap (on_worker me op code C)"
  using assms by (simp add: cluster_ok_def worker_simps)

lemma dispatch_ok: "cluster_ok cap C \<Longrightarrow> cluster_ok cap (dispatch me e C)"
  by (cases e) (auto simp: cluster_ok_same [OF workers_deliver_user]
      cluster_ok_same [OF workers_deliver_all] intro: on_worker_ok close_device_ok close_uin_ok)

lemma pubsub_step_ok: "cluster_ok cap C \<Longrightarrow> cluster_ok cap (pubsub_step me C)"
proof (cases "inboxes C me")
  case (Cons e es)
  assume "cluster_ok cap C"
  then have "cluster_ok cap (C\<lparr>inboxes := (inboxes C)(me := es)\<rparr>)" by (simp add: cluster_ok_def)
  then show ?thesis by (simp add: pubsub_step_def Cons dispatch_ok)
qed (simp add: pubsub_step_def)

lemma workers_connect:
  "workers (connect cap up me now t u k d C) =
     (workers C)(me := snd (accept_socket cap t u k d (workers C me)))"
  by (simp add: connect_def Let_def worker_simps)

lemma workers_disconnect:
  "workers (disconnect up me now u k C) = (workers C)(me := (workers C me)\<lparr>
     held := filter (\<lambda>e. e \<noteq> (u, k)) (held (workers C me)),
     device_of := (device_of (workers C me))(k := None),
     opened_at := (opened_at (workers C me))(k := None)\<rparr>)"
  by (auto simp: disconnect_def Let_def worker_simps split: option.splits)

section \<open>Reachable clusters\<close>

text \<open>
  One rule per operation of the manager, on any worker and with Redis answering or not. A new
  socket is one its worker does not hold yet, and an endpoint disconnects its own account.
\<close>

inductive cluster_step :: "nat \<Rightarrow> cluster \<Rightarrow> cluster \<Rightarrow> bool" for cap :: nat where
  connects: "\<forall>e \<in> set (held (workers C me)). snd e \<noteq> k \<Longrightarrow>
     cluster_step cap C (connect cap up me now t u k d C)"
| disconnects: "\<forall>e \<in> set (held (workers C me)). snd e = k \<longrightarrow> fst e = u \<Longrightarrow>
     cluster_step cap C (disconnect up me now u k C)"
| reads: "cluster_step cap C (pubsub_step me C)"
| kicks_device: "cluster_step cap C (kick_device up me now u d C)"
| kicks_uin: "cluster_step cap C (kick_uin up me u C)"
| asks: "cluster_step cap C (snd (online_devices up me now u C))"
| touches: "cluster_step cap C (snd (touch_device up now u d C))"
| sends: "cluster_step cap C (snd (send up me u f exc C))"
| broadcasts: "cluster_step cap C (broadcast up me us f C)"
| fans_out: "cluster_step cap C (snd (fanout up me us f C))"
| fans_each: "cluster_step cap C (snd (fanout_each up me items C))"
| broadcasts_all: "cluster_step cap C (broadcast_all up me f C)"
| sweeps: "cluster_step cap C (snd (presence_sweep_once dry_run now C))"

lemma cluster_step_ok: "cluster_step cap C D \<Longrightarrow> cluster_ok cap C \<Longrightarrow> cluster_ok cap D"
proof (induction rule: cluster_step.induct)
  case (connects C me k up now t u d)
  have "worker_ok cap (workers C me)" using connects.prems by (simp add: cluster_ok_def)
  from accept_ok [OF this connects.hyps] show ?case
    by (rule cluster_ok_update [OF connects.prems workers_connect])
next
  case (disconnects C me k u up now)
  have "worker_ok cap (workers C me)" using disconnects.prems by (simp add: cluster_ok_def)
  from disconnect_ok [OF this disconnects.hyps] show ?case
    by (rule cluster_ok_update [OF disconnects.prems workers_disconnect])
next
  case (kicks_device C up me now u d)
  have "cluster_ok cap (on_worker me (close_local_sockets_for_device u d) 4000 C)"
    by (rule on_worker_ok [OF kicks_device close_device_ok])
  then show ?case by (simp add: kick_device_def Let_def cluster_ok_def worker_simps)
next
  case (kicks_uin C up me u)
  have "cluster_ok cap (on_worker me (close_local_sockets_for_uin u) 1012 C)"
    by (rule on_worker_ok [OF kicks_uin close_uin_ok])
  with kicks_uin show ?case by (simp add: kick_uin_def cluster_ok_def worker_simps)
qed (simp_all add: pubsub_step_ok, simp_all add: cluster_ok_def online_devices_def touch_device_def send_def
      broadcast_def fanout_def fanout_each_def broadcast_all_def presence_sweep_once_def Let_def worker_simps split_beta)

interpretation socket_bounds: step_invariant "(=) empty_cluster" "cluster_step cap" "cluster_ok cap" for cap
proof unfold_locales
  fix C assume "empty_cluster = C"
  then show "cluster_ok cap C"
    by (auto simp: cluster_ok_def empty_cluster_def empty_worker_def worker_ok_def conns_of_def)
next
  fix C D assume "cluster_step cap C D" and "cluster_ok cap C"
  then show "cluster_ok cap D" by (rule cluster_step_ok)
qed

text \<open>
  C29. Whatever the clients and the operators do, a worker never holds two sockets of one device of an
  account, and never more sockets of one account than the ceiling (one, if the ceiling is zero).
\<close>

theorem sockets_bounded:
  assumes "reachable ((=) empty_cluster) (cluster_step cap) C"
  shows "length (conns_of (workers C p) u) \<le> max 1 cap \<and>
    distinct (map (device_name (workers C p)) (conns_of (workers C p) u))"
  using socket_bounds.reachable_inv [OF assms] by (simp add: cluster_ok_def worker_ok_def)

definition three_dials :: cluster where
  "three_dials = connect 2 True 0 30 3 7 13 ''web'' (connect 2 True 0 20 2 7 12 ''pad''
     (connect 2 True 0 10 1 7 11 ''primary'' empty_cluster))"

theorem sockets_bounded_witness:
  "length (conns_of (workers three_dials 0) 7) \<le> 2 \<and> conns_of (workers three_dials 0) 7 = [12, 13]"
proof -
  let ?c1 = "connect 2 True 0 10 1 7 11 ''primary'' empty_cluster"
  let ?c2 = "connect 2 True 0 20 2 7 12 ''pad'' ?c1"
  have start: "reachable ((=) empty_cluster) (cluster_step 2) empty_cluster"
    by (rule reachable.start) (rule refl)
  have 0: "held (workers empty_cluster 0) = []" by code_simp
  have 1: "held (workers ?c1 0) = [(7, 11)]" by code_simp
  have 2: "held (workers ?c2 0) = [(7, 11), (7, 12)]" by code_simp
  have "cluster_step 2 empty_cluster ?c1" by (rule cluster_step.connects) (simp add: 0)
  then have r1: "reachable ((=) empty_cluster) (cluster_step 2) ?c1" by (rule reachable.next_state [OF start])
  have "cluster_step 2 ?c1 ?c2" by (rule cluster_step.connects) (simp add: 1)
  then have r2: "reachable ((=) empty_cluster) (cluster_step 2) ?c2" by (rule reachable.next_state [OF r1])
  have "cluster_step 2 ?c2 three_dials" unfolding three_dials_def by (rule cluster_step.connects) (simp add: 2)
  then have "reachable ((=) empty_cluster) (cluster_step 2) three_dials" by (rule reachable.next_state [OF r2])
  then have "length (conns_of (workers three_dials 0) 7) \<le> 2" using sockets_bounded [of 2 three_dials 0 7] by simp
  moreover have "conns_of (workers three_dials 0) 7 = [12, 13]" by code_simp
  ultimately show ?thesis by blast
qed

section \<open>Reading the channel\<close>

lemma inboxes_dispatch: "inboxes (dispatch me e C) = inboxes C"
  by (cases e) (auto simp: deliver_user_local_def deliver_all_local_def on_worker_def close_soon_def
      Let_def split: prod.splits)

lemma dispatch_inboxes: "dispatch me e (C\<lparr>inboxes := ib\<rparr>) = (dispatch me e C)\<lparr>inboxes := ib\<rparr>"
  by (cases e) (auto simp: deliver_user_local_def deliver_all_local_def on_worker_def close_soon_def
      Let_def split: prod.splits)

lemma pubsub_loop_fold:
  "pubsub_loop me C = fold (dispatch me) (inboxes C me) (C\<lparr>inboxes := (inboxes C)(me := [])\<rparr>)"
proof -
  have "((pubsub_step me) ^^ length es) C = fold (dispatch me) es (C\<lparr>inboxes := (inboxes C)(me := [])\<rparr>)"
    if "inboxes C me = es" for es
    using that
  proof (induction es arbitrary: C)
    case Nil
    then have "(inboxes C)(me := []) = inboxes C" by auto
    then show ?case by simp
  next
    case (Cons e es)
    let ?C = "pubsub_step me C"
    have step: "?C = dispatch me e (C\<lparr>inboxes := (inboxes C)(me := es)\<rparr>)"
      using Cons.prems by (simp add: pubsub_step_def)
    have "?C\<lparr>inboxes := (inboxes ?C)(me := [])\<rparr> =
        dispatch me e (C\<lparr>inboxes := (inboxes C)(me := [])\<rparr>)"
      unfolding step by (simp add: inboxes_dispatch dispatch_inboxes)
    moreover have "inboxes ?C me = es" unfolding step by (simp add: inboxes_dispatch)
    ultimately have "((pubsub_step me) ^^ length es) ?C =
        fold (dispatch me) es (dispatch me e (C\<lparr>inboxes := (inboxes C)(me := [])\<rparr>))"
      using Cons.IH [of ?C] by metis
    then show ?case by (simp only: length_Cons funpow_Suc_right comp_apply fold_Cons)
  qed
  then show ?thesis by (simp add: pubsub_loop_def)
qed

text \<open>What a worker still has to read decides nothing about the frames it has not been sent yet.\<close>

lemma pubsub_loop_publish:
  "pubsub_loop p (publish e C) = dispatch p e ((pubsub_loop p C)\<lparr>inboxes := (inboxes (publish e C))(p := [])\<rparr>)"
proof -
  have upd: "fold (dispatch p) es (C\<lparr>inboxes := ib\<rparr>) = (fold (dispatch p) es C)\<lparr>inboxes := ib\<rparr>" for es C ib
  proof (induction es arbitrary: C)
    case (Cons e es)
    show ?case by (simp add: Cons.IH dispatch_inboxes)
  qed simp
  show ?thesis by (simp add: pubsub_loop_fold publish_def upd)
qed

section \<open>Kicks and supersedes\<close>

lemma close_device_gone: "sockets_of_device (snd (close_local_sockets_for_device u d w)) u d = []"
  by (auto simp: close_local_sockets_for_device_def sockets_of_device_def filter_empty_conv Let_def)

lemma forget_device_gone:
  assumes "worker_ok cap w" and "set gone \<subseteq> set (conns_of w v)" and "sockets_of_device w u d = []"
  shows "sockets_of_device (forget_sockets v gone w) u d = []"
proof -
  have "k \<notin> set gone" if "k \<in> set (conns_of (forget_sockets v gone w) u)" for k
    using that assms(2) sockets_distinct_accounts [OF assms(1)] by (auto split: if_splits)
  then have "k \<in> set (conns_of w u) \<and> device_name (forget_sockets v gone w) k = device_name w k"
    if "k \<in> set (conns_of (forget_sockets v gone w) u)" for k
    using that by (auto split: if_splits)
  with assms(3) show ?thesis by (fastforce simp: sockets_of_device_def filter_empty_conv)
qed

lemma dispatch_keeps_gone:
  assumes "cluster_ok cap C" and "sockets_of_device (workers C p) u d = []"
  shows "sockets_of_device (workers (dispatch me e C) p) u d = []"
proof -
  have ok: "worker_ok cap (workers C p)" using assms(1) by (simp add: cluster_ok_def)
  have sub: "set (sockets_of_device (workers C p) v d') \<subseteq> set (conns_of (workers C p) v)" for v d'
    by (auto simp: sockets_of_device_def)
  show ?thesis
    using assms(2) forget_device_gone [OF ok sub assms(2)] forget_device_gone [OF ok order_refl assms(2)]
    by (cases e) (auto simp: worker_simps close_local_sockets_for_device_def
        close_local_sockets_for_uin_def Let_def)
qed

lemma fold_dispatch_gone:
  assumes "cluster_ok cap C" and "sockets_of_device (workers C p) u d = []"
  shows "sockets_of_device (workers (fold (dispatch p) es C) p) u d = []"
  using assms by (induction es arbitrary: C) (auto intro: dispatch_ok dispatch_keeps_gone)

lemma superseded_on_read:
  assumes "cluster_ok cap C" and "Supersede u d origin \<in> set (inboxes C p)" and "origin \<noteq> Some p"
  shows "sockets_of_device (workers (pubsub_loop p C) p) u d = []"
proof -
  obtain before after where es: "inboxes C p = before @ Supersede u d origin # after"
    using assms(2) by (auto simp: in_set_conv_decomp)
  have ok: "cluster_ok cap (fold (dispatch p) es D)" if "cluster_ok cap D" for es D
    using that by (induction es arbitrary: D) (auto intro: dispatch_ok)
  let ?D = "fold (dispatch p) before (C\<lparr>inboxes := (inboxes C)(p := [])\<rparr>)"
  have "cluster_ok cap ?D" by (rule ok) (use assms(1) in \<open>simp add: cluster_ok_def\<close>)
  moreover have "sockets_of_device (workers (dispatch p (Supersede u d origin) ?D) p) u d = []"
    using assms(3) by (simp add: worker_simps close_device_gone)
  ultimately have "sockets_of_device
      (workers (fold (dispatch p) after (dispatch p (Supersede u d origin) ?D)) p) u d = []"
    by (intro fold_dispatch_gone [OF dispatch_ok])
  then show ?thesis by (simp add: pubsub_loop_fold es)
qed



text \<open>
  A signed key change says goodbye before it hangs up. A frame sent to the account just before
  \<open>kick_uin\<close> is written to every socket a worker still holds for it, and only then are those
  sockets closed, with the code that asks for an immediate redial.
\<close>

theorem last_frame_before_kick:
  "let D = pubsub_loop p C;
       E = pubsub_loop p (kick_uin True me u (snd (send True me u f None C)))
   in sent_frames E = sent_frames D @ map (\<lambda>k. (p, k, f)) (conns_of (workers D p) u) \<and>
      closing E = closing D @ map (\<lambda>k. (k, 1012)) (conns_of (workers D p) u) \<and>
      conns_of (workers E p) u = []"
proof -
  have drop: "pubsub_loop p (C\<lparr>online_devs := od\<rparr>) = (pubsub_loop p C)\<lparr>online_devs := od\<rparr>" for C od
  proof -
    have "dispatch p e (C\<lparr>online_devs := od\<rparr>) = (dispatch p e C)\<lparr>online_devs := od\<rparr>" for e C
      by (cases e) (auto simp: deliver_user_local_def deliver_all_local_def on_worker_def close_soon_def
          Let_def split: prod.splits)
    then have "fold (dispatch p) es (C\<lparr>online_devs := od\<rparr>) = (fold (dispatch p) es C)\<lparr>online_devs := od\<rparr>"
      for es C by (induction es arbitrary: C) auto
    moreover have "C\<lparr>online_devs := od, inboxes := ib\<rparr> = C\<lparr>inboxes := ib, online_devs := od\<rparr>" for ib by simp
    ultimately show ?thesis by (simp only: pubsub_loop_fold) simp
  qed
  show ?thesis
    by (simp add: kick_uin_def send_def pubsub_loop_publish drop Let_def on_worker_def close_soon_def
        close_local_sockets_for_uin_def deliver_user_local_def)
qed

text \<open>
  C37. Two dials of one device can cut each other off. When the device dials two workers before either
  has read the other's announcement, each worker obeys the other's and both sockets are closed,
  although one of them is the newest.
\<close>

theorem simultaneous_dials_cut_both:
  assumes "reachable ((=) empty_cluster) (cluster_step cap) C"
    and "p \<noteq> q" and "\<forall>e \<in> set (held (workers C p)). snd e \<noteq> j" and "\<forall>e \<in> set (held (workers C q)). snd e \<noteq> k"
  shows "let D = connect cap True q now' t' u k d (connect cap True p now t u j d C)
    in sockets_of_device (workers (pubsub_loop p D) p) u d = [] \<and>
       sockets_of_device (workers (pubsub_loop q D) q) u d = []"
proof -
  let ?C1 = "connect cap True p now t u j d C"
  let ?D = "connect cap True q now' t' u k d ?C1"
  have ok1: "cluster_ok cap ?C1"
    by (rule cluster_step_ok [OF cluster_step.connects [OF assms(3)] socket_bounds.reachable_inv [OF assms(1)]])
  have fresh: "\<forall>e \<in> set (held (workers ?C1 q)). snd e \<noteq> k" using assms(2,4) by (simp add: workers_connect)
  have ok: "cluster_ok cap ?D" by (rule cluster_step_ok [OF cluster_step.connects [OF fresh] ok1])
  have "Supersede u d (Some q) \<in> set (inboxes ?D p)" "Supersede u d (Some p) \<in> set (inboxes ?D q)"
    by (auto simp: connect_def publish_def add_online_dev_def on_worker_def close_soon_def Let_def split: prod.splits)
  with ok assms(2) show ?thesis by (auto simp: Let_def intro: superseded_on_read)
qed

theorem simultaneous_dials_cut_both_witness:
  "let D = connect 8 True 1 11 1 7 42 ''primary'' (connect 8 True 0 10 0 7 41 ''primary'' empty_cluster)
   in sockets_of_device (workers (pubsub_loop 0 D) 0) 7 ''primary'' = [] \<and>
      sockets_of_device (workers (pubsub_loop 1 D) 1) 7 ''primary'' = []"
proof -
  have r: "reachable ((=) empty_cluster) (cluster_step 8) empty_cluster"
    by (rule reachable.start) (rule refl)
  have "held (workers empty_cluster p) = []" for p by (simp add: empty_cluster_def empty_worker_def)
  then show ?thesis by (intro simultaneous_dials_cut_both [OF r]) simp_all
qed

section \<open>Fan-outs\<close>

definition frame_log :: "nat \<Rightarrow> frame \<Rightarrow> worker \<Rightarrow> uin list \<Rightarrow> (nat \<times> socket \<times> frame) list" where
  "frame_log p f w us = concat (map (\<lambda>u. map (\<lambda>k. (p, k, f)) (conns_of w u)) us)"

lemma loop_after_publishes:
  "let D = pubsub_loop p C; E = pubsub_loop p (fold (\<lambda>u. publish (To_User u f None)) us C)
   in sent_frames E = sent_frames D @ frame_log p f (workers D p) us \<and> workers E p = workers D p"
proof (induction us rule: rev_induct)
  case Nil
  then show ?case by (simp add: frame_log_def)
next
  case (snoc u us)
  then show ?case
    by (simp add: pubsub_loop_publish deliver_user_local_def Let_def frame_log_def)
qed

text \<open>
  C33. The pipelined fan-out writes what a publish per member would have. If no account with a socket
  on the worker is missing from the online set, then after the worker has read its channel the
  frames it has written, in order, are the same whether the post went out through \<open>fanout\<close> or
  through \<open>broadcast\<close>, and \<open>fanout\<close> answers the members that \<open>is_online\<close> names.
\<close>

theorem fanout_as_broadcast:
  assumes "\<forall>u \<in> set us. conns_of (workers (pubsub_loop p C) p) u \<noteq> [] \<longrightarrow> u \<in> set (online_uins C)"
  shows "sent_frames (pubsub_loop p (snd (fanout True me us f C))) =
           sent_frames (pubsub_loop p (broadcast True me us f C)) \<and>
         fst (fanout True me us f C) = filter (\<lambda>u. is_online True me u C) us"
proof -
  let ?w = "workers (pubsub_loop p C) p"
  have "frame_log p f ?w (filter (\<lambda>u. u \<in> set (online_uins C)) us) = frame_log p f ?w us"
    using assms by (induction us) (auto simp: frame_log_def)
  then show ?thesis
    using loop_after_publishes [of p C f us] loop_after_publishes [of p C f "filter (\<lambda>u. u \<in> set (online_uins C)) us"]
    by (simp add: fanout_def broadcast_def Let_def is_online_def)
qed

definition sample_frame :: frame where
  "sample_frame = \<lparr>f_type = ''gmsg'', f_payload = ''x'', f_server_time = 5, f_to_device_id = None,
     f_group_id = Some 3, f_seq = None\<rparr>"

definition one_dial :: cluster where
  "one_dial = connect 8 True 0 10 0 7 41 ''primary'' empty_cluster"

theorem fanout_as_broadcast_witness:
  "sent_frames (pubsub_loop 0 (snd (fanout True 1 [7, 8] sample_frame one_dial))) =
     sent_frames (pubsub_loop 0 (broadcast True 1 [7, 8] sample_frame one_dial)) \<and>
   sent_frames (pubsub_loop 0 (broadcast True 1 [7, 8] sample_frame one_dial)) = [(0, 41, sample_frame)]"
proof -
  have "\<forall>u \<in> set [7, 8]. conns_of (workers (pubsub_loop 0 one_dial) 0) u \<noteq> [] \<longrightarrow>
      u \<in> set (online_uins one_dial)"
    by code_simp
  from fanout_as_broadcast [OF this, of 1 sample_frame]
  have "sent_frames (pubsub_loop 0 (snd (fanout True 1 [7, 8] sample_frame one_dial))) =
     sent_frames (pubsub_loop 0 (broadcast True 1 [7, 8] sample_frame one_dial))" by (rule conjunct1)
  moreover have "sent_frames (pubsub_loop 0 (broadcast True 1 [7, 8] sample_frame one_dial)) =
      [(0, 41, sample_frame)]"
    by code_simp
  ultimately show ?thesis by blast
qed

section \<open>A device key outlives its device\<close>

fun ping_gaps :: "datetime \<Rightarrow> datetime list \<Rightarrow> bool" where
  "ping_gaps t [] = True"
| "ping_gaps t (t' # ts) = (t' < t + online_devs_ttl \<and> ping_gaps t' ts)"

lemma touch_live_devs:
  "set (live_devs now' u (snd (touch_device True now u d C))) =
     (if now' < now + online_devs_ttl then insert d (set (live_devs now u C)) else {})"
  by (auto simp: touch_device_def add_online_dev_def live_devs_def Let_def)

lemma pings_keep_device:
  assumes "dead \<in> set (live_devs t u C)" and "ping_gaps t ts" and "now < last (t # ts) + online_devs_ttl"
  shows "dead \<in> set (live_devs now u (fold (\<lambda>t C. snd (touch_device True t u d C)) (t # ts) C))"
  using assms
proof (induction ts arbitrary: t C)
  case Nil
  then show ?case by (simp add: touch_live_devs)
next
  case (Cons t' ts)
  have "dead \<in> set (live_devs t' u (snd (touch_device True t u d C)))"
    using Cons.prems(1,2) by (simp add: touch_live_devs)
  from Cons.IH [OF this] Cons.prems(2,3) show ?case by simp
qed

text \<open>
  C38. One key carries the expiry of every device of an account, so a device that is gone does not age
  out while a sibling stays: if a worker died with a device's entry in the set, that device is
  reported as connected for as long as any other device of the account keeps pinging within
  three minutes, however long that is.
\<close>

theorem dead_device_stays_online:
  assumes "dead \<in> set (live_devs t u C)" and "ping_gaps t ts" and "now < last (t # ts) + online_devs_ttl"
  shows "dead \<in> set (fst (online_devices True me now u
    (fold (\<lambda>t C. snd (touch_device True t u d C)) (t # ts) C)))"
  using pings_keep_device [OF assms] by (simp add: online_devices_def Let_def)

definition phone_and_dead_desktop :: cluster where
  "phone_and_dead_desktop = snd (touch_device True 0 7 ''phone'' (snd (touch_device True 0 7 ''desktop'' empty_cluster)))"

theorem dead_device_stays_online_witness:
  "''desktop'' \<in> set (fst (online_devices True 0 (seconds 310) 7
     (fold (\<lambda>t C. snd (touch_device True t 7 ''phone'' C)) [seconds 25, seconds 150, seconds 300]
        phone_and_dead_desktop)))"
proof -
  have "''desktop'' \<in> set (live_devs (seconds 25) 7 phone_and_dead_desktop)" by code_simp
  from dead_device_stays_online [OF this, of "[seconds 150, seconds 300]" "seconds 310" 0 "''phone''"]
  show ?thesis by (simp add: online_devs_ttl_def)
qed

end
