(* ===== verification/Push.thy ===== *)
theory Push
  imports Schema
begin

text \<open>
  \<open>app/services/apns.py\<close> and \<open>app/services/unifiedpush.py\<close>: who is woken and through which
  endpoints, what a wake carries, how often an endpoint is tried, and what its answers do to the
  registration. Apple and the push distributors are parameters: \<open>try_send host token\<close> is the
  status and reason Apple answers (0 for a transport error), \<open>post endpoint n\<close> the status of the
  n-th POST to an endpoint or the name of the transport error, \<open>parse\<close> the URL parser
  (\<open>None\<close> where it raises). A detached delivery task runs right after the call that starts it.
\<close>

section \<open>Preferences\<close>

definition pref :: "(push_prefs \<Rightarrow> 'a option) \<Rightarrow> 'a \<Rightarrow> push_prefs option \<Rightarrow> 'a" where
  "pref key default' prefs = (case prefs of None \<Rightarrow> default'
     | Some p \<Rightarrow> (case key p of None \<Rightarrow> default' | Some v \<Rightarrow> v))"

definition should_push_for :: "island \<Rightarrow> uin \<Rightarrow> string \<Rightarrow> uin option \<Rightarrow> bool \<Rightarrow> bool" where
  "should_push_for s recipient kind sender sender_is_contact =
     (case find_user s recipient of
        None \<Rightarrow> True
      | Some r \<Rightarrow>
          let prefs = u_push_preferences r;
              muted = pref pp_muted_uins [] prefs
          in if (case sender of None \<Rightarrow> False | Some f \<Rightarrow> f \<in> set muted) then False
             else if kind = ''contact_request'' then pref pp_contact_requests True prefs
             else if kind = ''contact_response_accepted'' then True
             else if kind = ''trade_received'' then
               (if sender_is_contact then pref pp_trades_from_contacts True prefs
                else pref pp_trades_from_strangers False prefs)
             else True)"

definition is_group_muted :: "island \<Rightarrow> uin \<Rightarrow> int \<Rightarrow> bool" where
  "is_group_muted s u gid =
     (case find_user s u of
        None \<Rightarrow> False
      | Some r \<Rightarrow> gid \<in> set (pref pp_muted_group_ids [] (u_push_preferences r)))"

section \<open>The endpoints of a fan-out\<close>

record push_endpoints =
  ios :: "device_token list"
  android :: "device_token list"

definition endpoints_by_platform :: "device_token list \<Rightarrow> push_endpoints" where
  "endpoints_by_platform rows =
     \<lparr>ios = filter (\<lambda>t. dt_platform t = ''ios'') rows,
      android = filter (\<lambda>t. dt_platform t = ''android-up'') rows\<rparr>"

definition group_push_targets :: "island \<Rightarrow> uin list \<Rightarrow> int \<Rightarrow> (uin \<times> push_endpoints) list" where
  "group_push_targets s uins gid =
     (let slot = (\<lambda>u. endpoints_by_platform (filter (\<lambda>t. dt_uin t = u) (device_tokens s)));
          unmuted = (\<lambda>u. case find_user s u of None \<Rightarrow> False
             | Some r \<Rightarrow> gid \<notin> set (pref pp_muted_group_ids [] (u_push_preferences r)))
      in map (\<lambda>u. (u, slot u))
           (filter (\<lambda>u. unmuted u \<and> (ios (slot u) \<noteq> [] \<or> android (slot u) \<noteq> [])) (remdups uins)))"

text \<open>The endpoints left after the author's own and the connected devices are taken out.\<close>

definition wakeable :: "string list \<Rightarrow> device list \<Rightarrow> device_token list \<Rightarrow> device_token list" where
  "wakeable exclude_tokens skip_devices rows =
     filter (\<lambda>t. dt_token t \<notin> set exclude_tokens \<and>
        (skip_devices = [] \<or>
         (case dt_device_id t of None \<Rightarrow> False | Some d \<Rightarrow> d \<noteq> [] \<and> d \<notin> set skip_devices))) rows"

section \<open>What a wake carries\<close>

record wake =
  wk_via :: string
  wk_token :: string
  wk_to_uin :: uin
  wk_title :: string
  wk_body :: string
  wk_env :: "string option"
  wk_env_type :: "string option"
  wk_to_dev :: "int option"
  wk_thread_id :: "string option"
  wk_group_id :: "int option"

definition alert_title :: string where
  "alert_title = ''RCQ''"

text \<open>The arguments of \<open>send_to_user\<close> the two senders share.\<close>

record alert =
  a_body :: string
  a_env :: "string option"
  a_env_type :: string
  a_to_device_id :: "int option"
  a_group_id :: "int option"

definition wake_payload :: "string \<Rightarrow> uin \<Rightarrow> alert \<Rightarrow> device_token \<Rightarrow> wake" where
  "wake_payload via u a t =
     (let env = (case a_env a of None \<Rightarrow> None | Some e \<Rightarrow> if e = [] then None else Some e)
      in \<lparr>wk_via = via, wk_token = dt_token t, wk_to_uin = u, wk_title = alert_title, wk_body = a_body a,
          wk_env = env,
          wk_env_type = (if env = None then None
                         else Some (if a_env_type a = [] then ''message'' else a_env_type a)),
          wk_to_dev = (if env = None then None else a_to_device_id a),
          wk_thread_id = map_option (\<lambda>g. ''group-'' @ show_int g) (a_group_id a),
          wk_group_id = a_group_id a\<rparr>)"

section \<open>APNs\<close>

definition apns_prod_host :: string where
  "apns_prod_host = ''https://api.push.apple.com''"

definition apns_sandbox_host :: string where
  "apns_sandbox_host = ''https://api.sandbox.push.apple.com''"

definition apns_host :: "string \<Rightarrow> string" where
  "apns_host environment = (if environment = ''sandbox'' then apns_sandbox_host else apns_prod_host)"

definition env_mismatch :: "int \<times> string option \<Rightarrow> bool" where
  "env_mismatch r \<longleftrightarrow> r = (403, Some ''BadEnvironmentKeyInToken'') \<or> r = (400, Some ''BadDeviceToken'')"

definition send_one :: "(string \<Rightarrow> string \<Rightarrow> int \<times> string option) \<Rightarrow> string \<Rightarrow> string \<Rightarrow> bool \<times> bool" where
  "send_one try_send environment token =
     (let primary = apns_host environment;
          alternate = (if primary = apns_prod_host then apns_sandbox_host else apns_prod_host);
          first = try_send primary token;
          (status_code, reason) = (if env_mismatch first then try_send alternate token else first)
      in if status_code = 200 then (True, False)
         else (False, status_code \<in> {400, 410} \<or>
                 (status_code = 403 \<and> reason \<in> {Some ''BadDeviceToken'', Some ''Unregistered'',
                    Some ''BadEnvironmentKeyInToken''})))"

definition drop_dead_tokens :: "int list \<Rightarrow> island \<Rightarrow> island" where
  "drop_dead_tokens ids s =
     s\<lparr>device_tokens := filter (\<lambda>t. dt_id t \<notin> set ids) (device_tokens s)\<rparr>"

record apns_config =
  configured :: bool
  environment :: string

text \<open>One token after the other; the answer is the number Apple took, the wakes tried, the island left.\<close>

definition apns_push ::
  "(string \<Rightarrow> string \<Rightarrow> int \<times> string option) \<Rightarrow> apns_config \<Rightarrow> (device_token \<Rightarrow> wake) \<Rightarrow> device_token list
     \<Rightarrow> island \<Rightarrow> int \<times> wake list \<times> island" where
  "apns_push try_send cfg payload tokens s =
     (let results = map (\<lambda>t. (t, send_one try_send (environment cfg) (dt_token t))) tokens
      in (int (length (filter (\<lambda>r. fst (snd r)) results)), map payload tokens,
          drop_dead_tokens (map (\<lambda>r. dt_id (fst r)) (filter (\<lambda>r. snd (snd r)) results)) s))"

definition apns_send_to_user ::
  "(string \<Rightarrow> string \<Rightarrow> int \<times> string option) \<Rightarrow> apns_config \<Rightarrow> uin \<Rightarrow> alert \<Rightarrow> string list \<Rightarrow> device list
     \<Rightarrow> device_token list option \<Rightarrow> island \<Rightarrow> int \<times> wake list \<times> island" where
  "apns_send_to_user try_send cfg u a exclude_tokens skip_devices tokens s =
     (if \<not> configured cfg then (0, [], s)
      else
        let rows = (case tokens of Some ts \<Rightarrow> ts
               | None \<Rightarrow> filter (\<lambda>t. dt_uin t = u \<and> dt_platform t = ''ios'') (device_tokens s))
        in apns_push try_send cfg (wake_payload ''apns'' u a) (wakeable exclude_tokens skip_devices rows) s)"

definition send_voip_to_user ::
  "(string \<Rightarrow> string \<Rightarrow> int \<times> string option) \<Rightarrow> apns_config \<Rightarrow> uin \<Rightarrow> (device_token \<Rightarrow> wake) \<Rightarrow> device option
     \<Rightarrow> island \<Rightarrow> int \<times> wake list \<times> island" where
  "send_voip_to_user try_send cfg u payload except_device s =
     (if \<not> configured cfg then (0, [], s)
      else apns_push try_send cfg payload
        (filter (\<lambda>t. dt_uin t = u \<and> dt_platform t = ''ios-voip'' \<and>
            (except_device = None \<or> (dt_device_id t \<noteq> None \<and> dt_device_id t \<noteq> except_device)))
          (device_tokens s)) s)"

section \<open>UnifiedPush: where a wake is posted\<close>

record url_parts =
  hostname :: string
  url_path :: string
  url_query :: string

text \<open>The operator's environment: relay, local base, and the hosts each stands for.\<close>

record up_config =
  relay_url :: string
  relay_key :: string
  relay_hosts :: "string list"
  local_base :: string
  local_hosts :: "string list"

definition needs_relay :: "(string \<Rightarrow> url_parts option) \<Rightarrow> up_config \<Rightarrow> string \<Rightarrow> bool" where
  "needs_relay parse cfg endpoint =
     (if relay_url cfg = [] \<or> relay_key cfg = [] then False
      else (case parse endpoint of None \<Rightarrow> False | Some p \<Rightarrow> hostname p \<in> set (relay_hosts cfg)))"

definition localize :: "(string \<Rightarrow> url_parts option) \<Rightarrow> up_config \<Rightarrow> string \<Rightarrow> string option" where
  "localize parse cfg endpoint =
     (if local_base cfg = [] then None
      else (case parse endpoint of
              None \<Rightarrow> None
            | Some p \<Rightarrow>
                if hostname p \<notin> set (local_hosts cfg) then None
                else Some (local_base cfg @ url_path p @ (if url_query p = [] then [] else ''?'' @ url_query p))))"

text \<open>The URL posted to, with the endpoint named in a header when it goes through the relay.\<close>

definition post_target :: "(string \<Rightarrow> url_parts option) \<Rightarrow> up_config \<Rightarrow> string \<Rightarrow> string \<times> string option" where
  "post_target parse cfg endpoint =
     (let url = (case localize parse cfg endpoint of None \<Rightarrow> endpoint
                 | Some l \<Rightarrow> if l = [] then endpoint else l)
      in if url = endpoint \<and> needs_relay parse cfg endpoint then (relay_url cfg, Some endpoint)
         else (url, None))"

definition stale_after :: int where
  "stale_after = days 7"

definition quick_lane ::
  "(string \<Rightarrow> url_parts option) \<Rightarrow> up_config \<Rightarrow> datetime \<Rightarrow> string \<Rightarrow> datetime option \<Rightarrow> bool" where
  "quick_lane parse cfg now endpoint last_ok =
     (case parse endpoint of
        None \<Rightarrow> False
      | Some p \<Rightarrow> hostname p \<in> set (relay_hosts cfg) \<and>
          (case last_ok of None \<Rightarrow> True | Some t \<Rightarrow> stale_after < now - t))"

section \<open>UnifiedPush: attempts\<close>

datatype post_outcome = Posted | Again | Gone | Failed

definition retry_statuses :: "int list" where
  "retry_statuses = [408, 429, 500, 502, 503, 504, 507]"

definition post_once :: "string + int \<Rightarrow> post_outcome \<times> string" where
  "post_once answer =
     (case answer of
        Inl exc \<Rightarrow> (Again, exc)
      | Inr code \<Rightarrow>
          ((if 200 \<le> code \<and> code < 300 then Posted
            else if code = 404 \<or> code = 410 then Gone
            else if code \<in> set retry_statuses then Again
            else Failed), show_int code))"

text \<open>The schedule of attempt numbers; the delays between them are not modelled.\<close>

definition attempt_schedule :: "bool \<Rightarrow> nat list" where
  "attempt_schedule quick = (if quick then [0] else [0, 1, 2])"

fun deliver_loop :: "(nat \<Rightarrow> string + int) \<Rightarrow> nat list \<Rightarrow> post_outcome \<times> string \<Rightarrow> post_outcome \<times> string" where
  "deliver_loop post [] result = result"
| "deliver_loop post (n # ns) result =
     (let r = post_once (post n) in if fst r \<noteq> Again then r else deliver_loop post ns r)"

definition deliver :: "(nat \<Rightarrow> string + int) \<Rightarrow> bool \<Rightarrow> post_outcome \<times> string" where
  "deliver post quick = deliver_loop post (attempt_schedule quick) (Failed, ''unsent'')"

section \<open>UnifiedPush: bookkeeping\<close>

text \<open>What a fan-out leaves to be written: healthy, failed and dead registrations.\<close>

record health =
  ok_ids :: "int list"
  failed :: "(int \<times> string) list"
  dead_ids :: "int list"

definition no_health :: health where
  "no_health = \<lparr>ok_ids = [], failed = [], dead_ids = []\<rparr>"

definition ok_stamp_every :: int where
  "ok_stamp_every = hours 1"

definition note_result :: "datetime \<Rightarrow> device_token \<Rightarrow> post_outcome \<times> string \<Rightarrow> health \<Rightarrow> health" where
  "note_result now t r h =
     (case fst r of
        Posted \<Rightarrow>
          if dt_push_last_error t \<noteq> None \<or>
             (case dt_push_last_ok t of None \<Rightarrow> True | Some at \<Rightarrow> at < now - ok_stamp_every)
          then h\<lparr>ok_ids := ok_ids h @ [dt_id t]\<rparr> else h
      | Gone \<Rightarrow> h\<lparr>dead_ids := dead_ids h @ [dt_id t]\<rparr>
      | _ \<Rightarrow>
          if dt_push_last_error t \<noteq> Some (snd r) then h\<lparr>failed := failed h @ [(dt_id t, snd r)]\<rparr> else h)"

definition stamp_ok :: "datetime \<Rightarrow> int list \<Rightarrow> device_token \<Rightarrow> device_token" where
  "stamp_ok now ids t =
     (if dt_id t \<in> set ids then t\<lparr>dt_push_last_error := None, dt_push_last_ok := Some now\<rparr> else t)"

definition stamp_failed :: "int \<times> string \<Rightarrow> device_token \<Rightarrow> device_token" where
  "stamp_failed e t = (if dt_id t = fst e then t\<lparr>dt_push_last_error := Some (take 32 (snd e))\<rparr> else t)"

definition record_health :: "datetime \<Rightarrow> health \<Rightarrow> island \<Rightarrow> island" where
  "record_health now h s =
     (let s1 = drop_dead_tokens (dead_ids h) s
      in s1\<lparr>device_tokens := fold (\<lambda>e. map (stamp_failed e)) (failed h)
                (map (stamp_ok now (ok_ids h)) (device_tokens s1))\<rparr>)"

text \<open>Outcomes collect for a beat and are written in one batch.\<close>

definition queue_health :: "health \<Rightarrow> health \<Rightarrow> health" where
  "queue_health pending h =
     \<lparr>ok_ids = ok_ids pending @ ok_ids h, failed = failed pending @ failed h,
      dead_ids = dead_ids pending @ dead_ids h\<rparr>"

definition flush_health :: "datetime \<Rightarrow> health \<Rightarrow> island \<Rightarrow> health \<times> island" where
  "flush_health now pending s = (no_health, record_health now pending s)"

definition up_endpoints_for :: "island \<Rightarrow> uin \<Rightarrow> device_token list" where
  "up_endpoints_for s u =
     filter (\<lambda>t. dt_uin t = u \<and> dt_platform t = ''android-up'') (device_tokens s)"

text \<open>The environment of a fan-out: the distributors, the parser, the settings and the clock.\<close>

record up_env =
  up_post :: "string \<Rightarrow> nat \<Rightarrow> string + int"
  up_parse :: "string \<Rightarrow> url_parts option"
  up_cfg :: up_config

definition up_fan_out ::
  "up_env \<Rightarrow> datetime \<Rightarrow> uin \<Rightarrow> (device_token \<Rightarrow> wake) \<Rightarrow> string list \<Rightarrow> device list
     \<Rightarrow> device_token list option \<Rightarrow> island \<Rightarrow> wake list \<times> health" where
  "up_fan_out env now u payload exclude_tokens skip_devices endpoints s =
     (let rows = wakeable exclude_tokens skip_devices
            (case endpoints of None \<Rightarrow> up_endpoints_for s u | Some es \<Rightarrow> es);
          result = (\<lambda>t. deliver (up_post env (dt_token t))
            (quick_lane (up_parse env) (up_cfg env) now (dt_token t) (dt_push_last_ok t)))
      in (map payload rows, fold (\<lambda>t. note_result now t (result t)) rows no_health))"

definition up_send_to_user ::
  "up_env \<Rightarrow> datetime \<Rightarrow> uin \<Rightarrow> alert \<Rightarrow> string list \<Rightarrow> device list \<Rightarrow> device_token list option
     \<Rightarrow> island \<Rightarrow> int \<times> wake list \<times> health" where
  "up_send_to_user env now u a exclude_tokens skip_devices endpoints s =
     (1, up_fan_out env now u (wake_payload ''up'' u a) exclude_tokens skip_devices endpoints s)"

definition send_call_to_user ::
  "up_env \<Rightarrow> datetime \<Rightarrow> uin \<Rightarrow> (device_token \<Rightarrow> wake) \<Rightarrow> device list \<Rightarrow> island \<Rightarrow> int \<times> wake list \<times> health" where
  "send_call_to_user env now u payload skip_devices s =
     (1, up_fan_out env now u payload [] skip_devices None s)"

section \<open>What holds of them\<close>

lemma wakeable_exact:
  "t \<in> set (wakeable exclude_tokens skip_devices rows) \<longleftrightarrow>
     t \<in> set rows \<and> dt_token t \<notin> set exclude_tokens \<and>
     (skip_devices = [] \<or> (\<exists>d. dt_device_id t = Some d \<and> d \<noteq> [] \<and> d \<notin> set skip_devices))"
  by (auto simp: wakeable_def split: option.splits)

lemma deliver_loop_cases:
  "deliver_loop post ns r0 =
     (case filter (\<lambda>n. fst (post_once (post n)) \<noteq> Again) ns of
        n # _ \<Rightarrow> post_once (post n)
      | [] \<Rightarrow> if ns = [] then r0 else post_once (post (last ns)))"
  by (induction ns arbitrary: r0) (auto simp: Let_def split: list.splits)

lemma drop_dead_tokens_kept:
  "t \<in> set (device_tokens (drop_dead_tokens ids s)) \<longleftrightarrow> t \<in> set (device_tokens s) \<and> dt_id t \<notin> set ids"
  by (auto simp: drop_dead_tokens_def)

end
