(* ===== verification/Push_Health.thy ===== *)
theory Push_Health
  imports Push
begin

text \<open>
  What one UnifiedPush fan-out and the batched write behind it do to each registration (which
  rows are deleted, stamped, marked as failing or left alone), and which registrations Apple's
  answers end.
\<close>

definition up_result :: "up_env \<Rightarrow> datetime \<Rightarrow> device_token \<Rightarrow> post_outcome \<times> string" where
  "up_result env now t = deliver (up_post env (dt_token t))
     (quick_lane (up_parse env) (up_cfg env) now (dt_token t) (dt_push_last_ok t))"

definition wants_stamp :: "datetime \<Rightarrow> device_token \<Rightarrow> bool" where
  "wants_stamp now t \<longleftrightarrow> dt_push_last_error t \<noteq> None \<or>
     (case dt_push_last_ok t of None \<Rightarrow> True | Some at \<Rightarrow> at < now - ok_stamp_every)"

text \<open>The row a tried registration becomes, \<open>None\<close> where it is deleted.\<close>

definition row_after :: "datetime \<Rightarrow> datetime \<Rightarrow> post_outcome \<times> string \<Rightarrow> device_token \<Rightarrow> device_token option" where
  "row_after now later r t =
     (case fst r of
        Posted \<Rightarrow> Some (if wants_stamp now t
          then t\<lparr>dt_push_last_error := None, dt_push_last_ok := Some later\<rparr> else t)
      | Gone \<Rightarrow> None
      | _ \<Rightarrow> Some (if dt_push_last_error t = Some (snd r) then t
          else t\<lparr>dt_push_last_error := Some (take 32 (snd r))\<rparr>))"

lemma note_results:
  "fold (\<lambda>t. note_result now t (f t)) rows h =
     \<lparr>ok_ids = ok_ids h @ map dt_id (filter (\<lambda>t. fst (f t) = Posted \<and> wants_stamp now t) rows),
      failed = failed h @ map (\<lambda>t. (dt_id t, snd (f t)))
        (filter (\<lambda>t. fst (f t) \<in> {Again, Failed} \<and> dt_push_last_error t \<noteq> Some (snd (f t))) rows),
      dead_ids = dead_ids h @ map dt_id (filter (\<lambda>t. fst (f t) = Gone) rows)\<rparr>"
proof (induction rows arbitrary: h)
  case (Cons t rows)
  then show ?case
    by (cases "fst (f t)") (simp_all add: note_result_def wants_stamp_def)
qed simp

lemma stamp_failed_id [simp]: "dt_id (stamp_failed e t) = dt_id t"
  by (simp add: stamp_failed_def)

lemma stamp_ok_id [simp]: "dt_id (stamp_ok now ids t) = dt_id t"
  by (simp add: stamp_ok_def)

lemma fold_map_rows: "fold (\<lambda>e. map (f e)) es rows = map (fold f es) rows"
  by (induction es arbitrary: rows) (auto simp: comp_def)

lemma fold_stamp_failed:
  assumes "distinct (map fst es)"
  shows "fold stamp_failed es t = (case map_of es (dt_id t) of None \<Rightarrow> t
     | Some d \<Rightarrow> t\<lparr>dt_push_last_error := Some (take 32 d)\<rparr>)"
  using assms
proof (induction es arbitrary: t)
  case (Cons e es)
  have "map_of es (fst e) = None" using Cons.prems by (auto simp: map_of_eq_None_iff)
  moreover have "stamp_failed e t = (if dt_id t = fst e then t\<lparr>dt_push_last_error := Some (take 32 (snd e))\<rparr> else t)"
    by (simp add: stamp_failed_def)
  ultimately show ?case using Cons.IH [of "stamp_failed e t"] Cons.prems
    by (cases "dt_id t = fst e") (simp_all cong: option.case_cong)
qed simp

lemma record_health_rows:
  assumes "distinct (map fst (failed h))"
  shows "device_tokens (record_health now h s) =
     map (\<lambda>t. case map_of (failed h) (dt_id t) of None \<Rightarrow> stamp_ok now (ok_ids h) t
        | Some d \<Rightarrow> (stamp_ok now (ok_ids h) t)\<lparr>dt_push_last_error := Some (take 32 d)\<rparr>)
       (filter (\<lambda>t. dt_id t \<notin> set (dead_ids h)) (device_tokens s))"
  using fold_stamp_failed [OF assms]
  by (simp add: record_health_def Let_def fold_map_rows drop_dead_tokens_def cong: option.case_cong)

lemma map_of_ids:
  assumes "inj_on dt_id (set rows)" and "t \<in> set rows"
  shows "map_of (map (\<lambda>t. (dt_id t, g t)) (filter P rows)) (dt_id t) = (if P t then Some (g t) else None)"
  using assms
proof (induction rows)
  case (Cons r rows)
  show ?case
  proof (cases "r = t")
    case True
    have "dt_id t \<notin> dt_id ` {x \<in> set rows. P x}" if "\<not> P t"
    proof
      assume "dt_id t \<in> dt_id ` {x \<in> set rows. P x}"
      then obtain x where "x \<in> set rows" "P x" "dt_id t = dt_id x" by blast
      moreover from this have "x = t" using Cons.prems(1) True by (auto simp: inj_on_def)
      ultimately show False using that by simp
    qed
    then have "map_of (map (\<lambda>t. (dt_id t, g t)) (filter P rows)) (dt_id t) = None" if "\<not> P t"
      using that by (simp add: map_of_eq_None_iff image_image comp_def)
    then show ?thesis using True by simp
  next
    case False
    then have "t \<in> set rows" "dt_id r \<noteq> dt_id t" using Cons.prems by (auto dest: inj_onD)
    with Cons show ?thesis by auto
  qed
qed simp

lemma row_in_update:
  assumes "inj_on dt_id (set rows)" and "t \<in> set rows" and "\<And>r. dt_id (g r) = dt_id r"
  shows "get_row (\<lambda>r. dt_id r = dt_id t) (map g (filter (\<lambda>r. dt_id r \<notin> D) rows)) =
    (if dt_id t \<in> D then None else Some (g t))"
proof (cases "dt_id t \<in> D")
  case True
  then show ?thesis using assms(3) by (auto simp: get_row_None)
next
  case False
  obtain r where "get_row (\<lambda>r. dt_id r = dt_id t) (map g (filter (\<lambda>r. dt_id r \<notin> D) rows)) = Some r"
    using False assms(2,3) by (cases "get_row (\<lambda>r. dt_id r = dt_id t) (map g (filter (\<lambda>r. dt_id r \<notin> D) rows))")
      (auto simp: get_row_None)
  moreover from get_row_Some_memD [OF this] obtain r0 where "r = g r0" "r0 \<in> set rows" "dt_id r0 = dt_id t"
    using assms(3) by auto
  moreover from this have "r0 = t" using assms(1,2) by (auto dest: inj_onD)
  ultimately show ?thesis using False by simp
qed


section \<open>Registrations Apple ends\<close>

lemma send_one_drop:
  "snd (send_one try_send env token) \<longleftrightarrow>
     (let first = try_send (apns_host env) token;
          final = (if env_mismatch first
            then try_send (if apns_host env = apns_prod_host then apns_sandbox_host else apns_prod_host) token
            else first)
      in fst final \<in> {400, 410} \<or> (fst final = 403 \<and> snd final \<in> {Some ''BadDeviceToken'',
           Some ''Unregistered'', Some ''BadEnvironmentKeyInToken''}))"
  by (auto simp: send_one_def Let_def split: prod.splits if_splits)

lemma apns_push_island:
  "snd (snd (apns_push try_send cfg payload ts s)) =
     drop_dead_tokens (map dt_id (filter (\<lambda>t. snd (send_one try_send (environment cfg) (dt_token t))) ts)) s"
  by (simp add: apns_push_def Let_def filter_map comp_def)

lemma alternate_host:
  "(if apns_host env = apns_prod_host then apns_sandbox_host else apns_prod_host) =
     (if env = ''sandbox'' then apns_prod_host else apns_sandbox_host)"
  by (simp add: apns_host_def apns_prod_host_def apns_sandbox_host_def)

text \<open>
  Apple's answers end a registration only when they say so. After an alert to an account, a
  registration is missing exactly when it was tried and the last answer for it, from the other
  Apple host when the first one named the wrong environment, was 400, 410 or a 403 with a
  dead-token reason. A transport error, a throttle or a server fault keeps it.
\<close>

theorem apns_drops_only_dead:
  assumes "unique_key dt_id (device_tokens s)" and "t \<in> set (device_tokens s)"
    and "apns_send_to_user try_send \<lparr>configured = True, environment = env\<rparr> u a excl skip None s = (n, wakes, s')"
  shows "t \<notin> set (device_tokens s') \<longleftrightarrow>
    dt_uin t = u \<and> dt_platform t = ''ios'' \<and> t \<in> set (wakeable excl skip [t]) \<and>
    (let first = try_send (apns_host env) (dt_token t);
         final = (if env_mismatch first
           then try_send (if env = ''sandbox'' then apns_prod_host else apns_sandbox_host) (dt_token t)
           else first)
     in fst final \<in> {400, 410} \<or> (fst final = 403 \<and> snd final \<in> {Some ''BadDeviceToken'',
          Some ''Unregistered'', Some ''BadEnvironmentKeyInToken''}))"
proof -
  let ?rows = "filter (\<lambda>t. dt_uin t = u \<and> dt_platform t = ''ios'') (device_tokens s)"
  let ?dead = "\<lambda>t. snd (send_one try_send env (dt_token t))"
  have s': "s' = drop_dead_tokens (map dt_id (filter ?dead (wakeable excl skip ?rows))) s"
  proof -
    have "s' = snd (snd (apns_send_to_user try_send \<lparr>configured = True, environment = env\<rparr> u a excl skip None s))"
      by (simp only: assms(3) snd_conv)
    then show ?thesis by (simp only: apns_send_to_user_def apns_config.simps Let_def not_True_eq_False if_False
          option.case apns_push_island)
  qed
  let ?gone = "filter ?dead (wakeable excl skip ?rows)"
  have inj: "inj_on dt_id (set (device_tokens s))" using assms(1) by (simp add: unique_key_def distinct_map)
  have sub: "set ?gone \<subseteq> set (device_tokens s)" by (auto simp: wakeable_def)
  have "t \<notin> set (device_tokens s') \<longleftrightarrow> dt_id t \<in> dt_id ` set ?gone"
    unfolding s' drop_dead_tokens_kept set_map using assms(2) by simp
  also have "\<dots> \<longleftrightarrow> t \<in> set ?gone" by (rule inj_on_image_mem_iff [OF inj assms(2) sub])
  also have "\<dots> \<longleftrightarrow> t \<in> set (wakeable excl skip ?rows) \<and> ?dead t" by simp
  also have "t \<in> set (wakeable excl skip ?rows) \<longleftrightarrow>
      dt_uin t = u \<and> dt_platform t = ''ios'' \<and> t \<in> set (wakeable excl skip [t])"
    using assms(2) unfolding wakeable_exact by simp
  finally show ?thesis unfolding send_one_drop alternate_host by blast
qed

section \<open>Examples\<close>

definition sample_token :: "int \<Rightarrow> string \<Rightarrow> string \<Rightarrow> device_token" where
  "sample_token i tok platform = \<lparr>dt_id = i, dt_uin = 7, dt_token = tok, dt_platform = platform,
     dt_device_id = None, dt_push_last_error = None, dt_push_last_ok = None\<rparr>"

definition flaky_env :: up_env where
  "flaky_env = \<lparr>up_post = (\<lambda>e n. if e = ''a'' then Inr 410 else if n < 2 then Inr 507 else Inr 200),
     up_parse = (\<lambda>_. None),
     up_cfg = \<lparr>relay_url = [], relay_key = [], relay_hosts = [], local_base = [], local_hosts = []\<rparr>\<rparr>"

definition two_endpoints :: island where
  "two_endpoints = empty_island\<lparr>device_tokens :=
     [sample_token 1 ''a'' ''android-up'', sample_token 2 ''b'' ''android-up'']\<rparr>"

definition sample_alert :: alert where
  "sample_alert = \<lparr>a_body = ''New message'', a_env = Some ''e'', a_env_type = ''message'',
     a_to_device_id = None, a_group_id = None\<rparr>"


definition apple_gone :: "string \<Rightarrow> string \<Rightarrow> int \<times> string option" where
  "apple_gone host token =
     (if token = ''a'' then (400, Some ''BadDeviceToken'') else (503, None))"

definition two_phones :: island where
  "two_phones = empty_island\<lparr>device_tokens := [sample_token 1 ''a'' ''ios'', sample_token 2 ''b'' ''ios'']\<rparr>"

theorem apns_drops_only_dead_witness:
  "let s' = snd (snd (apns_send_to_user apple_gone \<lparr>configured = True, environment = ''production''\<rparr> 7
       sample_alert [] [] None two_phones))
   in sample_token 1 ''a'' ''ios'' \<notin> set (device_tokens s') \<and>
      sample_token 2 ''b'' ''ios'' \<in> set (device_tokens s')"
proof -
  let ?a = "sample_token 1 ''a'' ''ios''"
  let ?b = "sample_token 2 ''b'' ''ios''"
  let ?r = "apns_send_to_user apple_gone \<lparr>configured = True, environment = ''production''\<rparr> 7
     sample_alert [] [] None two_phones"
  have u: "unique_key dt_id (device_tokens two_phones)"
    by (simp add: two_phones_def unique_key_def sample_token_def)
  have mem: "?a \<in> set (device_tokens two_phones)" "?b \<in> set (device_tokens two_phones)"
    by (simp_all add: two_phones_def)
  have split: "?r = (fst ?r, fst (snd ?r), snd (snd ?r))" by simp
  show ?thesis
    using apns_drops_only_dead [OF u mem(1) split] apns_drops_only_dead [OF u mem(2) split]
    by (simp add: Let_def wakeable_def sample_token_def apple_gone_def env_mismatch_def)
qed

end
