(* ===== verification/Deposit_Auth.thy ===== *)
theory Deposit_Auth
  imports Rcq_Prelude "HOL-Library.Word" "HOL-Library.Log_Nat"
begin

text \<open>
  \<open>app/core/deposit_auth.py\<close>, \<open>app/core/deposit_auth_store.py\<close> and the two routes of
  \<open>app/routers/deposit_auth.py\<close>: blind RSA tokens, their proof of work, the issuer key and the
  spent set. Bytes are words of eight bits. SHA-384 and SHA-256 are the parameters
  \<open>sha384\<close> and \<open>sha256\<close>, the RSA-PSS verifier of the \<open>cryptography\<close> package is
  \<open>pss_verify\<close>, base64 decoding is \<open>b64decode\<close> (\<open>None\<close> where it raises), and the random
  values the code draws are arguments. An RSA key is the record of its numbers.
\<close>

unbundle bit_operations_syntax

type_synonym bytes = "8 word list"

section \<open>Octet strings\<close>

fun be_bytes :: "nat \<Rightarrow> int \<Rightarrow> bytes" where
  "be_bytes 0 x = []"
| "be_bytes (Suc n) x = be_bytes n (x div 256) @ [word_of_int (x mod 256)]"

text \<open>\<open>None\<close> is the \<open>OverflowError\<close> of \<open>int.to_bytes\<close>.\<close>

definition i2osp :: "int \<Rightarrow> nat \<Rightarrow> bytes option" where
  "i2osp x len = (if x < 0 \<or> 256 ^ len \<le> x then None else Some (be_bytes len x))"

definition os2ip :: "bytes \<Rightarrow> int" where
  "os2ip bs = foldl (\<lambda>a b. a * 256 + uint b) 0 bs"

definition bit_length :: "int \<Rightarrow> nat" where
  "bit_length n = nat (bitlen (\<bar>n\<bar>))"

definition mod_len :: "int \<Rightarrow> nat" where
  "mod_len n = (bit_length n + 7) div 8"

section \<open>EMSA-PSS\<close>

definition salt_len :: nat where
  "salt_len = 48"

definition h_len :: nat where
  "h_len = 48"

definition modulus_bits :: nat where
  "modulus_bits = 2048"

partial_function (option) mgf1_loop ::
  "(bytes \<Rightarrow> bytes) \<Rightarrow> bytes \<Rightarrow> nat \<Rightarrow> bytes \<Rightarrow> int \<Rightarrow> bytes option" where
  [code]: "mgf1_loop sha384 seed len out counter =
     (if length out < len then
        (case i2osp counter 4 of
           None \<Rightarrow> None
         | Some c \<Rightarrow> mgf1_loop sha384 seed len (out @ sha384 (seed @ c)) (counter + 1))
      else Some (take len out))"

definition mgf1 :: "(bytes \<Rightarrow> bytes) \<Rightarrow> bytes \<Rightarrow> nat \<Rightarrow> bytes option" where
  "mgf1 sha384 seed len = mgf1_loop sha384 seed len [] 0"

definition clear_top :: "nat \<Rightarrow> bytes \<Rightarrow> bytes" where
  "clear_top clear bs =
     (if clear = 0 then bs
      else (case bs of [] \<Rightarrow> [] | b # bs' \<Rightarrow> (b AND drop_bit clear 0xFF) # bs'))"

text \<open>\<open>None\<close> is the \<open>ValueError\<close> of a modulus that is too small, or a mask that is never finished.\<close>

definition emsa_pss_encode :: "(bytes \<Rightarrow> bytes) \<Rightarrow> bytes \<Rightarrow> bytes \<Rightarrow> nat \<Rightarrow> bytes option" where
  "emsa_pss_encode sha384 salt msg em_bits =
     (let em_len = (em_bits + 7) div 8;
          m_hash = sha384 msg
      in if em_len < h_len + salt_len + 2 then None
         else
           let h = sha384 (replicate 8 0 @ m_hash @ salt);
               ps = replicate (em_len - salt_len - h_len - 2) 0;
               db = ps @ [1] @ salt
           in (case mgf1 sha384 h (em_len - h_len - 1) of
                 None \<Rightarrow> None
               | Some db_mask \<Rightarrow>
                   Some (clear_top (8 * em_len - em_bits) (map2 (XOR) db db_mask) @ h @ [0xBC])))"

section \<open>Blind, sign, finalize\<close>

record rsa_key =
  rsa_n :: int
  rsa_e :: nat
  rsa_d :: nat
  rsa_p :: int
  rsa_q :: int
  rsa_dmp1 :: nat
  rsa_dmq1 :: nat
  rsa_iqmp :: int

text \<open>\<open>pow(r, -1, n)\<close>, which raises unless \<open>r\<close> is a unit.\<close>

definition mod_inverse :: "int \<Rightarrow> int \<Rightarrow> int option" where
  "mod_inverse r n = (if gcd r n = 1 then Some (fst (bezw (nat r) (nat n)) mod n) else None)"

text \<open>The loop that draws until it has a unit; \<open>rs\<close> is what the generator would draw.\<close>

fun pick_blinding :: "int \<Rightarrow> int list \<Rightarrow> (int \<times> int) option" where
  "pick_blinding n [] = None"
| "pick_blinding n (r # rs) =
     (case mod_inverse r n of None \<Rightarrow> pick_blinding n rs | Some r_inv \<Rightarrow> Some (r, r_inv))"

definition blind_int :: "int \<Rightarrow> nat \<Rightarrow> int \<Rightarrow> int list \<Rightarrow> (int \<times> int) option" where
  "blind_int n e m rs =
     (if n \<le> m then None
      else (case pick_blinding n rs of
              None \<Rightarrow> None
            | Some (r, r_inv) \<Rightarrow> Some ((m * (r ^ e mod n)) mod n, r_inv)))"

definition blind ::
  "(bytes \<Rightarrow> bytes) \<Rightarrow> bytes \<Rightarrow> int list \<Rightarrow> int \<Rightarrow> nat \<Rightarrow> bytes \<Rightarrow> (bytes \<times> int) option" where
  "blind sha384 salt rs n e prepared =
     (case emsa_pss_encode sha384 salt prepared (bit_length n - 1) of
        None \<Rightarrow> None
      | Some em \<Rightarrow>
          (case blind_int n e (os2ip em) rs of
             None \<Rightarrow> None
           | Some (x, r_inv) \<Rightarrow> map_option (\<lambda>bs. (bs, r_inv)) (i2osp x (mod_len n))))"

definition sign_int :: "rsa_key \<Rightarrow> int \<Rightarrow> int" where
  "sign_int k x =
     (let m1 = (x mod rsa_p k) ^ rsa_dmp1 k mod rsa_p k;
          m2 = (x mod rsa_q k) ^ rsa_dmq1 k mod rsa_q k;
          h = (rsa_iqmp k * (m1 - m2)) mod rsa_p k
      in (m2 + h * rsa_q k) mod rsa_n k)"

definition blind_sign :: "bytes \<Rightarrow> rsa_key \<Rightarrow> bytes option" where
  "blind_sign blinded k =
     (let x = os2ip blinded
      in if 0 \<le> x \<and> x < rsa_n k then i2osp (sign_int k x) (mod_len (rsa_n k)) else None)"

definition finalize ::
  "(int \<times> nat \<Rightarrow> bytes \<Rightarrow> bytes \<Rightarrow> bool) \<Rightarrow> bytes \<Rightarrow> int \<Rightarrow> int \<times> nat \<Rightarrow> bytes \<Rightarrow> bytes option" where
  "finalize pss_verify blind_sig blind_inv pub prepared =
     (let n = fst pub
      in (case i2osp (os2ip blind_sig * blind_inv mod n) (mod_len n) of
            None \<Rightarrow> None
          | Some sig \<Rightarrow> if pss_verify pub prepared sig then Some sig else None))"

definition pub_of :: "rsa_key \<Rightarrow> int \<times> nat" where
  "pub_of k = (rsa_n k, rsa_e k)"

section \<open>Identifiers\<close>

definition hex_digit :: "int \<Rightarrow> char" where
  "hex_digit d = ''0123456789abcdef'' ! nat d"

definition hexdigest :: "bytes \<Rightarrow> string" where
  "hexdigest bs = concat (map (\<lambda>b. [hex_digit (uint b div 16), hex_digit (uint b mod 16)]) bs)"

definition token_id :: "(bytes \<Rightarrow> bytes) \<Rightarrow> bytes \<Rightarrow> bytes \<Rightarrow> string" where
  "token_id sha256 prepared sig = hexdigest (sha256 (prepared @ sig))"

definition epoch_id :: "(bytes \<Rightarrow> bytes) \<Rightarrow> int \<times> nat \<Rightarrow> string" where
  "epoch_id sha256 pub = take 16 (hexdigest (sha256 (be_bytes (mod_len (fst pub)) (fst pub))))"

section \<open>Proof of work\<close>

fun leading_zero_bits :: "bytes \<Rightarrow> nat" where
  "leading_zero_bits [] = 0"
| "leading_zero_bits (b # bs) =
     (if b = 0 then 8 + leading_zero_bits bs else 8 - bit_length (uint b))"

definition utf8_ascii :: "string \<Rightarrow> bytes" where
  "utf8_ascii s = map (\<lambda>c. of_char c) s"

definition verify_pow :: "(bytes \<Rightarrow> bytes) \<Rightarrow> string \<Rightarrow> string \<Rightarrow> nat \<Rightarrow> bool" where
  "verify_pow sha256 challenge nonce difficulty_bits \<longleftrightarrow>
     difficulty_bits \<le> leading_zero_bits (sha256 (utf8_ascii (challenge @ '':'' @ nonce)))"

partial_function (option) solve_pow_loop :: "(bytes \<Rightarrow> bytes) \<Rightarrow> string \<Rightarrow> nat \<Rightarrow> int \<Rightarrow> string option" where
  [code]: "solve_pow_loop sha256 challenge difficulty_bits counter =
     (if verify_pow sha256 challenge (show_int counter) difficulty_bits then Some (show_int counter)
      else solve_pow_loop sha256 challenge difficulty_bits (counter + 1))"

definition solve_pow :: "(bytes \<Rightarrow> bytes) \<Rightarrow> string \<Rightarrow> nat \<Rightarrow> string option" where
  "solve_pow sha256 challenge difficulty_bits = solve_pow_loop sha256 challenge difficulty_bits 0"

section \<open>The store\<close>

text \<open>The Redis keys: the issuer key, and each spent token with the instant its entry expires.\<close>

record deposit_store =
  issuer :: "rsa_key option"
  spent :: "string \<rightharpoonup> datetime"

definition spent_ttl :: int where
  "spent_ttl = 14 * 24 * 3600"

text \<open>\<open>fresh\<close> is the key this worker would generate, \<open>raced\<close> one another worker stored meanwhile.\<close>

definition issuer_key :: "rsa_key \<Rightarrow> rsa_key option \<Rightarrow> deposit_store \<Rightarrow> rsa_key \<times> deposit_store" where
  "issuer_key fresh raced s =
     (case issuer s of
        Some k \<Rightarrow> (k, s)
      | None \<Rightarrow>
          (case raced of
             Some k \<Rightarrow> (k, s\<lparr>issuer := Some k\<rparr>)
           | None \<Rightarrow> (fresh, s\<lparr>issuer := Some fresh\<rparr>)))"

datatype issue_reason = Stale_Epoch | Bad_Base64 | Low_Pow | Malformed

definition sign_blinded ::
  "(bytes \<Rightarrow> bytes) \<Rightarrow> (string \<Rightarrow> bytes option) \<Rightarrow> rsa_key \<Rightarrow> string \<Rightarrow> string \<Rightarrow> string \<Rightarrow> nat \<Rightarrow> deposit_store
     \<Rightarrow> (issue_reason + bytes) \<times> deposit_store" where
  "sign_blinded sha256 b64decode fresh epoch blinded_b64 pow_nonce pow_bits s =
     (case issuer_key fresh None s of (priv, s') \<Rightarrow>
        (if epoch \<noteq> epoch_id sha256 (pub_of priv) then Inl Stale_Epoch
         else (case b64decode blinded_b64 of
                 None \<Rightarrow> Inl Bad_Base64
               | Some blinded \<Rightarrow>
                   if \<not> verify_pow sha256 (epoch @ '':'' @ blinded_b64) pow_nonce pow_bits then Inl Low_Pow
                   else (case blind_sign blinded priv of None \<Rightarrow> Inl Malformed | Some bs \<Rightarrow> Inr bs)),
         s'))"

text \<open>A token as the JSON object a deposit carries; a missing field is \<open>None\<close>.\<close>

record deposit_token =
  tk_epoch_id :: "string option"
  tk_prepared :: "string option"
  tk_sig :: "string option"

definition spent_key :: "(bytes \<Rightarrow> bytes) \<Rightarrow> string \<Rightarrow> bytes \<Rightarrow> bytes \<Rightarrow> string" where
  "spent_key sha256 epoch prepared sig = ''depauth:spent:'' @ epoch @ '':'' @ token_id sha256 prepared sig"

text \<open>The crypto of the host, as one record: the two hashes, the verifier and the decoder.\<close>

record crypto =
  c_sha256 :: "bytes \<Rightarrow> bytes"
  c_b64decode :: "string \<Rightarrow> bytes option"
  c_pss_verify :: "int \<times> nat \<Rightarrow> bytes \<Rightarrow> bytes \<Rightarrow> bool"

definition verify_and_consume_token ::
  "crypto \<Rightarrow> rsa_key \<Rightarrow> datetime \<Rightarrow> deposit_token \<Rightarrow> deposit_store \<Rightarrow> bool \<times> deposit_store" where
  "verify_and_consume_token c fresh now tk s =
     (case (tk_epoch_id tk, Option.bind (tk_prepared tk) (c_b64decode c), Option.bind (tk_sig tk) (c_b64decode c)) of
        (Some epoch, Some prepared, Some sig) \<Rightarrow>
          (case issuer_key fresh None s of (priv, s1) \<Rightarrow>
             if epoch \<noteq> epoch_id (c_sha256 c) (pub_of priv) then (False, s1)
             else if \<not> c_pss_verify c (pub_of priv) prepared sig then (False, s1)
             else
               let key = spent_key (c_sha256 c) epoch prepared sig
               in (case spent s1 key of
                     Some until \<Rightarrow>
                       if now < until then (False, s1)
                       else (True, s1\<lparr>spent := (spent s1)(key \<mapsto> now + seconds spent_ttl)\<rparr>)
                   | None \<Rightarrow> (True, s1\<lparr>spent := (spent s1)(key \<mapsto> now + seconds spent_ttl)\<rparr>)))
      | _ \<Rightarrow> (False, s))"

section \<open>The routes\<close>

text \<open>The detail of the first answer goes on after a dash, a character outside this file's alphabet.\<close>

definition reason_status :: "issue_reason \<Rightarrow> http_error" where
  "reason_status r = (case r of
     Stale_Epoch \<Rightarrow> HttpError 409 ''stale epoch'' None
   | Bad_Base64 \<Rightarrow> HttpError 400 ''blinded not base64'' None
   | Low_Pow \<Rightarrow> HttpError 400 ''insufficient proof-of-work'' None
   | Malformed \<Rightarrow> HttpError 400 ''malformed blinded value'' None)"

definition deposit_params ::
  "(bytes \<Rightarrow> bytes) \<Rightarrow> bool \<Rightarrow> nat \<Rightarrow> rsa_key \<Rightarrow> deposit_store
     \<Rightarrow> (string \<times> (int \<times> nat) \<times> nat) outcome \<times> deposit_store" where
  "deposit_params sha256 enabled pow_bits fresh s =
     (if \<not> enabled then (Inl (HttpError 404 ''deposit-auth not enabled'' None), s)
      else (case issuer_key fresh None s of (priv, s') \<Rightarrow>
              (Inr (epoch_id sha256 (pub_of priv), pub_of priv, pow_bits), s')))"

definition deposit_issue ::
  "(bytes \<Rightarrow> bytes) \<Rightarrow> (string \<Rightarrow> bytes option) \<Rightarrow> bool \<Rightarrow> nat \<Rightarrow> rsa_key \<Rightarrow> string \<Rightarrow> string \<Rightarrow> string
     \<Rightarrow> deposit_store \<Rightarrow> (string \<times> bytes) outcome \<times> deposit_store" where
  "deposit_issue sha256 b64decode enabled pow_bits fresh epoch blinded pow_nonce s =
     (if \<not> enabled then (Inl (HttpError 404 ''deposit-auth not enabled'' None), s)
      else (case sign_blinded sha256 b64decode fresh epoch blinded pow_nonce pow_bits s of
              (Inl r, s') \<Rightarrow> (Inl (reason_status r), s')
            | (Inr bs, s') \<Rightarrow> (Inr (epoch, bs), s')))"

section \<open>Octet strings: the round trip\<close>

lemma length_be_bytes [simp]: "length (be_bytes n x) = n"
  by (induction n arbitrary: x) auto

lemma os2ip_snoc: "os2ip (bs @ [b]) = os2ip bs * 256 + uint b"
  by (simp add: os2ip_def)

lemma os2ip_be_bytes: "0 \<le> x \<Longrightarrow> x < 256 ^ n \<Longrightarrow> os2ip (be_bytes n x) = x"
proof (induction n arbitrary: x)
  case 0
  then show ?case by (simp add: os2ip_def)
next
  case (Suc n)
  have "x div 256 < 256 ^ n" using Suc.prems by (simp add: div_less_iff_less_mult mult.commute)
  with Suc have "os2ip (be_bytes n (x div 256)) = x div 256" by simp
  moreover have "uint (word_of_int (x mod 256) :: 8 word) = x mod 256" by (simp add: uint_word_of_int)
  ultimately show ?case by (simp add: os2ip_snoc)
qed

lemma os2ip_bounds: "0 \<le> os2ip bs \<and> os2ip bs < 256 ^ length bs"
proof (induction bs rule: rev_induct)
  case (snoc b bs)
  have "uint b < 256" "0 \<le> uint b" using uint_lt2p [of b] by auto
  with snoc show ?case by (auto simp: os2ip_snoc)
qed (simp add: os2ip_def)

lemma be_bytes_os2ip: "be_bytes (length bs) (os2ip bs) = bs"
proof (induction bs rule: rev_induct)
  case (snoc b bs)
  have "uint b < 256" "0 \<le> uint b" using uint_lt2p [of b] by auto
  then have "(os2ip bs * 256 + uint b) div 256 = os2ip bs" "(os2ip bs * 256 + uint b) mod 256 = uint b" by auto
  with snoc show ?case by (simp add: os2ip_snoc)
qed simp

text \<open>
  The two conversions of RFC 8017 are inverse to each other: a number that fits is encoded and read
  back unchanged, a number that does not fit is refused, and every octet string is the encoding
  of its own value at its own length.
\<close>

theorem octets_round_trip:
  "(case i2osp x len of
      Some bs \<Rightarrow> length bs = len \<and> os2ip bs = x
    | None \<Rightarrow> x < 0 \<or> 256 ^ len \<le> x) \<and>
   i2osp (os2ip bs) (length bs) = Some bs"
  using os2ip_bounds [of bs] by (auto simp: i2osp_def os2ip_be_bytes be_bytes_os2ip)

section \<open>Blind signatures\<close>

text \<open>
  What the package promises of a private key: the modulus is the product of two coprime
  factors, the three CRT numbers belong to the exponent, and signing undoes the public power.
\<close>

definition rsa_key_ok :: "rsa_key \<Rightarrow> bool" where
  "rsa_key_ok k \<longleftrightarrow>
     1 < rsa_p k \<and> 1 < rsa_q k \<and> rsa_n k = rsa_p k * rsa_q k \<and> coprime (rsa_p k) (rsa_q k) \<and>
     (rsa_iqmp k * rsa_q k) mod rsa_p k = 1 \<and>
     (\<forall>x. x ^ rsa_dmp1 k mod rsa_p k = x ^ rsa_d k mod rsa_p k) \<and>
     (\<forall>x. x ^ rsa_dmq1 k mod rsa_q k = x ^ rsa_d k mod rsa_q k) \<and>
     (\<forall>x. (x ^ rsa_e k) ^ rsa_d k mod rsa_n k = x mod rsa_n k)"

lemma crt_unique:
  fixes a b p q :: int
  assumes "coprime p q" and "a mod p = b mod p" and "a mod q = b mod q"
  shows "a mod (p * q) = b mod (p * q)"
proof -
  have "p dvd a - b" "q dvd a - b" using assms(2,3) by (simp_all add: mod_eq_dvd_iff)
  then have "p * q dvd a - b" using assms(1) by (simp add: divides_mult)
  then show ?thesis by (simp add: mod_eq_dvd_iff)
qed

lemma garner:
  fixes a b i p q :: int
  assumes "(i * q) mod p = 1"
  shows "(b + (i * (a - b)) mod p * q) mod p = a mod p"
proof -
  have "((i * (a - b)) mod p * q) mod p = ((i * q) * (a - b)) mod p"
    by (simp only: mod_mult_left_eq) (simp add: ac_simps)
  also have "\<dots> = ((i * q) mod p * (a - b)) mod p" by (simp only: mod_mult_left_eq)
  finally have "((i * (a - b)) mod p * q) mod p = (a - b) mod p" using assms by simp
  then have "(b + (i * (a - b)) mod p * q) mod p = (b + (a - b)) mod p" by (metis mod_add_right_eq)
  then show ?thesis by simp
qed

lemma sign_int_power:
  assumes "rsa_key_ok k"
  shows "sign_int k x = x ^ rsa_d k mod rsa_n k"
proof -
  let ?p = "rsa_p k" and ?q = "rsa_q k"
  let ?m1 = "(x mod ?p) ^ rsa_dmp1 k mod ?p" and ?m2 = "(x mod ?q) ^ rsa_dmq1 k mod ?q"
  let ?h = "(rsa_iqmp k * (?m1 - ?m2)) mod ?p"
  let ?y = "?m2 + ?h * ?q"
  have m1: "?m1 = x ^ rsa_d k mod ?p" and m2: "?m2 = x ^ rsa_d k mod ?q"
    using assms by (simp_all add: rsa_key_ok_def power_mod)
  have "?y mod ?p = ?m1 mod ?p" by (rule garner) (use assms in \<open>simp add: rsa_key_ok_def\<close>)
  then have "?y mod ?p = x ^ rsa_d k mod ?p" unfolding m1 by simp
  moreover have "?y mod ?q = x ^ rsa_d k mod ?q" by (simp add: m2)
  ultimately have "?y mod (?p * ?q) = x ^ rsa_d k mod (?p * ?q)"
    using assms by (intro crt_unique) (simp_all add: rsa_key_ok_def)
  then show ?thesis using assms by (simp add: sign_int_def Let_def rsa_key_ok_def)
qed

lemma mod_inverse_law:
  assumes "mod_inverse r n = Some i" and "0 < r" and "1 < n"
  shows "(r * i) mod n = 1"
proof -
  have i: "i = fst (bezw (nat r) (nat n)) mod n" and g: "gcd r n = 1"
    using assms(1) by (auto simp: mod_inverse_def split: if_splits)
  have "int (gcd (nat r) (nat n)) = 1" using g assms(2,3) by (simp add: gcd_int_def)
  then have "fst (bezw (nat r) (nat n)) * r + snd (bezw (nat r) (nat n)) * n = 1"
    using bezw_aux [of "nat r" "nat n"] assms(2,3) by simp
  then have "(fst (bezw (nat r) (nat n)) * r) mod n = 1"
    using assms(3) by (metis mod_mult_self1 mult.commute mod_pos_pos_trivial zero_le_one)
  then show ?thesis unfolding i by (simp add: mod_mult_right_eq mult.commute)
qed

lemma pick_blinding_unit:
  assumes "pick_blinding n rs = Some (r, i)" and "\<forall>r \<in> set rs. 0 < r" and "1 < n"
  shows "(r * i) mod n = 1"
  using assms by (induction rs) (auto split: option.splits intro: mod_inverse_law)

lemma bit_length_bound: "0 \<le> n \<Longrightarrow> n < 2 ^ bit_length n"
  using bitlen_bounds [of n] by (cases "n = 0") (auto simp: bit_length_def bitlen_nonneg)

lemma mod_len_fits: "0 < n \<Longrightarrow> n < 256 ^ mod_len n"
proof -
  assume "0 < n"
  then have "n < 2 ^ bit_length n" by (intro bit_length_bound) simp
  also have "(2 :: int) ^ bit_length n \<le> 2 ^ (8 * mod_len n)"
    by (intro power_increasing) (auto simp: mod_len_def)
  also have "\<dots> = 256 ^ mod_len n" by (simp add: power_mult)
  finally show ?thesis .
qed

text \<open>
  C25. An issued token opens. For a key as the package makes them, the value the issuer signs blind is
  the one plain RSA signing would give, and once the sender has taken the blinding off, the
  signature raised to the public exponent is the encoded message, whatever the sender drew. The
  issuer's answer always fits the modulus length.
\<close>

theorem blind_token_opens:
  assumes "rsa_key_ok k" and "0 \<le> m" and "m < rsa_n k" and "\<forall>r \<in> set rs. 0 < r"
    and "blind_int (rsa_n k) (rsa_e k) m rs = Some (x, r_inv)"
    and "i2osp x (mod_len (rsa_n k)) = Some blinded"
  shows "\<exists>bs. blind_sign blinded k = Some bs \<and>
    os2ip bs = x ^ rsa_d k mod rsa_n k \<and>
    (os2ip bs * r_inv mod rsa_n k) ^ rsa_e k mod rsa_n k = m"
proof -
  let ?n = "rsa_n k" and ?d = "rsa_d k" and ?e = "rsa_e k"
  have "1 * 1 < rsa_p k * rsa_q k" using assms(1) by (intro mult_strict_mono) (auto simp: rsa_key_ok_def)
  then have n: "1 < ?n" using assms(1) by (simp add: rsa_key_ok_def)
  obtain r where pick: "pick_blinding ?n rs = Some (r, r_inv)" and x: "x = (m * (r ^ ?e mod ?n)) mod ?n"
    using assms(5) by (auto simp: blind_int_def split: if_splits option.splits)
  have unit: "(r * r_inv) mod ?n = 1" by (rule pick_blinding_unit [OF pick assms(4) n])
  have open': "(y ^ ?e) ^ ?d mod ?n = y mod ?n" for y
    using assms(1) unfolding rsa_key_ok_def by blast
  have val: "os2ip blinded = x" and xb: "0 \<le> x" "x < ?n"
    using assms(6) n by (auto simp: i2osp_def os2ip_be_bytes x split: if_splits)
  have sign: "sign_int k x = x ^ ?d mod ?n" by (rule sign_int_power [OF assms(1)])
  have "x ^ ?d mod ?n < 256 ^ mod_len ?n"
    using mod_len_fits [of ?n] n by (intro less_trans [OF pos_mod_bound]) auto
  moreover have "\<not> x ^ ?d mod ?n < 0" using pos_mod_sign [of ?n "x ^ ?d"] n by linarith
  ultimately have bs: "blind_sign blinded k = Some (be_bytes (mod_len ?n) (x ^ ?d mod ?n))"
    and os: "os2ip (be_bytes (mod_len ?n) (x ^ ?d mod ?n)) = x ^ ?d mod ?n"
    using xb by (auto simp: blind_sign_def val sign i2osp_def os2ip_be_bytes)
  have "x ^ ?d mod ?n = (m * r ^ ?e) ^ ?d mod ?n" unfolding x by (simp add: mod_mult_right_eq power_mod)
  also have "\<dots> = (m ^ ?d * ((r ^ ?e) ^ ?d mod ?n)) mod ?n" by (simp add: power_mult_distrib mod_mult_right_eq)
  also have "\<dots> = (m ^ ?d * r) mod ?n" by (simp add: open' mod_mult_right_eq)
  finally have "(x ^ ?d mod ?n * r_inv) mod ?n = (m ^ ?d * ((r * r_inv) mod ?n)) mod ?n"
    by (simp add: mod_simps mult.assoc)
  then have s: "(x ^ ?d mod ?n * r_inv) mod ?n = m ^ ?d mod ?n" by (simp add: unit)
  have "(m ^ ?d mod ?n) ^ ?e mod ?n = (m ^ ?e) ^ ?d mod ?n" by (simp add: power_mod power_mult [symmetric] mult.commute)
  also have "\<dots> = m" using assms(2,3) by (simp add: open')
  finally show ?thesis using bs os s by auto
qed

definition small_key :: rsa_key where
  "small_key = \<lparr>rsa_n = 33, rsa_e = 3, rsa_d = 7, rsa_p = 3, rsa_q = 11, rsa_dmp1 = 1, rsa_dmq1 = 7, rsa_iqmp = 2\<rparr>"

lemma power_cases:
  assumes "\<forall>y \<in> set [0 .. n - 1]. (y ^ j) mod n = (y ^ k) mod n" and "0 < n"
  shows "(x ^ j) mod n = (x ^ k) mod (n :: int)"
proof -
  have "x mod n \<in> set [0 .. n - 1]" using assms(2) by simp
  with assms(1) have "(x mod n) ^ j mod n = (x mod n) ^ k mod n" by blast
  then show ?thesis by (simp add: power_mod)
qed

lemma small_key_ok: "rsa_key_ok small_key"
proof -
  have "(x ^ 1) mod 3 = (x ^ 7) mod 3" for x :: int by (rule power_cases) code_simp+
  moreover have "(x ^ 21) mod 33 = (x ^ 1) mod 33" for x :: int by (rule power_cases) code_simp+
  moreover have "coprime (3 :: int) 11" by code_simp
  ultimately show ?thesis by (simp add: rsa_key_ok_def small_key_def power_mult [symmetric])
qed

theorem blind_token_opens_witness:
  "blind_int 33 3 5 [2] = Some (7, 17) \<and>
   (\<exists>bs. blind_sign [7] small_key = Some bs \<and> (os2ip bs * 17 mod 33) ^ 3 mod 33 = 5)"
proof -
  have b: "blind_int 33 3 5 [2] = Some (7, 17)" by code_simp
  have i: "i2osp 7 (mod_len 33) = Some [7]" by code_simp
  have n: "rsa_n small_key = 33" "rsa_e small_key = 3" by (simp_all add: small_key_def)
  from blind_token_opens [OF small_key_ok, unfolded n, OF _ _ _ b i] b show ?thesis by auto
qed

section \<open>The encoded message\<close>

text \<open>SHA-384 answers 48 octets.\<close>

definition digest48 :: "(bytes \<Rightarrow> bytes) \<Rightarrow> bool" where
  "digest48 sha384 \<longleftrightarrow> (\<forall>x. length (sha384 x) = h_len)"

lemma mgf1_loop_returns:
  assumes "digest48 sha384" and "len \<le> 48 * 2 ^ 32" and "length out = 48 * c"
  shows "\<exists>mask. mgf1_loop sha384 seed len out (int c) = Some mask \<and> length mask = len"
  using assms(3)
proof (induction "len - length out" arbitrary: out c rule: less_induct)
  case less
  show ?case
  proof (cases "length out < len")
    case False
    then show ?thesis by (simp add: mgf1_loop.simps)
  next
    case True
    then have "c < 2 ^ 32" using less.prems assms(2) by simp
    then have "int c < 256 ^ 4" by simp
    then obtain cb where cb: "i2osp (int c) 4 = Some cb" by (auto simp: i2osp_def)
    let ?out = "out @ sha384 (seed @ cb)"
    have len: "length ?out = 48 * Suc c" using less.prems assms(1) by (simp add: digest48_def h_len_def)
    with True less.prems have "len - length ?out < len - length out" by simp
    from less.hyps [OF this len] True cb show ?thesis
      by (simp add: mgf1_loop.simps [of sha384 seed len out] add.commute)
  qed
qed

text \<open>
  C34. The mask generator always finishes: for every seed and every length up to the RFC's limit it
  answers a mask of exactly that length.
\<close>

theorem mgf1_terminates:
  assumes "digest48 sha384" and "len \<le> 48 * 2 ^ 32"
  shows "\<exists>mask. mgf1 sha384 seed len = Some mask \<and> length mask = len"
  using mgf1_loop_returns [OF assms, of "[]" 0] by (simp add: mgf1_def)

theorem mgf1_terminates_witness:
  "\<exists>mask. mgf1 (\<lambda>x. replicate 48 0xA5) [1, 2] 100 = Some mask \<and> length mask = 100"
  by (rule mgf1_terminates) (simp_all add: digest48_def h_len_def)

text \<open>EMSA-PSS-VERIFY of RFC 8017, section 9.1.2, as the verifier of the token runs it.\<close>

definition emsa_pss_verify :: "(bytes \<Rightarrow> bytes) \<Rightarrow> bytes \<Rightarrow> bytes \<Rightarrow> nat \<Rightarrow> bool" where
  "emsa_pss_verify sha384 msg em em_bits =
     (let em_len = (em_bits + 7) div 8;
          db_len = em_len - h_len - 1;
          masked_db = take db_len em;
          h = take h_len (drop db_len em);
          clear = 8 * em_len - em_bits
      in length em = em_len \<and> h_len + salt_len + 2 \<le> em_len \<and> last em = 0xBC \<and>
         clear_top clear masked_db = masked_db \<and>
         (case mgf1 sha384 h db_len of
            None \<Rightarrow> False
          | Some db_mask \<Rightarrow>
              let db = clear_top clear (map2 (XOR) masked_db db_mask);
                  ps_len = em_len - h_len - salt_len - 2;
                  salt = drop (Suc ps_len) db
              in take ps_len db = replicate ps_len 0 \<and> db ! ps_len = 1 \<and>
                 h = sha384 (replicate 8 0 @ sha384 msg @ salt)))"

lemma length_clear_top [simp]: "length (clear_top c bs) = length bs"
  by (auto simp: clear_top_def split: list.splits)

lemma clear_top_idem: "clear_top c (clear_top c bs) = clear_top c bs"
  by (auto simp: clear_top_def and.assoc split: list.splits)

lemma clear_top_xor:
  "length a = length b \<Longrightarrow>
   clear_top c (map2 (XOR) (clear_top c (map2 (XOR) a b)) b) = clear_top c a"
proof -
  have twice: "map2 (XOR) (map2 (XOR) xs ys) ys = xs" if "length xs = length ys" for xs ys :: bytes
    using that by (induction xs ys rule: list_induct2) (auto simp: xor.assoc)
  have byte: "(((x XOR y) AND m) XOR y) AND m = x AND m" for x y m :: "8 word"
    by (rule bit_eqI) (auto simp: bit_simps)
  assume "length a = length b"
  then show ?thesis
    by (cases a; cases b) (auto simp: clear_top_def twice byte xor.assoc)
qed

lemma os2ip_Cons: "os2ip (b # bs) = uint b * 256 ^ length bs + os2ip bs"
  by (induction bs rule: rev_induct) (simp_all add: os2ip_snoc [of "_ # _", simplified] os2ip_snoc os2ip_def algebra_simps)

lemma top_mask_bound: "c \<le> 8 \<Longrightarrow> uint (drop_bit c (0xFF :: 8 word)) < 2 ^ (8 - c)"
proof -
  have "\<forall>c \<in> set [0..<9]. uint (drop_bit c (0xFF :: 8 word)) < 2 ^ (8 - c)" by code_simp
  then show "c \<le> 8 \<Longrightarrow> ?thesis" by simp
qed

lemma top_mask_low: "c < 8 \<Longrightarrow> 1 AND drop_bit c (0xFF :: 8 word) = 1"
proof -
  have "\<forall>c \<in> set [0..<8]. 1 AND drop_bit c (0xFF :: 8 word) = 1" by code_simp
  then show "c < 8 \<Longrightarrow> ?thesis" by simp
qed

lemma clear_top_bound:
  assumes "c \<le> 8" and "bs \<noteq> []"
  shows "os2ip (clear_top c bs) < 2 ^ (8 * length bs - c)"
proof (cases bs)
  case (Cons b bs')
  let ?b = "if c = 0 then b else b AND drop_bit c 0xFF"
  have "uint ?b < 2 ^ (8 - c)"
  proof (cases "c = 0")
    case True
    then show ?thesis using uint_lt2p [of b] by simp
  next
    case False
    have "uint (b AND drop_bit c 0xFF) \<le> uint (drop_bit c (0xFF :: 8 word))"
      by (simp add: uint_and AND_upper2')
    also have "\<dots> < 2 ^ (8 - c)" by (rule top_mask_bound [OF assms(1)])
    finally show ?thesis using False by simp
  qed
  then have "uint ?b + 1 \<le> 2 ^ (8 - c)" by simp
  then have "(uint ?b + 1) * 256 ^ length bs' \<le> 2 ^ (8 - c) * 256 ^ length bs'" by (rule mult_right_mono) simp
  also have "(2 :: int) ^ (8 - c) * 256 ^ length bs' = 2 ^ (8 - c + 8 * length bs')"
    by (simp add: power_add power_mult)
  also have "8 - c + 8 * length bs' = 8 * length bs - c" using assms(1) Cons by simp
  finally have "(uint ?b + 1) * 256 ^ length bs' \<le> 2 ^ (8 * length bs - c)" .
  moreover have "os2ip (clear_top c bs) < (uint ?b + 1) * 256 ^ length bs'"
    using os2ip_bounds [of bs'] Cons by (auto simp: clear_top_def os2ip_Cons algebra_simps)
  ultimately show ?thesis by linarith
qed (use assms in simp)

lemma clear_top_append: "bs \<noteq> [] \<Longrightarrow> clear_top c (bs @ cs) = clear_top c bs @ cs"
  by (cases bs) (auto simp: clear_top_def)

lemma clear_top_small:
  assumes "c < 8" and "\<forall>b \<in> set (take 1 bs). b = 0 \<or> b = 1"
  shows "clear_top c bs = bs"
proof (cases bs)
  case (Cons b bs')
  with top_mask_low [OF assms(1)] assms(2) show ?thesis by (auto simp: clear_top_def)
qed (simp add: clear_top_def)

lemma db_parts:
  "take k (replicate k 0 @ [1] @ salt) = replicate k (0 :: 8 word)" "(replicate k 0 @ [1] @ salt) ! k = (1 :: 8 word)"
  "drop (Suc k) (replicate k 0 @ [1] @ salt) = (salt :: bytes)"
  by (simp_all add: nth_append)

lemma encode_shape:
  fixes msg :: bytes
  assumes "digest48 sha384" and "length salt = salt_len" and "em_bits \<le> 2 ^ 32"
    and "h_len + salt_len + 2 \<le> (em_bits + 7) div 8"
  defines "em_len \<equiv> (em_bits + 7) div 8"
  defines "h \<equiv> sha384 (replicate 8 0 @ sha384 msg @ salt)"
  defines "db \<equiv> replicate (em_len - h_len - salt_len - 2) 0 @ [1] @ salt"
  obtains mask where "mgf1 sha384 h (em_len - h_len - 1) = Some mask" "length mask = length db"
    "length db = em_len - h_len - 1"
    "emsa_pss_encode sha384 salt msg em_bits =
       Some (clear_top (8 * em_len - em_bits) (map2 (XOR) db mask) @ h @ [0xBC])"
proof -
  have len: "length db = em_len - h_len - 1"
    using assms(2,4) by (simp add: db_def em_len_def h_len_def salt_len_def)
  have "em_len - h_len - 1 \<le> 48 * 2 ^ 32" using assms(3) by (simp add: em_len_def)
  from mgf1_loop_returns [OF assms(1) this, of "[]" 0 h]
  obtain mask where "mgf1 sha384 h (em_len - h_len - 1) = Some mask" "length mask = em_len - h_len - 1"
    by (auto simp: mgf1_def)
  moreover from this have "emsa_pss_encode sha384 salt msg em_bits =
      Some (clear_top (8 * em_len - em_bits) (map2 (XOR) db mask) @ h @ [0xBC])"
    using assms(4) by (simp add: emsa_pss_encode_def Let_def em_len_def h_def db_def
        add.commute [of salt_len])
  ultimately show ?thesis using that len by simp
qed

text \<open>
  C26. The encoding the sender signs is the one RFC 8017 verifies. For a modulus that is large enough,
  the encoding exists, has the length of the modulus, is a number below two to the power of the
  encoding's bits (so below the modulus, and the range check before blinding never fires), and
  the RFC's verification accepts it for the same message.
\<close>

theorem pss_encoding_verifies:
  assumes "digest48 sha384" and "length salt = salt_len" and "em_bits \<le> 2 ^ 32"
    and "h_len + salt_len + 2 \<le> (em_bits + 7) div 8"
  shows "\<exists>em. emsa_pss_encode sha384 salt msg em_bits = Some em \<and>
    length em = (em_bits + 7) div 8 \<and> os2ip em < 2 ^ em_bits \<and> emsa_pss_verify sha384 msg em em_bits"
proof -
  let ?len = "(em_bits + 7) div 8"
  let ?h = "sha384 (replicate 8 0 @ sha384 msg @ salt)"
  let ?ps = "?len - h_len - salt_len - 2"
  let ?db = "replicate ?ps 0 @ [1] @ salt"
  let ?c = "8 * ?len - em_bits"
  obtain mask where mask: "mgf1 sha384 ?h (?len - h_len - 1) = Some mask" "length mask = length ?db"
      and len: "length ?db = ?len - h_len - 1"
      and em: "emsa_pss_encode sha384 salt msg em_bits = Some (clear_top ?c (map2 (XOR) ?db mask) @ ?h @ [0xBC])"
    by (rule encode_shape [OF assms])
  let ?masked = "clear_top ?c (map2 (XOR) ?db mask)"
  let ?em = "?masked @ ?h @ [0xBC]"
  have c: "?c < 8" "?c \<le> 8" and bits: "8 * ?len - ?c = em_bits" by auto
  have h: "length ?h = h_len" using assms(1) by (simp add: digest48_def)
  have mlen: "length ?masked = ?len - h_len - 1" using mask(2) len by simp
  have "0 < length ?masked" using mlen assms(4) by simp
  then have xne: "map2 (XOR) ?db mask \<noteq> []" by (simp only: length_clear_top length_greater_0_conv) simp
  have emlen: "length ?em = ?len" using mlen h assms(4) by simp
  have "?em = clear_top ?c (map2 (XOR) ?db mask @ ?h @ [0xBC])" using xne by (simp add: clear_top_append)
  moreover have "length (map2 (XOR) ?db mask @ ?h @ [0xBC]) = ?len" using emlen by simp
  ultimately have bound: "os2ip ?em < 2 ^ em_bits"
    using clear_top_bound [OF c(2), of "map2 (XOR) ?db mask @ ?h @ [0xBC]"] xne bits by simp
  have "clear_top ?c ?db = ?db" by (rule clear_top_small [OF c(1)]) (cases ?ps; simp)
  then have db: "clear_top ?c (map2 (XOR) ?masked mask) = ?db" using clear_top_xor mask(2) by metis
  have parts: "take (?len - h_len - 1) ?em = ?masked" "take h_len (drop (?len - h_len - 1) ?em) = ?h"
    using mlen h by simp_all
  have "emsa_pss_verify sha384 msg ?em em_bits"
    unfolding emsa_pss_verify_def Let_def parts mask(1) option.case db db_parts clear_top_idem
    using emlen assms(4) by simp
  with em emlen bound show ?thesis by blast
qed

theorem pss_encoding_verifies_witness:
  "\<exists>em. emsa_pss_encode (\<lambda>x. replicate 48 0xA5) (replicate 48 7) [1, 2, 3] 1021 = Some em \<and>
     length em = 128 \<and> os2ip em < 2 ^ 1021 \<and> emsa_pss_verify (\<lambda>x. replicate 48 0xA5) [1, 2, 3] em 1021"
proof -
  have "digest48 (\<lambda>x. replicate 48 0xA5)" by (simp add: digest48_def h_len_def)
  from pss_encoding_verifies [OF this, of "replicate 48 7" 1021 "[1, 2, 3]"] show ?thesis
    by (simp add: h_len_def salt_len_def)
qed

section \<open>Proof of work\<close>

text \<open>
  The reference solver answers the first nonce that meets the difficulty, if there is one at all:
  every smaller counter fails the check and the answer passes it.
\<close>

theorem solve_pow_least:
  assumes "verify_pow sha256 challenge (show_int (int n)) bits"
  shows "\<exists>k \<le> n. solve_pow sha256 challenge bits = Some (show_int (int k)) \<and>
    verify_pow sha256 challenge (show_int (int k)) bits \<and>
    (\<forall>j < k. \<not> verify_pow sha256 challenge (show_int (int j)) bits)"
proof -
  let ?ok = "\<lambda>k. verify_pow sha256 challenge (show_int (int k)) bits"
  define k where "k = (LEAST k. ?ok k)"
  have ok: "?ok k" unfolding k_def using assms by (rule LeastI)
  have least: "\<not> ?ok j" if "j < k" for j using not_less_Least that unfolding k_def by blast
  have "solve_pow_loop sha256 challenge bits (int j) = Some (show_int (int k))" if "j \<le> k" for j
    using that
  proof (induction "k - j" arbitrary: j)
    case 0
    then have "j = k" by simp
    then show ?case using ok by (simp add: solve_pow_loop.simps)
  next
    case (Suc i)
    then have "j < k" by simp
    moreover have "solve_pow_loop sha256 challenge bits (int (Suc j)) = Some (show_int (int k))"
      using Suc.hyps(1) [of "Suc j"] Suc.hyps(2) \<open>j < k\<close> by simp
    ultimately show ?case
      using least by (subst solve_pow_loop.simps) (simp add: add.commute)
  qed
  from this [of 0] have "solve_pow sha256 challenge bits = Some (show_int (int k))" by (simp add: solve_pow_def)
  moreover have "k \<le> n" unfolding k_def using assms by (rule Least_le)
  ultimately show ?thesis using ok least by blast
qed

theorem solve_pow_least_witness:
  "\<exists>k \<le> 3. solve_pow (\<lambda>m. if m = utf8_ascii ''c:3'' then [0, 1] else [255]) ''c'' 9 = Some (show_int (int k)) \<and>
     verify_pow (\<lambda>m. if m = utf8_ascii ''c:3'' then [0, 1] else [255]) ''c'' (show_int (int k)) 9 \<and>
     (\<forall>j < k. \<not> verify_pow (\<lambda>m. if m = utf8_ascii ''c:3'' then [0, 1] else [255]) ''c'' (show_int (int j)) 9)"
  by (rule solve_pow_least) code_simp

section \<open>One token, one deposit\<close>

text \<open>A run of deposits with tokens, each at its own instant.\<close>

primrec spend_run :: "crypto \<Rightarrow> rsa_key \<Rightarrow> (datetime \<times> deposit_token) list \<Rightarrow> deposit_store \<Rightarrow> deposit_store" where
  "spend_run c fresh [] s = s"
| "spend_run c fresh (p # ps) s =
     spend_run c fresh ps (snd (verify_and_consume_token c fresh (fst p) (snd p) s))"

text \<open>A token is booked until an instant when its entry exists and lasts at least that long.\<close>

definition booked :: "string \<Rightarrow> datetime \<Rightarrow> deposit_store \<Rightarrow> bool" where
  "booked key until s \<longleftrightarrow> (\<exists>u. spent s key = Some u \<and> until \<le> u)"

lemma spent_issuer_key [simp]: "spent (snd (issuer_key fresh raced s)) = spent s"
  by (auto simp: issuer_key_def split: option.splits)

lemma issuer_issuer_key [simp]: "issuer (snd (issuer_key fresh raced s)) = Some (fst (issuer_key fresh raced s))"
  by (auto simp: issuer_key_def split: option.splits)

lemma issuer_key_stable: "issuer s = Some k \<Longrightarrow> issuer_key fresh raced s = (k, s)"
  by (simp add: issuer_key_def)

lemma consume_cases:
  obtains "fst (verify_and_consume_token c fresh now tk s) = False"
      "spent (snd (verify_and_consume_token c fresh now tk s)) = spent s"
  | key where "verify_and_consume_token c fresh now tk s =
      (True, (snd (issuer_key fresh None s))\<lparr>spent := (spent s)(key \<mapsto> now + seconds spent_ttl)\<rparr>)"
      "\<forall>u. spent s key = Some u \<longrightarrow> u \<le> now"
proof (cases "\<exists>epoch prepared sig. tk_epoch_id tk = Some epoch \<and>
    Option.bind (tk_prepared tk) (c_b64decode c) = Some prepared \<and>
    Option.bind (tk_sig tk) (c_b64decode c) = Some sig")
  case False
  then have "verify_and_consume_token c fresh now tk s = (False, s)"
    by (auto simp: verify_and_consume_token_def split: option.splits)
  then show ?thesis using that(1) by simp
next
  case True
  then obtain epoch prepared sig where tk: "tk_epoch_id tk = Some epoch"
    "Option.bind (tk_prepared tk) (c_b64decode c) = Some prepared"
    "Option.bind (tk_sig tk) (c_b64decode c) = Some sig" by blast
  obtain priv s1 where k: "issuer_key fresh None s = (priv, s1)" by fastforce
  have same: "spent s1 = spent s" using spent_issuer_key [of fresh None s] k by simp
  let ?key = "spent_key (c_sha256 c) epoch prepared sig"
  show ?thesis
  proof (cases "epoch \<noteq> epoch_id (c_sha256 c) (pub_of priv) \<or> \<not> c_pss_verify c (pub_of priv) prepared sig \<or>
      (\<exists>u. spent s ?key = Some u \<and> now < u)")
    case True
    then have "verify_and_consume_token c fresh now tk s = (False, s1)"
      using same by (auto simp: verify_and_consume_token_def tk k Let_def)
    then show ?thesis using that(1) same by simp
  next
    case False
    then have "verify_and_consume_token c fresh now tk s =
        (True, s1\<lparr>spent := (spent s)(?key \<mapsto> now + seconds spent_ttl)\<rparr>)"
      using same by (auto simp: verify_and_consume_token_def tk k Let_def split: option.splits)
    then show ?thesis using that(2) [of ?key] False k by (auto simp: not_less)
  qed
qed

lemma consume_keeps_booked:
  assumes "booked key until s"
  shows "booked key until (snd (verify_and_consume_token c fresh now tk s))"
proof (rule consume_cases [of c fresh now tk s])
  fix key'
  assume v: "verify_and_consume_token c fresh now tk s =
      (True, (snd (issuer_key fresh None s))\<lparr>spent := (spent s)(key' \<mapsto> now + seconds spent_ttl)\<rparr>)"
    and old: "\<forall>u. spent s key' = Some u \<longrightarrow> u \<le> now"
  show ?thesis using assms old by (auto simp: booked_def v spent_ttl_def)
qed (use assms in \<open>simp add: booked_def\<close>)

lemma run_keeps_booked: "booked key until s \<Longrightarrow> booked key until (spend_run c fresh ps s)"
  by (induction ps arbitrary: s) (auto intro: consume_keeps_booked)

lemma issuer_consume: "issuer s = Some k \<Longrightarrow> issuer (snd (verify_and_consume_token c fresh now tk s)) = Some k"
  by (auto simp: verify_and_consume_token_def issuer_key_stable Let_def split: option.splits)

lemma issuer_run: "issuer s = Some k \<Longrightarrow> issuer (spend_run c fresh ps s) = Some k"
  by (induction ps arbitrary: s) (auto intro: issuer_consume)

text \<open>What a successful spend proves of the token and leaves behind.\<close>

lemma consumeE:
  assumes "verify_and_consume_token c fresh now tk s = (True, s1)"
  obtains epoch prepared sig k where
    "tk_epoch_id tk = Some epoch" "Option.bind (tk_prepared tk) (c_b64decode c) = Some prepared"
    "Option.bind (tk_sig tk) (c_b64decode c) = Some sig" "issuer s1 = Some k"
    "epoch = epoch_id (c_sha256 c) (pub_of k)" "c_pss_verify c (pub_of k) prepared sig"
    "spent s1 (spent_key (c_sha256 c) epoch prepared sig) = Some (now + seconds spent_ttl)"
proof -
  obtain priv s0 where k: "issuer_key fresh None s = (priv, s0)" by fastforce
  then have "issuer s0 = Some priv" using issuer_issuer_key [of fresh None s] by simp
  then show ?thesis using assms that
    by (auto simp: verify_and_consume_token_def k Let_def split: option.splits if_splits)
qed

text \<open>
  C6. A token pays for one deposit. Once a token has been accepted it is refused for the next fourteen
  days, whatever other tokens are spent in between and in whatever order.
\<close>

theorem token_single_use:
  assumes "verify_and_consume_token c fresh t tk s = (True, s1)"
    and "t' < t + seconds spent_ttl"
  shows "\<not> fst (verify_and_consume_token c fresh t' tk (spend_run c fresh others s1))"
proof -
  let ?s = "spend_run c fresh others s1"
  from assms(1) obtain epoch prepared sig k where
      tk: "tk_epoch_id tk = Some epoch" "Option.bind (tk_prepared tk) (c_b64decode c) = Some prepared"
        "Option.bind (tk_sig tk) (c_b64decode c) = Some sig"
      and k: "issuer s1 = Some k"
      and sp: "spent s1 (spent_key (c_sha256 c) epoch prepared sig) = Some (t + seconds spent_ttl)"
    by (rule consumeE)
  let ?key = "spent_key (c_sha256 c) epoch prepared sig"
  have "booked ?key (t + seconds spent_ttl) s1" using sp by (simp add: booked_def)
  then have "booked ?key (t + seconds spent_ttl) ?s" by (rule run_keeps_booked)
  then obtain u where "spent ?s ?key = Some u" "t' < u" using assms(2) by (auto simp: booked_def)
  moreover have "issuer ?s = Some k" by (rule issuer_run [OF k])
  ultimately show ?thesis
    by (cases "epoch = epoch_id (c_sha256 c) (pub_of k)")
       (auto simp: verify_and_consume_token_def tk issuer_key_stable Let_def)
qed

text \<open>
  C39. The window is the whole protection: the token itself carries no date, so from the instant its
  entry expires the same token is accepted again, as long as the issuer key has not been rotated.
\<close>

theorem token_spends_again:
  assumes "verify_and_consume_token c fresh t tk s = (True, s1)"
    and "t + seconds spent_ttl \<le> t'"
  shows "fst (verify_and_consume_token c fresh t' tk s1)"
proof -
  from assms(1) obtain epoch prepared sig k where
      tk: "tk_epoch_id tk = Some epoch" "Option.bind (tk_prepared tk) (c_b64decode c) = Some prepared"
        "Option.bind (tk_sig tk) (c_b64decode c) = Some sig"
      and k: "issuer s1 = Some k" "epoch = epoch_id (c_sha256 c) (pub_of k)" "c_pss_verify c (pub_of k) prepared sig"
      and sp: "spent s1 (spent_key (c_sha256 c) epoch prepared sig) = Some (t + seconds spent_ttl)"
    by (rule consumeE)
  then show ?thesis using assms(2)
    by (simp add: verify_and_consume_token_def issuer_key_stable Let_def)
qed

definition open_crypto :: crypto where
  "open_crypto = \<lparr>c_sha256 = (\<lambda>bs. take 32 (bs @ replicate 32 0)), c_b64decode = (\<lambda>s. Some (utf8_ascii s)),
     c_pss_verify = (\<lambda>pub prepared sig. sig = prepared)\<rparr>"

definition sample_deposit_token :: deposit_token where
  "sample_deposit_token = \<lparr>tk_epoch_id = Some ''2100000000000000'', tk_prepared = Some ''m'', tk_sig = Some ''m''\<rparr>"

definition keyed_store :: deposit_store where
  "keyed_store = \<lparr>issuer = Some small_key, spent = Map.empty\<rparr>"

lemma sample_spend: "fst (verify_and_consume_token open_crypto small_key 5 sample_deposit_token keyed_store)"
  by code_simp

theorem token_single_use_witness:
  "\<not> fst (verify_and_consume_token open_crypto small_key (5 + days 13) sample_deposit_token
     (snd (verify_and_consume_token open_crypto small_key 5 sample_deposit_token keyed_store)))"
proof -
  have "verify_and_consume_token open_crypto small_key 5 sample_deposit_token keyed_store =
      (True, snd (verify_and_consume_token open_crypto small_key 5 sample_deposit_token keyed_store))"
    using sample_spend by (metis prod.collapse)
  from token_single_use [OF this, of "5 + days 13" "[]"] show ?thesis by (simp add: spent_ttl_def)
qed

theorem token_spends_again_witness:
  "fst (verify_and_consume_token open_crypto small_key (5 + days 14) sample_deposit_token
     (snd (verify_and_consume_token open_crypto small_key 5 sample_deposit_token keyed_store)))"
proof -
  have "verify_and_consume_token open_crypto small_key 5 sample_deposit_token keyed_store =
      (True, snd (verify_and_consume_token open_crypto small_key 5 sample_deposit_token keyed_store))"
    using sample_spend by (metis prod.collapse)
  from token_spends_again [OF this, of "5 + days 14"] show ?thesis by (simp add: spent_ttl_def)
qed

end
