(* ===== verification/Delivery.thy ===== *)
theory Delivery
  imports Group_Log Rate_Limit Cluster Push Deposit_Auth
begin

text \<open>
  The sending half of \<open>app/routers/messages.py\<close>: the sealed deposit, the sealed group fan-out
  and the sender-keys broadcast, with the gates in front of them (rate limits, deposit token,
  owner-only rooms, slowmode, the account-age floor, the fan-out budget) and everything they
  touch: the queue, the room log, the sockets of the cluster and the push services. One request
  runs within one reading of the clock, and Redis either answers all of its calls or none. A
  detached push task runs at the end of the request. The log lines and the activity counters are
  left out.
\<close>

section \<open>State and environment\<close>

record office =
  db :: island
  clu :: cluster
  limits :: limiter
  dep :: deposit_store
  slow_batch :: "string \<rightharpoonup> int \<times> datetime"
  slow_free :: "string \<rightharpoonup> datetime"
  wakes :: "wake list"
  pending_health :: health

record host =
  bucket_name :: "string \<Rightarrow> string"
  redis_ttl :: "datetime \<Rightarrow> int"
  crypto_of :: crypto
  fresh_key :: rsa_key
  apple :: "string \<Rightarrow> string \<Rightarrow> int \<times> string option"
  apns_cfg :: apns_config
  unified :: up_env
  sweep_cfg :: sweep_config
  deposit_required :: bool
  worker_pid :: nat

definition redis_ok :: "office \<Rightarrow> bool" where
  "redis_ok b = redis_up (db b)"

definition with_limiter :: "(limiter \<Rightarrow> 'a \<times> limiter) \<Rightarrow> office \<Rightarrow> 'a \<times> office" where
  "with_limiter op b = (case op (limits b) of (a, L) \<Rightarrow> (a, b\<lparr>limits := L\<rparr>))"

definition limit_call :: "host \<Rightarrow> string \<Rightarrow> string \<Rightarrow> int \<Rightarrow> int \<Rightarrow> datetime \<Rightarrow> office \<Rightarrow> unit outcome \<times> office" where
  "limit_call h identity rule limit window now b =
     with_limiter (enforce_rate_limit (bucket_name h) (redis_ok b) identity rule limit window False now) b"

section \<open>Requests and answers\<close>

record sealed_send_in =
  ss_to_uin :: uin
  ss_envelope_type :: string
  ss_cls :: "int option"
  ss_ring :: bool
  ss_payload :: string
  ss_deposit_token :: "deposit_token option"
  ss_to_device_id :: "int option"

record group_sealed_send_in =
  gs_group_id :: int
  gs_envelope_type :: string
  gs_payloads :: "(uin \<times> string) list"
  gs_batch :: "string option"
  gs_batch_size :: int

record group_broadcast_in =
  gb_group_id :: int
  gb_envelope_type :: string
  gb_batch :: "string option"
  gb_batch_size :: int
  gb_payload :: string

record send_out =
  delivered :: bool
  queued :: bool
  server_time :: datetime

text \<open>The caller of a group route: the account of the token if any, the client and peer addresses.\<close>

record requester =
  rq_caller :: "uin option"
  rq_identity :: string
  rq_client_ip :: string
  rq_peer :: "string option"

section \<open>Push\<close>

definition call_wake_env_max :: nat where
  "call_wake_env_max = 3500"

definition call_wake :: "string \<Rightarrow> uin \<Rightarrow> string \<Rightarrow> device_token \<Rightarrow> wake" where
  "call_wake via u payload t =
     \<lparr>wk_via = via, wk_token = dt_token t, wk_to_uin = u, wk_title = [], wk_body = [],
      wk_env = (if length payload \<le> call_wake_env_max then Some payload else None),
      wk_env_type = Some ''call'', wk_to_dev = None, wk_thread_id = None, wk_group_id = None\<rparr>"

definition wake_for_sealed_call :: "host \<Rightarrow> datetime \<Rightarrow> uin \<Rightarrow> string \<Rightarrow> office \<Rightarrow> int \<times> office" where
  "wake_for_sealed_call h now u payload b =
     (case send_voip_to_user (apple h) (apns_cfg h) u (call_wake ''voip'' u payload) None (db b) of
        (sent, ws, s) \<Rightarrow>
          (case send_call_to_user (unified h) now u (call_wake ''up'' u payload) [] s of
             (sent', ws', hl) \<Rightarrow>
               (sent + sent', b\<lparr>db := s, wakes := wakes b @ ws @ ws',
                  pending_health := queue_health (pending_health b) hl\<rparr>)))"

text \<open>The APNs alert and its UnifiedPush twin, with the endpoints a fan-out has read already.\<close>

definition push_both ::
  "host \<Rightarrow> datetime \<Rightarrow> uin \<Rightarrow> alert \<Rightarrow> string list \<Rightarrow> device list \<Rightarrow> push_endpoints option \<Rightarrow> office \<Rightarrow> int \<times> office" where
  "push_both h now u a exclude_tokens skip_devices ends b =
     (case apns_send_to_user (apple h) (apns_cfg h) u a exclude_tokens skip_devices
             (map_option ios ends) (db b) of
        (sent, ws, s) \<Rightarrow>
          (case up_send_to_user (unified h) now u a exclude_tokens skip_devices (map_option android ends) s of
             (sent', ws', hl) \<Rightarrow>
               (sent + sent', b\<lparr>db := s, wakes := wakes b @ ws @ ws',
                  pending_health := queue_health (pending_health b) hl\<rparr>)))"

section \<open>The sealed deposit\<close>

definition spend_deposit_token ::
  "host \<Rightarrow> datetime \<Rightarrow> deposit_token option \<Rightarrow> office \<Rightarrow> unit outcome \<times> office" where
  "spend_deposit_token h now token b =
     (case token of
        None \<Rightarrow>
          (if deposit_required h then Inl (HttpError 402 ''a deposit token is required'' None) else Inr (), b)
      | Some tk \<Rightarrow>
          if \<not> redis_ok b then (Inl (HttpError 500 ''internal_error'' None), b)
          else (case verify_and_consume_token (crypto_of h) (fresh_key h) now tk (dep b) of
                  (ok, d) \<Rightarrow>
                    (if ok then Inr () else Inl (HttpError 403 ''invalid or spent deposit token'' None),
                     b\<lparr>dep := d\<rparr>)))"

definition deposit_cls :: "sealed_send_in \<Rightarrow> int" where
  "deposit_cls body =
     (case ss_cls body of
        Some c \<Rightarrow> if c \<in> {0, 1, 2} then c else cls_for (ss_envelope_type body)
      | None \<Rightarrow> cls_for (ss_envelope_type body))"

definition deposit_frame :: "datetime \<Rightarrow> sealed_send_in \<Rightarrow> frame" where
  "deposit_frame now body =
     \<lparr>f_type = (if ss_envelope_type body = ''call'' then ''message'' else ss_envelope_type body),
      f_payload = ss_payload body, f_server_time = now, f_to_device_id = ss_to_device_id body,
      f_group_id = None, f_seq = None\<rparr>"

text \<open>The wakes of a deposit that was committed.\<close>

definition deposit_push ::
  "host \<Rightarrow> datetime \<Rightarrow> sealed_send_in \<Rightarrow> bool \<Rightarrow> bool \<Rightarrow> office \<Rightarrow> office" where
  "deposit_push h now body target_is_guest delivered' b =
     (let cls = deposit_cls body;
          ring = ss_ring body \<or> ss_envelope_type body = ''call'';
          u = ss_to_uin body
      in if target_is_guest then b
         else if ring then
           (if \<not> delivered' then snd (wake_for_sealed_call h now u (ss_payload body) b) else b)
         else if cls = 1 \<and> ss_envelope_type body \<in> set never_push_types then b
         else if cls = 1 then
           (case online_devices (redis_ok b) (worker_pid h) now u (clu b) of
              (devs, c) \<Rightarrow>
                let b1 = b\<lparr>clu := c\<rparr>
                in if \<not> delivered' \<or> devs \<noteq> [] then
                     snd (push_both h now u
                       \<lparr>a_body = ''New message'', a_env = Some (ss_payload body),
                        a_env_type = ss_envelope_type body, a_to_device_id = ss_to_device_id body,
                        a_group_id = None\<rparr> [] devs None b1)
                   else b1)
         else b)"

definition send_sealed ::
  "host \<Rightarrow> datetime \<Rightarrow> string \<Rightarrow> sealed_send_in \<Rightarrow> office \<Rightarrow> send_out outcome \<times> office" where
  "send_sealed h now identity body b0 =
     (case limit_call h identity ''messages_send'' 120 60 now b0 of
        (Inl e, b) \<Rightarrow> (Inl e, b)
      | (Inr _, b) \<Rightarrow>
          (case find_user (db b) (ss_to_uin body) of
             None \<Rightarrow> (Inl (HttpError 404 ''no such user'' None), b)
           | Some target \<Rightarrow>
               (case spend_deposit_token h now (ss_deposit_token body) b of
                  (Inl e, b1) \<Rightarrow> (Inl e, b1)
                | (Inr _, b1) \<Rightarrow>
                    (case send (redis_ok b1) (worker_pid h) (ss_to_uin body) (deposit_frame now body) None (clu b1) of
                       (online, c) \<Rightarrow>
                         let b2 = b1\<lparr>clu := c\<rparr>;
                             (row, s) = store_direct now (ss_to_uin body) (ss_envelope_type body)
                               (deposit_cls body) (ss_payload body) (ss_to_device_id body) (db b2)
                         in if list_ex (\<lambda>r. om_to_uin r = om_to_uin row \<and> om_seq r = om_seq row)
                                 (offline_messages (db b2))
                            then (Inl (HttpError 503 ''seq allocation collided, retry'' None), b2)
                            else
                              (Inr \<lparr>delivered = online, queued = True, server_time = now\<rparr>,
                               deposit_push h now body (u_guest_status target \<noteq> None) online
                                 (b2\<lparr>db := s\<rparr>))))))"

section \<open>Who a group post is kept for\<close>

definition queueable :: "sweep_config \<Rightarrow> datetime \<Rightarrow> (uin \<times> datetime option) list \<Rightarrow> uin list" where
  "queueable cfg now rows =
     (case dormant_cutoff cfg now of
        None \<Rightarrow> map fst rows
      | Some cutoff \<Rightarrow>
          map fst (filter (\<lambda>r. case snd r of None \<Rightarrow> False | Some seen \<Rightarrow> cutoff \<le> seen) rows))"

definition keep_for :: "uin list \<Rightarrow> uin list \<Rightarrow> int \<Rightarrow> uin list \<Rightarrow> string \<Rightarrow> uin list" where
  "keep_for recipients queueable' cls wake ty =
     (if cls = 2 \<and> ty \<noteq> ''sknack'' then recipients else queueable' @ wake)"

section \<open>Slowmode and the age floor\<close>

definition slowmode_pair_grace :: int where
  "slowmode_pair_grace = 30"

definition slowmode_batch_grace :: int where
  "slowmode_batch_grace = 300"

definition slowmode_identity :: "int \<Rightarrow> uin \<Rightarrow> string" where
  "slowmode_identity gid u = ''g'' @ show_int gid @ '':uin:'' @ show_int u"

definition slowmode_free_key :: "host \<Rightarrow> string \<Rightarrow> int \<Rightarrow> uin \<Rightarrow> string" where
  "slowmode_free_key h path gid u =
     ''gslowfree:'' @ bucket_name h (path @ '':g'' @ show_int gid @ '':uin:'' @ show_int u)"

definition slowmode_batch_key :: "host \<Rightarrow> int \<Rightarrow> uin \<Rightarrow> string \<Rightarrow> string" where
  "slowmode_batch_key h gid u batch =
     ''gslowbatch:'' @ bucket_name h (''g'' @ show_int gid @ '':uin:'' @ show_int u @ '':'' @ batch)"

definition other_path :: "string \<Rightarrow> string" where
  "other_path path = (if path = ''broadcast'' then ''sealed'' else ''broadcast'')"

definition arm_free_pass :: "host \<Rightarrow> string \<Rightarrow> int \<Rightarrow> uin \<Rightarrow> datetime \<Rightarrow> office \<Rightarrow> office" where
  "arm_free_pass h path gid u now b =
     b\<lparr>slow_free := (slow_free b)(slowmode_free_key h (other_path path) gid u
         \<mapsto> now + seconds slowmode_pair_grace)\<rparr>"

definition take_slot :: "host \<Rightarrow> room \<Rightarrow> uin \<Rightarrow> datetime \<Rightarrow> office \<Rightarrow> unit outcome \<times> office" where
  "take_slot h g u now b =
     limit_call h (slowmode_identity (g_id g) u) ''group_slowmode'' 1 (g_slowmode_sec g) now b"

definition live_count :: "datetime \<Rightarrow> (int \<times> datetime) option \<Rightarrow> (int \<times> datetime) option" where
  "live_count now c = (case c of None \<Rightarrow> None | Some (n, until) \<Rightarrow> if now < until then Some (n, until) else None)"

definition live_pass :: "datetime \<Rightarrow> datetime option \<Rightarrow> bool" where
  "live_pass now p = (case p of None \<Rightarrow> False | Some until \<Rightarrow> now < until)"

text \<open>A post that rides no batch: the pass of the other half if there is one, else the slot.\<close>

definition slow_single :: "host \<Rightarrow> room \<Rightarrow> uin \<Rightarrow> string \<Rightarrow> datetime \<Rightarrow> office \<Rightarrow> unit outcome \<times> office" where
  "slow_single h g u path now b =
     (if \<not> redis_ok b then take_slot h g u now b
      else
        let key = slowmode_free_key h path (g_id g) u
        in if live_pass now (slow_free b key) then (Inr (), b\<lparr>slow_free := (slow_free b)(key := None)\<rparr>)
           else (case take_slot h g u now b of
                   (Inl e, b1) \<Rightarrow> (Inl e, b1)
                 | (Inr _, b1) \<Rightarrow> (Inr (), arm_free_pass h path (g_id g) u now b1)))"

definition exempt_member :: "group_member \<Rightarrow> bool" where
  "exempt_member m \<longleftrightarrow> gm_role m = ''admin'' \<or> strip (gm_permissions m) \<noteq> []"

definition enforce_group_slowmode ::
  "host \<Rightarrow> room option \<Rightarrow> uin option \<Rightarrow> string \<Rightarrow> string \<Rightarrow> string option \<Rightarrow> int \<Rightarrow> datetime \<Rightarrow> office
     \<Rightarrow> unit outcome \<times> office" where
  "enforce_group_slowmode h room caller ty path batch batch_size now b =
     (case (room, caller) of
        (Some g, Some u) \<Rightarrow>
          if ty \<noteq> ''message'' \<or> g_slowmode_sec g \<le> 0 \<or> u = g_owner_uin g then (Inr (), b)
          else (case find_member (db b) (g_id g) u of
             None \<Rightarrow> (Inr (), b)
           | Some m \<Rightarrow>
               if exempt_member m then (Inr (), b)
               else (case batch of
                  Some tok \<Rightarrow>
                    if tok = [] \<or> batch_size \<le> 1 \<or> \<not> redis_ok b then slow_single h g u path now b
                    else
                      let key = slowmode_batch_key h (g_id g) u tok;
                          n = (case live_count now (slow_batch b key) of None \<Rightarrow> 1 | Some (k, _) \<Rightarrow> k + 1);
                          until = (case live_count now (slow_batch b key) of
                             None \<Rightarrow> now + seconds slowmode_batch_grace | Some (_, t) \<Rightarrow> t);
                          b1 = b\<lparr>slow_batch := (slow_batch b)(key \<mapsto> (n, until))\<rparr>
                      in if n = 1 then
                           (case take_slot h g u now b1 of
                              (Inl e, b2) \<Rightarrow> (Inl e, b2\<lparr>slow_batch := (slow_batch b2)(key := None)\<rparr>)
                            | (Inr _, b2) \<Rightarrow> (Inr (), arm_free_pass h path (g_id g) u now b2))
                         else if n \<le> 2 * batch_size then (Inr (), b1)
                         else slow_single h g u path now b1
                | None \<Rightarrow> slow_single h g u path now b))
      | _ \<Rightarrow> (Inr (), b))"

definition account_too_young :: "int \<Rightarrow> http_error" where
  "account_too_young hours_left = HttpError 403 (''account_too_young hours_left='' @ show_int hours_left) None"

definition enforce_account_age_gate ::
  "room option \<Rightarrow> uin option \<Rightarrow> string \<Rightarrow> datetime \<Rightarrow> island \<Rightarrow> unit outcome" where
  "enforce_account_age_gate room caller ty now s =
     (case (room, caller) of
        (Some g, Some u) \<Rightarrow>
          if ty \<noteq> ''message'' \<or> g_min_account_age_hours g \<le> 0 \<or> u = g_owner_uin g then Inr ()
          else (case find_member s (g_id g) u of
             None \<Rightarrow> Inr ()
           | Some m \<Rightarrow>
               if exempt_member m then Inr ()
               else (case (case gm_joined_at m of Some t \<Rightarrow> Some t
                           | None \<Rightarrow> map_option u_created_at (find_user s u)) of
                  None \<Rightarrow> Inr ()
                | Some since \<Rightarrow>
                    let left = hours (g_min_account_age_hours g) - (now - since)
                    in if left \<le> 0 then Inr ()
                       else Inl (account_too_young (max 1 (- (- left div hours 1))))))
      | _ \<Rightarrow> Inr ())"

section \<open>The fan-out budget\<close>

definition fanout_budget_authed :: int where
  "fanout_budget_authed = 60000"

definition fanout_budget_anon :: int where
  "fanout_budget_anon = 30000"

definition fanout_window_seconds :: int where
  "fanout_window_seconds = 60"

definition fanout_charge :: "requester \<Rightarrow> string \<times> int" where
  "fanout_charge rq =
     (case rq_caller rq of
        Some u \<Rightarrow> (''uin:'' @ show_int u, fanout_budget_authed)
      | None \<Rightarrow> (''ip:'' @ rq_client_ip rq, fanout_budget_anon))"

definition charge_fanout :: "host \<Rightarrow> requester \<Rightarrow> int \<Rightarrow> datetime \<Rightarrow> office \<Rightarrow> unit outcome \<times> office" where
  "charge_fanout h rq cost now b =
     with_limiter (enforce_cost_budget (bucket_name h) (redis_ttl h) (redis_ok b) (fst (fanout_charge rq))
       ''group_fanout'' cost (snd (fanout_charge rq)) fanout_window_seconds now) b"

definition sender_device_tokens :: "island \<Rightarrow> uin option \<Rightarrow> string list" where
  "sender_device_tokens s caller =
     (case caller of None \<Rightarrow> [] | Some u \<Rightarrow> map dt_token (filter (\<lambda>t. dt_uin t = u) (device_tokens s)))"

section \<open>The sealed group fan-out\<close>

definition max_group_payloads :: nat where
  "max_group_payloads = 4096"

definition batch_valid :: "string option \<Rightarrow> int \<Rightarrow> bool" where
  "batch_valid batch n \<longleftrightarrow>
     (case batch of None \<Rightarrow> True | Some t \<Rightarrow> 8 \<le> length t \<and> length t \<le> 64) \<and> 1 \<le> n \<and> n \<le> 10"

definition sknack_limits :: "host \<Rightarrow> requester \<Rightarrow> int \<Rightarrow> datetime \<Rightarrow> office \<Rightarrow> unit outcome \<times> office" where
  "sknack_limits h rq gid now b =
     (let ident = (case rq_caller rq of
            Some u \<Rightarrow> ''uin:'' @ show_int u
          | None \<Rightarrow> ''ip:'' @ (case rq_peer rq of None \<Rightarrow> ''unknown'' | Some p \<Rightarrow> p))
      in (case limit_call h ident ''messages_sknack'' 10 3600 now b of
            (Inl e, b1) \<Rightarrow> (Inl e, b1)
          | (Inr _, b1) \<Rightarrow> limit_call h (ident @ '':g'' @ show_int gid) ''messages_sknack_room'' 2 3600 now b1))"

definition member_rows :: "island \<Rightarrow> int \<Rightarrow> (uin \<times> datetime option) list" where
  "member_rows s gid =
     map (\<lambda>m. (gm_uin m, map_option u_last_seen (find_user s (gm_uin m))))
       (filter (\<lambda>m. gm_group_id m = gid) (group_members s))"

definition owner_only_error :: http_error where
  "owner_only_error = HttpError 403 ''owner_only: only the group owner may post'' None"

text \<open>Addressed log rows for the members whose clients read the log, in the order of the entries.\<close>

definition log_addressed ::
  "datetime \<Rightarrow> int \<Rightarrow> string \<Rightarrow> int \<Rightarrow> (uin \<times> string) list \<Rightarrow> island \<Rightarrow> island" where
  "log_addressed now gid ty cls addressed s =
     (case next_group_seqs s gid (int (length addressed)) of (seqs, s1) \<Rightarrow>
        s1\<lparr>group_log := group_log s1 @ map2 (\<lambda>e sq.
             \<lparr>gl_group_id = gid, gl_seq = sq, gl_to_uin = Some (fst e), gl_envelope_type = ty,
              gl_cls = cls, gl_payload = snd e, gl_received_at = now\<rparr>) addressed seqs\<rparr>)"

definition queue_copies ::
  "datetime \<Rightarrow> int \<Rightarrow> string \<Rightarrow> int \<Rightarrow> (uin \<times> string) list \<Rightarrow> island \<Rightarrow> island" where
  "queue_copies now gid ty cls entries s =
     fold (\<lambda>e. store_group_copy now (fst e) gid ty cls (snd e)) entries s"

text \<open>One detached push per target.\<close>

definition push_targets :: "host \<Rightarrow> datetime \<Rightarrow> string list \<Rightarrow> (uin \<Rightarrow> alert) \<Rightarrow> (uin \<times> push_endpoints) list \<Rightarrow> office \<Rightarrow> office" where
  "push_targets h now exclude_tokens a targets b =
     fold (\<lambda>(u, ends) b. snd (push_both h now u (a u) exclude_tokens [] (Some ends) b)) targets b"

definition last_payload :: "(uin \<times> string) list \<Rightarrow> uin \<Rightarrow> string option" where
  "last_payload payloads u = map_of (rev payloads) u"

definition group_alert :: "string option \<Rightarrow> string \<Rightarrow> int \<Rightarrow> alert" where
  "group_alert env ty gid =
     \<lparr>a_body = ''New group message'', a_env = env, a_env_type = ty, a_to_device_id = None, a_group_id = Some gid\<rparr>"

text \<open>Everything after the gates.\<close>

definition fan_group_sealed ::
  "host \<Rightarrow> datetime \<Rightarrow> requester \<Rightarrow> group_sealed_send_in \<Rightarrow> (uin \<times> string) list \<Rightarrow> office \<Rightarrow> send_out \<times> office" where
  "fan_group_sealed h now rq body entries b =
     (let gid = gs_group_id body;
          ty = gs_envelope_type body;
          cls = cls_for ty;
          rows = member_rows (db b) gid;
          (online, c) = fanout_each (redis_ok b) (worker_pid h)
             (map (\<lambda>e. (fst e, \<lparr>f_type = ty, f_payload = snd e, f_server_time = now,
                 f_to_device_id = None, f_group_id = Some gid, f_seq = None\<rparr>)) entries) (clu b);
          offline = filter (\<lambda>u. u \<notin> set online) (map fst entries);
          pushable = ty \<notin> set never_push_types;
          sender_tokens = (if pushable then sender_device_tokens (db b) (rq_caller rq) else []);
          wake = (if cls = 1 then
             group_push_targets (db b) (filter (\<lambda>u. Some u \<noteq> rq_caller rq) offline) gid else []);
          readers = log_readers (db b) (map fst entries);
          s1 = log_addressed now gid ty cls (filter (\<lambda>e. fst e \<in> set readers) entries) (db b);
          keep = keep_for (filter (\<lambda>u. u \<notin> set readers) (map fst entries))
             (queueable (sweep_cfg h) now rows) cls (map fst wake) ty;
          s2 = queue_copies now gid ty cls
             (filter (\<lambda>e. fst e \<in> set keep \<and> fst e \<notin> set readers) entries) s1;
          b1 = b\<lparr>db := s2, clu := c\<rparr>
      in (\<lparr>delivered = online \<noteq> [], queued = True, server_time = now\<rparr>,
          if pushable then push_targets h now sender_tokens
             (\<lambda>u. group_alert (last_payload (gs_payloads body) u) ty gid) wake b1
          else b1))"

definition send_group_sealed ::
  "host \<Rightarrow> datetime \<Rightarrow> requester \<Rightarrow> group_sealed_send_in \<Rightarrow> office \<Rightarrow> send_out outcome \<times> office" where
  "send_group_sealed h now rq body b0 =
     (case limit_call h (rq_identity rq) ''messages_group_send'' 60 60 now b0 of
        (Inl e, b) \<Rightarrow> (Inl e, b)
      | (Inr _, b) \<Rightarrow>
          if max_group_payloads < length (gs_payloads body) \<or> \<not> batch_valid (gs_batch body) (gs_batch_size body)
          then (Inl (HttpError 422 ''validation'' None), b)
          else
          (case (if gs_envelope_type body = ''sknack'' then sknack_limits h rq (gs_group_id body) now b
                 else (Inr (), b)) of
             (Inl e, b1) \<Rightarrow> (Inl e, b1)
           | (Inr _, b1) \<Rightarrow>
               let g = find_room (db b1) (gs_group_id body);
                   rows = member_rows (db b1) (gs_group_id body)
               in if gs_envelope_type body = ''message'' \<and>
                     (case (g, rq_caller rq) of
                        (Some r, Some u) \<Rightarrow> g_post_policy r = ''owner_only'' \<and> u \<noteq> g_owner_uin r
                      | _ \<Rightarrow> False)
                  then (Inl owner_only_error, b1)
                  else if rows = [] then (Inl (HttpError 404 ''group has no members'' None), b1)
                  else
                    (case enforce_group_slowmode h g (rq_caller rq) (gs_envelope_type body) ''sealed''
                            (gs_batch body) (gs_batch_size body) now b1 of
                       (Inl e, b2) \<Rightarrow> (Inl e, b2)
                     | (Inr _, b2) \<Rightarrow>
                         (case enforce_account_age_gate g (rq_caller rq) (gs_envelope_type body) now (db b2) of
                            Inl e \<Rightarrow> (Inl e, b2)
                          | Inr _ \<Rightarrow>
                              let entries = filter (\<lambda>e. fst e \<in> set (map fst rows)) (gs_payloads body)
                              in (case charge_fanout h rq (int (length entries)) now b2 of
                                    (Inl e, b3) \<Rightarrow> (Inl e, b3)
                                  | (Inr _, b3) \<Rightarrow>
                                      (case fan_group_sealed h now rq body entries b3 of
                                         (out, b4) \<Rightarrow> (Inr out, b4)))))))"

section \<open>The sender-keys broadcast\<close>

definition max_broadcast_payload :: nat where
  "max_broadcast_payload = 1500000"

definition sender_keys_capable :: "island \<Rightarrow> uin \<Rightarrow> bool" where
  "sender_keys_capable s u = list_ex (\<lambda>c. fst c = u \<and> snd c) (user_capabilities s)"

definition recipient_rows :: "island \<Rightarrow> int \<Rightarrow> (uin \<times> datetime option) list" where
  "recipient_rows s gid = filter (\<lambda>r. sender_keys_capable s (fst r)) (member_rows s gid)"

definition log_broadcast ::
  "datetime \<Rightarrow> int \<Rightarrow> int \<Rightarrow> string \<Rightarrow> uin list \<Rightarrow> island \<Rightarrow> int option \<times> island" where
  "log_broadcast now gid cls payload readers s =
     (if readers = [] then (None, s)
      else (case next_group_seq s gid of (sq, s1) \<Rightarrow>
              (Some sq, s1\<lparr>group_log := group_log s1 @
                 [\<lparr>gl_group_id = gid, gl_seq = sq, gl_to_uin = None, gl_envelope_type = ''gmsg'',
                   gl_cls = cls, gl_payload = payload, gl_received_at = now\<rparr>]\<rparr>)))"

definition fan_group_broadcast ::
  "host \<Rightarrow> datetime \<Rightarrow> requester \<Rightarrow> group_broadcast_in \<Rightarrow> (uin \<times> datetime option) list \<Rightarrow> office
     \<Rightarrow> send_out \<times> office" where
  "fan_group_broadcast h now rq body rows b =
     (let gid = gb_group_id body;
          recipients = map fst rows;
          cls = cls_for (gb_envelope_type body);
          readers = log_readers (db b) recipients;
          (sq, s1) = log_broadcast now gid cls (gb_payload body) readers (db b);
          (online, c) = fanout (redis_ok b) (worker_pid h) recipients
             \<lparr>f_type = ''gmsg'', f_payload = gb_payload body, f_server_time = now,
              f_to_device_id = None, f_group_id = Some gid, f_seq = sq\<rparr> (clu b);
          offline = filter (\<lambda>u. u \<notin> set online) recipients;
          pushable = gb_envelope_type body \<notin> set never_push_types;
          sender_tokens = (if pushable then sender_device_tokens s1 (rq_caller rq) else []);
          wake = (if cls = 1 then
             group_push_targets s1 (filter (\<lambda>u. Some u \<noteq> rq_caller rq) offline) gid else []);
          keep = keep_for (filter (\<lambda>u. u \<notin> set readers) recipients)
             (queueable (sweep_cfg h) now rows) cls (map fst wake) ''gmsg'';
          s2 = queue_copies now gid ''gmsg'' cls
             (map (\<lambda>u. (u, gb_payload body)) (filter (\<lambda>u. u \<in> set keep \<and> u \<notin> set readers) recipients)) s1;
          b1 = b\<lparr>db := s2, clu := c\<rparr>
      in (\<lparr>delivered = online \<noteq> [], queued = True, server_time = now\<rparr>,
          if pushable then push_targets h now sender_tokens
             (\<lambda>u. group_alert (Some (gb_payload body)) ''gmsg'' gid) wake b1
          else b1))"

definition send_group_broadcast ::
  "host \<Rightarrow> datetime \<Rightarrow> requester \<Rightarrow> group_broadcast_in \<Rightarrow> office \<Rightarrow> send_out outcome \<times> office" where
  "send_group_broadcast h now rq body b0 =
     (case limit_call h (rq_identity rq) ''messages_broadcast'' 120 60 now b0 of
        (Inl e, b) \<Rightarrow> (Inl e, b)
      | (Inr _, b) \<Rightarrow>
          if max_broadcast_payload < length (gb_payload body) \<or> \<not> batch_valid (gb_batch body) (gb_batch_size body)
          then (Inl (HttpError 422 ''validation'' None), b)
          else
          (case rq_caller rq of
             None \<Rightarrow> (Inl (HttpError 401 ''group-broadcast requires authentication'' None), b)
           | Some u \<Rightarrow>
               (case find_room (db b) (gb_group_id body) of
                  None \<Rightarrow> (Inl (HttpError 404 ''no such group'' None), b)
                | Some g \<Rightarrow>
                    if find_member (db b) (g_id g) u = None
                    then (Inl (HttpError 403 ''not_a_member: only a member may post to this room'' None), b)
                    else if gb_envelope_type body = ''message'' \<and> g_post_policy g = ''owner_only'' \<and> u \<noteq> g_owner_uin g
                    then (Inl owner_only_error, b)
                    else
                      (case enforce_group_slowmode h (Some g) (Some u) (gb_envelope_type body) ''broadcast''
                              (gb_batch body) (gb_batch_size body) now b of
                         (Inl e, b2) \<Rightarrow> (Inl e, b2)
                       | (Inr _, b2) \<Rightarrow>
                           (case enforce_account_age_gate (Some g) (Some u) (gb_envelope_type body) now (db b2) of
                              Inl e \<Rightarrow> (Inl e, b2)
                            | Inr _ \<Rightarrow>
                                let rows = recipient_rows (db b2) (gb_group_id body)
                                in if rows = [] then (Inl (HttpError 404 ''no broadcast-capable members'' None), b2)
                                   else (case charge_fanout h rq (int (length rows)) now b2 of
                                           (Inl e, b3) \<Rightarrow> (Inl e, b3)
                                         | (Inr _, b3) \<Rightarrow>
                                             (case fan_group_broadcast h now rq body rows b3 of
                                                (out, b4) \<Rightarrow> (Inr out, b4))))))))"

end
