(* ===== verification/Delivery_Runs.thy ===== *)
theory Delivery_Runs
  imports Delivery
begin

text \<open>
  What the sending routes promise: what an accepted and a refused request leave in the queue, the
  room log, the sockets and the push services, who a group post is kept for, who may post, and
  what slowmode lets through.
\<close>

named_theorems office_simps \<open>the parts of the office an operation leaves alone\<close>

section \<open>A small island\<close>

definition plain_host :: host where
  "plain_host = \<lparr>bucket_name = id, redis_ttl = (\<lambda>d. d div 1000000), crypto_of = open_crypto, fresh_key = small_key,
     apple = (\<lambda>_ _. (200, None)), apns_cfg = \<lparr>configured = True, environment = ''production''\<rparr>,
     unified = \<lparr>up_post = (\<lambda>_ _. Inr 200), up_parse = (\<lambda>_. None),
       up_cfg = \<lparr>relay_url = [], relay_key = [], relay_hosts = [], local_base = [], local_hosts = []\<rparr>\<rparr>,
     sweep_cfg = default_sweep, deposit_required = False, worker_pid = 0\<rparr>"

definition member_of :: "int \<Rightarrow> uin \<Rightarrow> group_member" where
  "member_of gid u = \<lparr>gm_group_id = gid, gm_uin = u, gm_role = ''member'', gm_permissions = [], gm_joined_at = Some 0\<rparr>"

definition slow_room :: room where
  "slow_room = (new_room 5 1 [] None)\<lparr>g_post_policy := ''open'', g_slowmode_sec := 60\<rparr>"

text \<open>Account 2 has an iPhone and was not seen for weeks; account 3 is a guest copy.\<close>

definition small_office :: office where
  "small_office = \<lparr>db = empty_island\<lparr>
       users := map (\<lambda>u. \<lparr>u_uin = u, u_last_seen = 0, u_created_at = 0,
          u_guest_status = (if u = 3 then Some ''active'' else None), u_push_preferences = None, u_suspended = False, u_group_invite_policy = None\<rparr>) [1, 2, 3],
       device_tokens := [\<lparr>dt_id = 1, dt_uin = 2, dt_token = ''tok'', dt_platform = ''ios'', dt_device_id = None,
          dt_push_last_error = None, dt_push_last_ok = None\<rparr>],
       groups := [slow_room], group_members := map (member_of 5) [1, 2, 3]\<rparr>,
     clu = empty_cluster, limits = empty_limiter, dep = keyed_store, slow_batch = Map.empty, slow_free = Map.empty,
     wakes = [], pending_health = \<lparr>ok_ids = [], failed = [], dead_ids = []\<rparr>\<rparr>"

definition by_owner :: requester where
  "by_owner = \<lparr>rq_caller = Some 1, rq_identity = ''uin:1'', rq_client_ip = ''10.0.0.1'', rq_peer = None\<rparr>"

definition room_post :: group_sealed_send_in where
  "room_post = \<lparr>gs_group_id = 5, gs_envelope_type = ''message'', gs_payloads = [(2, ''c2''), (3, ''c3'')],
     gs_batch = None, gs_batch_size = 1\<rparr>"

definition day_30 :: datetime where
  "day_30 = days 30"

definition note_to :: "uin \<Rightarrow> sealed_send_in" where
  "note_to u = \<lparr>ss_to_uin = u, ss_envelope_type = ''message'', ss_cls = None, ss_ring = False, ss_payload = ''c'',
     ss_deposit_token = None, ss_to_device_id = None\<rparr>"

section \<open>Frames\<close>

text \<open>The stored messages of an island, and everything a refused request must not touch.\<close>

definition mail :: "office \<Rightarrow> offline_message list \<times> offline_group_message list \<times> group_log_row list" where
  "mail b = (offline_messages (db b), offline_group_messages (db b), group_log (db b))"

lemma limit_call_frame [office_simps]:
  "db (snd (limit_call h i r l w now b)) = db b" "clu (snd (limit_call h i r l w now b)) = clu b"
  "wakes (snd (limit_call h i r l w now b)) = wakes b" "slow_free (snd (limit_call h i r l w now b)) = slow_free b"
  "slow_batch (snd (limit_call h i r l w now b)) = slow_batch b"
  by (simp_all add: limit_call_def with_limiter_def split_beta)

lemma charge_fanout_frame [office_simps]:
  "db (snd (charge_fanout h rq c now b)) = db b" "clu (snd (charge_fanout h rq c now b)) = clu b"
  "wakes (snd (charge_fanout h rq c now b)) = wakes b"
  by (simp_all add: charge_fanout_def with_limiter_def split_beta)

lemma take_slot_frame [office_simps]:
  "db (snd (take_slot h g u now b)) = db b" "clu (snd (take_slot h g u now b)) = clu b"
  "wakes (snd (take_slot h g u now b)) = wakes b" "slow_free (snd (take_slot h g u now b)) = slow_free b"
  by (simp_all add: take_slot_def office_simps)

lemma arm_free_pass_frame [office_simps]:
  "db (arm_free_pass h p g u now b) = db b" "clu (arm_free_pass h p g u now b) = clu b"
  "wakes (arm_free_pass h p g u now b) = wakes b" "limits (arm_free_pass h p g u now b) = limits b"
  by (simp_all add: arm_free_pass_def)

text \<open>What the gates in front of a handler leave alone.\<close>

definition gate_keeps :: "office \<Rightarrow> office \<Rightarrow> bool" where
  "gate_keeps b b' \<longleftrightarrow> db b' = db b \<and> clu b' = clu b \<and> wakes b' = wakes b"

lemma gate_keepsD: "gate_keeps b b' \<Longrightarrow> db b' = db b \<and> clu b' = clu b \<and> wakes b' = wakes b \<and> redis_ok b' = redis_ok b \<and> mail b' = mail b"
  by (simp add: gate_keeps_def redis_ok_def mail_def)

lemma gate_keeps_refl [simp]: "gate_keeps b b"
  by (simp add: gate_keeps_def)

lemma gate_keeps_trans: "gate_keeps b b1 \<Longrightarrow> gate_keeps b1 b2 \<Longrightarrow> gate_keeps b b2"
  by (simp add: gate_keeps_def)

lemma limit_call_keeps: "limit_call h i r l w now b = (e, b') \<Longrightarrow> gate_keeps b b'"
  using limit_call_frame [of h i r l w now b] by (simp add: gate_keeps_def)

lemma limit_call_error: "limit_call h i r l w now b = (Inl e, b') \<Longrightarrow> status e = 429"
  by (auto simp: limit_call_def with_limiter_def enforce_rate_limit_def rate_limited_def Let_def
      split: prod.splits if_splits)

lemma charge_fanout_keeps: "charge_fanout h rq c now b = (e, b') \<Longrightarrow> gate_keeps b b'"
  using charge_fanout_frame [of h rq c now b] by (simp add: gate_keeps_def)

lemma take_slot_keeps: "take_slot h g u now b = (e, b') \<Longrightarrow> gate_keeps b b'"
  by (simp add: take_slot_def limit_call_keeps)

lemma slow_single_keeps: "slow_single h g u p now b = (e, b') \<Longrightarrow> gate_keeps b b'"
  by (auto simp: slow_single_def Let_def gate_keeps_def office_simps dest!: take_slot_keeps
      split: prod.splits sum.splits if_splits)

lemma gate_keeps_batch [simp]:
  "gate_keeps b (x\<lparr>slow_batch := m\<rparr>) = gate_keeps b x" "gate_keeps (b\<lparr>slow_batch := m\<rparr>) x = gate_keeps b x"
  "gate_keeps b (arm_free_pass h p i u now x) = gate_keeps b x"
  by (simp_all add: gate_keeps_def office_simps)

lemma slowmode_keeps: "enforce_group_slowmode h g c ty p bt n now b = (e, b') \<Longrightarrow> gate_keeps b b'"
  by (auto simp: enforce_group_slowmode_def Let_def split: option.splits prod.splits sum.splits if_splits
      dest!: slow_single_keeps take_slot_keeps)

lemma sknack_keeps: "sknack_limits h rq g now b = (e, b') \<Longrightarrow> gate_keeps b b'"
  by (auto simp: sknack_limits_def Let_def split: prod.splits sum.splits
      dest!: limit_call_keeps intro: gate_keeps_trans)

text \<open>A push touches the registrations and the wake log, never the mail.\<close>

lemma drop_dead_frame [office_simps]:
  "offline_messages (drop_dead_tokens ids s) = offline_messages s"
  "offline_group_messages (drop_dead_tokens ids s) = offline_group_messages s"
  "group_log (drop_dead_tokens ids s) = group_log s"
  by (simp_all add: drop_dead_tokens_def)

lemma apns_frame:
  "\<exists>ids. snd (snd (apns_send_to_user try_send cfg u a ex sk ts s)) = drop_dead_tokens ids s"
proof -
  have "drop_dead_tokens [] s = s" by (simp add: drop_dead_tokens_def)
  then show ?thesis by (cases "configured cfg") (auto simp: apns_send_to_user_def apns_push_def Let_def dest: sym)
qed

lemma voip_frame:
  "\<exists>ids. snd (snd (send_voip_to_user try_send cfg u p ex s)) = drop_dead_tokens ids s"
proof -
  have "drop_dead_tokens [] s = s" by (simp add: drop_dead_tokens_def)
  then show ?thesis by (cases "configured cfg") (auto simp: send_voip_to_user_def apns_push_def Let_def dest: sym)
qed

lemma push_both_mail [office_simps]: "mail (snd (push_both h now u a ex sk ends b)) = mail b"
  using apns_frame [of "apple h" "apns_cfg h" u a ex sk "map_option ios ends" "db b"]
  by (auto simp: push_both_def mail_def office_simps split: prod.splits)

lemma wake_call_mail [office_simps]: "mail (snd (wake_for_sealed_call h now u p b)) = mail b"
  using voip_frame [of "apple h" "apns_cfg h" u "call_wake ''voip'' u p" None "db b"]
  by (auto simp: wake_for_sealed_call_def mail_def office_simps split: prod.splits)

lemma push_targets_mail [office_simps]: "mail (push_targets h now ex a targets b) = mail b"
  unfolding push_targets_def by (induction targets arbitrary: b) (auto simp: office_simps)

lemma deposit_push_mail [office_simps]: "mail (deposit_push h now body gst d b) = mail b"
  by (auto simp: deposit_push_def Let_def office_simps split: prod.splits)
     (auto simp: mail_def)

section \<open>The sealed deposit\<close>

lemma spend_token_frame:
  "db (snd (spend_deposit_token h now tk b)) = db b \<and> clu (snd (spend_deposit_token h now tk b)) = clu b \<and>
   wakes (snd (spend_deposit_token h now tk b)) = wakes b"
  by (auto simp: spend_deposit_token_def split: option.splits prod.splits)

lemma spend_token_keeps: "spend_deposit_token h now tk b = (e, b') \<Longrightarrow> gate_keeps b b'"
  using spend_token_frame [of h now tk b] by (simp add: gate_keeps_def)

text \<open>The row a deposit adds to the queue.\<close>

definition deposit_row :: "datetime \<Rightarrow> sealed_send_in \<Rightarrow> island \<Rightarrow> offline_message" where
  "deposit_row now body s =
     \<lparr>om_id = offline_message_serial s + 1, om_to_uin = ss_to_uin body,
      om_envelope_type = ss_envelope_type body, om_payload = ss_payload body, om_received_at = now,
      om_cls = Some (deposit_cls body), om_seq = Some (mailbox_issued s (ss_to_uin body) + 1),
      om_to_device_id = ss_to_device_id body\<rparr>"

lemma deposit_row_stored:
  "store_direct now (ss_to_uin body) (ss_envelope_type body) (deposit_cls body) (ss_payload body)
     (ss_to_device_id body) s = (row, s') \<Longrightarrow>
   row = deposit_row now body s \<and> offline_messages s' = offline_messages s @ [row] \<and>
   offline_group_messages s' = offline_group_messages s \<and> group_log s' = group_log s"
  by (auto simp: store_direct_def next_mailbox_seq_def mailbox_issued_def deposit_row_def Let_def
      split: option.splits)

text \<open>A deposit past its gates: the row, the frame, the push.\<close>

lemma send_sealed_open:
  assumes "limit_call h identity ''messages_send'' 120 60 now b = (Inr x, b1)"
    and "find_user (db b) (ss_to_uin body) = Some target"
    and "spend_deposit_token h now (ss_deposit_token body) b1 = (Inr y, b2)"
  shows "case send_sealed h now identity body b of
     (Inl e, b') \<Rightarrow> mail b' = mail b \<and> wakes b' = wakes b \<and> status e = 503
   | (Inr out, b') \<Rightarrow>
       mail b' = (offline_messages (db b) @ [deposit_row now body (db b)], offline_group_messages (db b),
                  group_log (db b)) \<and>
       queued out \<and> server_time out = now \<and>
       delivered out = is_online (redis_ok b) (worker_pid h) (ss_to_uin body) (clu b) \<and>
       (u_guest_status target \<noteq> None \<longrightarrow> wakes b' = wakes b)"
proof -
  note k1 = gate_keepsD [OF limit_call_keeps [OF assms(1)]] and k2 = gate_keepsD [OF spend_token_keeps [OF assms(3)]]
  obtain row s where sd: "store_direct now (ss_to_uin body) (ss_envelope_type body) (deposit_cls body)
      (ss_payload body) (ss_to_device_id body) (db b) = (row, s)" by fastforce
  let ?online = "is_online (redis_ok b) (worker_pid h) (ss_to_uin body) (clu b)"
  obtain online c where sent: "send (redis_ok b) (worker_pid h) (ss_to_uin body) (deposit_frame now body)
      None (clu b) = (online, c)" by fastforce
  have online: "online = ?online" using sent by (auto simp: send_def is_online_def split: if_splits)
  let ?clash = "list_ex (\<lambda>r. om_to_uin r = om_to_uin row \<and> om_seq r = om_seq row) (offline_messages (db b))"
  let ?b = "b2\<lparr>clu := c, db := s\<rparr>"
  let ?gst = "u_guest_status target \<noteq> None"
  have route: "send_sealed h now identity body b =
      (if ?clash then (Inl (HttpError 503 ''seq allocation collided, retry'' None), b2\<lparr>clu := c\<rparr>)
       else (Inr \<lparr>delivered = ?online, queued = True, server_time = now\<rparr>,
             deposit_push h now body ?gst ?online ?b))"
    using k1 k2 assms sd sent online by (simp add: send_sealed_def)
  have "mail (deposit_push h now body ?gst ?online ?b) =
      (offline_messages (db b) @ [deposit_row now body (db b)], offline_group_messages (db b), group_log (db b))"
    unfolding deposit_push_mail using deposit_row_stored [OF sd] by (simp add: mail_def)
  moreover have "wakes (deposit_push h now body ?gst ?online ?b) = wakes b" if ?gst
    using that k1 k2 by (simp add: deposit_push_def)
  ultimately show ?thesis unfolding route using k1 k2 by (simp add: mail_def)
qed

text \<open>
  C5. A sealed deposit is all or nothing. When the route answers success, exactly one row was added to
  the recipient's queue, with the request's payload, kind, class and device and the mailbox's
  next sequence, and the answer says whether the account was online when the frame was sent;
  nothing else was stored. When it answers an error, nothing was stored and nobody was woken. A
  guest copy is never woken.
\<close>

theorem sealed_deposit_exact:
  "case send_sealed h now identity body b of
     (Inl e, b') \<Rightarrow> mail b' = mail b \<and> wakes b' = wakes b \<and> status e \<in> {402, 403, 404, 429, 500, 503}
   | (Inr out, b') \<Rightarrow>
       mail b' = (offline_messages (db b) @ [deposit_row now body (db b)], offline_group_messages (db b),
                  group_log (db b)) \<and>
       queued out \<and> server_time out = now \<and>
       delivered out = is_online (redis_ok b) (worker_pid h) (ss_to_uin body) (clu b) \<and>
       ((\<exists>r. find_user (db b) (ss_to_uin body) = Some r \<and> u_guest_status r \<noteq> None) \<longrightarrow> wakes b' = wakes b)"
proof -
  obtain e1 b1 where lim: "limit_call h identity ''messages_send'' 120 60 now b = (e1, b1)" by fastforce
  note k1 = gate_keepsD [OF limit_call_keeps [OF lim]]
  have st: "status e = 429" if "e1 = Inl e" for e using lim that limit_call_error by blast
  obtain e2 b2 where tk: "spend_deposit_token h now (ss_deposit_token body) b1 = (e2, b2)" by fastforce
  note k2 = gate_keepsD [OF spend_token_keeps [OF tk]]
  have st2: "status e \<in> {402, 403, 500}" if "e2 = Inl e" for e
    using tk that by (auto simp: spend_deposit_token_def split: option.splits prod.splits if_splits)
  consider (refused) e where "e1 = Inl e \<or> e2 = Inl e \<and> e1 = Inr () \<and> find_user (db b) (ss_to_uin body) \<noteq> None"
    | (unknown) "e1 = Inr ()" "find_user (db b) (ss_to_uin body) = None"
    | (accepted) target where "e1 = Inr ()" "e2 = Inr ()" "find_user (db b) (ss_to_uin body) = Some target"
    by (cases e1; cases e2; cases "find_user (db b) (ss_to_uin body)") auto
  then show ?thesis
  proof cases
    case refused
    then show ?thesis using st st2 k1 k2 by (auto simp: send_sealed_def lim tk)
  next
    case unknown
    then show ?thesis using k1 by (simp add: send_sealed_def lim)
  next
    case accepted
    then show ?thesis using send_sealed_open [of h identity now b _ b1 body target _ b2] lim tk
      by (auto split: prod.splits sum.splits)
  qed
qed

theorem sealed_deposit_exact_witness:
  "let r = send_sealed plain_host 7 ''ip:10.0.0.9'' (note_to 3) small_office
   in \<not> isl (fst r) \<and> offline_messages (db (snd r)) = [deposit_row 7 (note_to 3) (db small_office)] \<and> wakes (snd r) = []"
proof -
  let ?r = "send_sealed plain_host 7 ''ip:10.0.0.9'' (note_to 3) small_office"
  have "\<not> isl (fst ?r)" by code_simp
  then obtain out b' where r: "?r = (Inr out, b')" by (cases ?r; cases "fst ?r") auto
  have guest: "find_user (db small_office) (ss_to_uin (note_to 3)) = Some \<lparr>u_uin = 3, u_last_seen = 0, u_created_at = 0,
          u_guest_status = Some ''active'', u_push_preferences = None, u_suspended = False, u_group_invite_policy = None\<rparr>"
    by (simp add: small_office_def note_to_def find_user_def get_row_Cons)
  have start: "offline_messages (db small_office) = []" "wakes small_office = []"
    by (simp_all add: small_office_def empty_island_def)
  show ?thesis using sealed_deposit_exact [where h = plain_host and now = 7 and identity = "''ip:10.0.0.9''" and
      body = "note_to 3" and b = small_office]
    by (simp add: r guest start mail_def)
qed

section \<open>The group routes\<close>

definition stored :: "datetime \<Rightarrow> int \<Rightarrow> string \<Rightarrow> uin \<Rightarrow> string \<Rightarrow> island \<Rightarrow> bool" where
  "stored now gid ty u p s \<longleftrightarrow>
     list_ex (\<lambda>r. gl_group_id r = gid \<and> gl_to_uin r = Some u \<and> gl_envelope_type r = ty \<and>
        gl_payload r = p \<and> gl_received_at r = now) (group_log s) \<or>
     list_ex (\<lambda>r. og_group_id r = gid \<and> og_to_uin r = u \<and> og_envelope_type r = ty \<and>
        og_payload r = p \<and> og_received_at r = now) (offline_group_messages s)"

lemma stored_mail:
  "(offline_group_messages s', group_log s') = (offline_group_messages s, group_log s) \<Longrightarrow>
     stored now gid ty u p s' = stored now gid ty u p s"
  by (simp add: stored_def)

lemma queue_copies_grows:
  "(\<exists>rows. offline_group_messages (queue_copies now gid ty cls es s) = offline_group_messages s @ rows) \<and>
   group_log (queue_copies now gid ty cls es s) = group_log s"
proof (induction es arbitrary: s)
  case (Cons e es)
  let ?s = "store_group_copy now (fst e) gid ty cls (snd e) s"
  have run: "queue_copies now gid ty cls (e # es) s = queue_copies now gid ty cls es ?s"
    by (simp add: queue_copies_def)
  obtain rows where "offline_group_messages (queue_copies now gid ty cls es ?s) = offline_group_messages ?s @ rows"
    "group_log (queue_copies now gid ty cls es ?s) = group_log ?s"
    using Cons by blast
  then show ?case unfolding run by (simp add: store_group_copy_def)
qed (simp add: queue_copies_def)

lemma queue_copies_stored:
  assumes "(u, p) \<in> set es"
  shows "stored now gid ty u p (queue_copies now gid ty cls es s)"
  using assms
proof (induction es arbitrary: s)
  case (Cons e es)
  let ?s = "store_group_copy now (fst e) gid ty cls (snd e) s"
  have run: "queue_copies now gid ty cls (e # es) s = queue_copies now gid ty cls es ?s"
    by (simp add: queue_copies_def)
  show ?case
  proof (cases "e = (u, p)")
    case True
    obtain rows where "offline_group_messages (queue_copies now gid ty cls es ?s) = offline_group_messages ?s @ rows"
      using queue_copies_grows by blast
    with True show ?thesis unfolding run stored_def by (simp add: store_group_copy_def)
  next
    case False
    with Cons show ?thesis unfolding run by auto
  qed
qed simp

lemma log_addressed_grows:
  "(\<exists>rows. group_log (log_addressed now gid ty cls es s) = group_log s @ rows) \<and>
   offline_group_messages (log_addressed now gid ty cls es s) = offline_group_messages s"
  by (auto simp: log_addressed_def next_group_seqs_def Let_def split: prod.splits if_splits)

lemma log_addressed_stored:
  assumes "(u, p) \<in> set es"
  shows "stored now gid ty u p (log_addressed now gid ty cls es s)"
proof -
  obtain i where i: "i < length es" "es ! i = (u, p)" using assms by (auto simp: in_set_conv_nth)
  obtain seqs s1 where sq: "next_group_seqs s gid (int (length es)) = (seqs, s1)" by fastforce
  have len: "length seqs = length es"
    using sq room_seq.take_block_values [of s gid "int (length es)"] by simp
  let ?row = "\<lambda>e sq. \<lparr>gl_group_id = gid, gl_seq = sq, gl_to_uin = Some (fst e), gl_envelope_type = ty,
      gl_cls = cls, gl_payload = snd e, gl_received_at = now\<rparr>"
  have "map2 ?row es seqs ! i = ?row (u, p) (seqs ! i)" using i len by simp
  moreover have "map2 ?row es seqs ! i \<in> set (map2 ?row es seqs)" using i(1) len by (intro nth_mem) simp
  ultimately have "?row (u, p) (seqs ! i) \<in> set (group_log (log_addressed now gid ty cls es s))"
    by (simp add: log_addressed_def sq)
  then show ?thesis unfolding stored_def list_ex_iff by force
qed

text \<open>A push adds wakes for its own account only.\<close>

lemma push_both_wakes:
  "\<exists>ws. wakes (snd (push_both h now u a ex sk ends b)) = wakes b @ ws \<and> (\<forall>w \<in> set ws. wk_to_uin w = u)"
  by (auto simp: push_both_def apns_send_to_user_def apns_push_def up_send_to_user_def up_fan_out_def
      wake_payload_def Let_def split: prod.splits if_splits)

lemma push_targets_wakes:
  "\<exists>ws. wakes (push_targets h now ex a targets b) = wakes b @ ws \<and> (\<forall>w \<in> set ws. wk_to_uin w \<in> fst ` set targets)"
proof (induction targets arbitrary: b)
  case Nil
  then show ?case by (simp add: push_targets_def)
next
  case (Cons t targets)
  obtain u ends where t: "t = (u, ends)" by (cases t)
  let ?b = "snd (push_both h now u (a u) ex [] (Some ends) b)"
  obtain ws where ws: "wakes ?b = wakes b @ ws" "\<forall>w \<in> set ws. wk_to_uin w = u" using push_both_wakes by blast
  obtain ws' where "wakes (push_targets h now ex a targets ?b) = wakes ?b @ ws'"
      "\<forall>w \<in> set ws'. wk_to_uin w \<in> fst ` set targets" using Cons by blast
  with ws have "wakes (push_targets h now ex a (t # targets) b) = wakes b @ ws @ ws'"
    "\<forall>w \<in> set (ws @ ws'). wk_to_uin w \<in> fst ` set (t # targets)"
    by (auto simp: push_targets_def t)
  then show ?case by blast
qed

lemma send_group_sealedE:
  assumes "send_group_sealed h now rq body b = (Inr out, b')"
  obtains b3 where "gate_keeps b b3"
    "fan_group_sealed h now rq body
       (filter (\<lambda>e. fst e \<in> set (map fst (member_rows (db b) (gs_group_id body)))) (gs_payloads body)) b3 = (out, b')"
proof -
  have keeps: "db b1 = db b0" if "gate_keeps b0 b1" for b0 b1 using that by (simp add: gate_keeps_def)
  show ?thesis
    using assms that
    by (auto simp: send_group_sealed_def Let_def split: prod.splits sum.splits if_splits
        dest!: limit_call_keeps sknack_keeps slowmode_keeps charge_fanout_keeps simp: gate_keeps_def)
qed

text \<open>Who a post is kept for: every reason the handlers have, the wake included.\<close>

definition new_wakes :: "office \<Rightarrow> office \<Rightarrow> wake list" where
  "new_wakes b b' = drop (length (wakes b)) (wakes b')"

definition owed :: "host \<Rightarrow> datetime \<Rightarrow> int \<Rightarrow> string \<Rightarrow> int \<Rightarrow> uin \<Rightarrow> office \<Rightarrow> office \<Rightarrow> bool" where
  "owed h now gid ty cls u b b' \<longleftrightarrow>
     cls = 2 \<and> ty \<noteq> ''sknack'' \<or> u \<in> set (queueable (sweep_cfg h) now (member_rows (db b) gid)) \<or>
     list_ex (\<lambda>w. wk_to_uin w = u) (new_wakes b b')"

lemma stored_push_targets [simp]:
  "stored now gid ty u p (db (push_targets h now ex a ts b)) = stored now gid ty u p (db b)"
  using push_targets_mail [of h now ex a ts b] by (intro stored_mail) (simp add: mail_def)

lemma new_wakes_targets:
  assumes "list_ex (\<lambda>w. wk_to_uin w = u) (new_wakes b (push_targets h now ex a ts b1))" "wakes b1 = wakes b"
  shows "u \<in> fst ` set ts"
proof -
  obtain ws where "wakes (push_targets h now ex a ts b1) = wakes b1 @ ws" "\<forall>w \<in> set ws. wk_to_uin w \<in> fst ` set ts"
    using push_targets_wakes by blast
  with assms show ?thesis by (auto simp: new_wakes_def list_ex_iff)
qed

lemma stored_queue_copies: "stored now gid ty u p s \<Longrightarrow> stored now gid ty u p (queue_copies now gid' ty' cls es s)"
  using queue_copies_grows [of now gid' ty' cls es s] by (auto simp: stored_def list_ex_iff)

lemma fan_group_sealed_kept:
  assumes fan: "fan_group_sealed h now rq body entries b = (out, b')" and e: "(u, p) \<in> set entries"
    and owed: "u \<in> set (log_readers (db b) (map fst entries)) \<or>
      owed h now (gs_group_id body) (gs_envelope_type body) (cls_for (gs_envelope_type body)) u b b'"
  shows "stored now (gs_group_id body) (gs_envelope_type body) u p (db b')"
proof -
  let ?gid = "gs_group_id body" and ?ty = "gs_envelope_type body"
  let ?cls = "cls_for ?ty" and ?readers = "log_readers (db b) (map fst entries)"
  obtain online c where f: "fanout_each (redis_ok b) (worker_pid h)
             (map (\<lambda>e. (fst e, \<lparr>f_type = ?ty, f_payload = snd e, f_server_time = now,
                 f_to_device_id = None, f_group_id = Some ?gid, f_seq = None\<rparr>)) entries) (clu b) = (online, c)"
    by fastforce
  define wake where "wake = (if ?cls = 1 then group_push_targets (db b)
      (filter (\<lambda>u. Some u \<noteq> rq_caller rq) (filter (\<lambda>u. u \<notin> set online) (map fst entries))) ?gid else [])"
  define s1 where "s1 = log_addressed now ?gid ?ty ?cls (filter (\<lambda>e. fst e \<in> set ?readers) entries) (db b)"
  define keep where "keep = keep_for (filter (\<lambda>u. u \<notin> set ?readers) (map fst entries))
      (queueable (sweep_cfg h) now (member_rows (db b) ?gid)) ?cls (map fst wake) ?ty"
  define s2 where "s2 = queue_copies now ?gid ?ty ?cls
      (filter (\<lambda>e. fst e \<in> set keep \<and> fst e \<notin> set ?readers) entries) s1"
  define tokens where "tokens = (if ?ty \<notin> set never_push_types then sender_device_tokens (db b) (rq_caller rq) else [])"
  have b': "b' = (if ?ty \<notin> set never_push_types then push_targets h now tokens
      (\<lambda>u. group_alert (last_payload (gs_payloads body) u) ?ty ?gid) wake (b\<lparr>db := s2, clu := c\<rparr>)
      else b\<lparr>db := s2, clu := c\<rparr>)"
    using fan unfolding fan_group_sealed_def Let_def f wake_def s1_def keep_def s2_def tokens_def by simp
  have db': "stored now ?gid ?ty u p (db b') = stored now ?gid ?ty u p s2" by (simp add: b')
  show ?thesis
  proof (cases "u \<in> set ?readers")
    case True
    with e have "(u, p) \<in> set (filter (\<lambda>e. fst e \<in> set ?readers) entries)" by simp
    then have "stored now ?gid ?ty u p s1" unfolding s1_def by (rule log_addressed_stored)
    then show ?thesis unfolding db' s2_def by (rule stored_queue_copies)
  next
    case False
    have "u \<in> fst ` set wake" if "list_ex (\<lambda>w. wk_to_uin w = u) (new_wakes b b')"
      using that new_wakes_targets [of u b h now _ _ wake] by (auto simp: b' new_wakes_def split: if_splits)
    moreover have "u \<in> fst ` set entries" using e by force
    ultimately have "u \<in> set keep" using owed False by (auto simp: owed_def keep_def keep_for_def image_iff)
    then have "(u, p) \<in> set (filter (\<lambda>e. fst e \<in> set keep \<and> fst e \<notin> set ?readers) entries)" using e False by simp
    then show ?thesis unfolding db' s2_def by (rule queue_copies_stored)
  qed
qed

lemma member_rows_iff: "u \<in> fst ` set (member_rows s gid) \<longleftrightarrow> find_member s gid u \<noteq> None"
proof -
  have "fst ` set (member_rows s gid) = gm_uin ` {m \<in> set (group_members s). gm_group_id m = gid}"
    by (simp add: member_rows_def image_image)
  then show ?thesis by (auto simp: find_member_def get_row_None image_iff)
qed

text \<open>
  C4. A post to a room reaches everyone it was addressed to. When the sealed group route answers
  success, a member's copy is in the room log or in the member's queue whenever the post is of
  the kept class, the member's clients read the log, the member was seen recently enough for a
  queue, or the post woke a device of theirs: a device is never woken for a message the server
  did not keep.
\<close>

theorem group_copy_kept:
  assumes "send_group_sealed h now rq body b = (Inr out, b')"
    and "(u, p) \<in> set (gs_payloads body)" "find_member (db b) (gs_group_id body) u \<noteq> None"
    and "u \<in> set (log_readers (db b) [u]) \<or>
      owed h now (gs_group_id body) (gs_envelope_type body) (cls_for (gs_envelope_type body)) u b b'"
  shows "stored now (gs_group_id body) (gs_envelope_type body) u p (db b')"
proof -
  let ?entries = "filter (\<lambda>e. fst e \<in> set (map fst (member_rows (db b) (gs_group_id body)))) (gs_payloads body)"
  obtain b3 where b3: "gate_keeps b b3" "fan_group_sealed h now rq body ?entries b3 = (out, b')"
    using assms(1) by (rule send_group_sealedE)
  note k = gate_keepsD [OF b3(1)]
  have e: "(u, p) \<in> set ?entries" using assms(2,3) member_rows_iff [of u] by simp
  then have "u \<in> set (map fst ?entries)" by force
  then have "u \<in> set (log_readers (db b3) (map fst ?entries)) \<or>
      owed h now (gs_group_id body) (gs_envelope_type body) (cls_for (gs_envelope_type body)) u b3 b'"
    using assms(4) k by (auto simp: log_readers_def owed_def new_wakes_def split: if_splits)
  then show ?thesis by (rule fan_group_sealed_kept [OF b3(2) e])
qed

theorem group_copy_kept_witness:
  "let r = send_group_sealed plain_host (day_30) by_owner room_post small_office
   in list_ex (\<lambda>w. wk_to_uin w = 2) (new_wakes small_office (snd r)) \<and>
      stored (day_30) 5 ''message'' 2 ''c2'' (db (snd r))"
proof -
  let ?r = "send_group_sealed plain_host (day_30) by_owner room_post small_office"
  have "\<not> isl (fst ?r)" by code_simp
  then obtain out b' where r: "?r = (Inr out, b')" by (cases ?r; cases "fst ?r") auto
  have "list_ex (\<lambda>w. wk_to_uin w = 2) (new_wakes small_office (snd ?r))" by code_simp
  then have woken: "list_ex (\<lambda>w. wk_to_uin w = 2) (new_wakes small_office b')" by (simp add: r)
  have seat: "find_member (db small_office) (gs_group_id room_post) 2 \<noteq> None" by code_simp
  have copy: "(2, ''c2'') \<in> set (gs_payloads room_post)" by (simp add: room_post_def)
  have "stored (day_30) (gs_group_id room_post) (gs_envelope_type room_post) 2 ''c2'' (db b')"
    by (rule group_copy_kept [OF r copy seat]) (simp add: owed_def woken)
  moreover have "gs_group_id room_post = 5" "gs_envelope_type room_post = ''message''" by (simp_all add: room_post_def)
  ultimately show ?thesis using woken by (simp add: r)
qed

section \<open>Slowmode\<close>

text \<open>The slot of an accepted post stays taken for the room's interval.\<close>

definition slot_held :: "host \<Rightarrow> room \<Rightarrow> uin \<Rightarrow> datetime \<Rightarrow> office \<Rightarrow> bool" where
  "slot_held h g u t b \<longleftrightarrow>
     (\<exists>sb. sliding (limits b) (limit_key (bucket_name h) ''group_slowmode'' (slowmode_identity (g_id g) u)) = Some sb \<and>
        t \<in> set (hits sb) \<and> t + seconds (g_slowmode_sec g) \<le> sb_expires sb)"

lemma take_slot_taken:
  assumes "redis_ok b" "take_slot h g u t b = (Inr x, b')"
  shows "slot_held h g u t b'"
  using assms
  by (auto simp: take_slot_def limit_call_def with_limiter_def enforce_rate_limit_def run_limiter_def
      limiter_script_def slot_held_def Let_def set_insort_insert split: if_splits prod.splits)

lemma slot_refuses:
  assumes "redis_ok b" "slot_held h g u t b" "t \<le> t'" "t' < t + seconds (g_slowmode_sec g)"
  obtains r b' where "take_slot h g u t' b = (Inl (rate_limited r), b')" "slot_held h g u t b'"
    "slow_free b' = slow_free b" "db b' = db b"
proof -
  let ?key = "limit_key (bucket_name h) ''group_slowmode'' (slowmode_identity (g_id g) u)"
  obtain sb where sb: "sliding (limits b) ?key = Some sb" "t \<in> set (hits sb)"
      "t + seconds (g_slowmode_sec g) \<le> sb_expires sb"
    using assms(2) by (auto simp: slot_held_def)
  define kept where "kept = filter (\<lambda>x. t' - seconds (g_slowmode_sec g) < x) (live_hits t' (Some sb))"
  have kept: "t \<in> set kept" using sb assms(4) by (simp add: kept_def live_hits_def)
  then have "1 \<le> int (length kept)" by (cases kept) auto
  then have "\<exists>r. limiter_script t' (g_slowmode_sec g) 1 (Some sb) =
      ((False, r), Some \<lparr>hits = kept, sb_expires = sb_expires sb\<rparr>)"
    using kept by (auto simp: limiter_script_def Let_def kept_def [symmetric])
  then obtain r where scr: "limiter_script t' (g_slowmode_sec g) 1 (Some sb) =
      ((False, r), Some \<lparr>hits = kept, sb_expires = sb_expires sb\<rparr>)" by blast
  let ?b = "b\<lparr>limits := (limits b)\<lparr>sliding := (sliding (limits b))(?key \<mapsto> \<lparr>hits = kept, sb_expires = sb_expires sb\<rparr>)\<rparr>\<rparr>"
  have "take_slot h g u t' b = (Inl (rate_limited r), ?b)"
    using assms(1) by (simp add: take_slot_def limit_call_def with_limiter_def enforce_rate_limit_def run_limiter_def sb scr)
  moreover have "slot_held h g u t ?b" using kept sb(3) by (simp add: slot_held_def)
  ultimately show ?thesis using that [of r ?b] by simp
qed

text \<open>Whether the room throttles the account, and one account's posts one after the other.\<close>

definition throttled :: "office \<Rightarrow> room \<Rightarrow> uin \<Rightarrow> bool" where
  "throttled b g u \<longleftrightarrow> 0 < g_slowmode_sec g \<and> u \<noteq> g_owner_uin g \<and>
     (case find_member (db b) (g_id g) u of None \<Rightarrow> False | Some m \<Rightarrow> \<not> exempt_member m)"

fun slow_posts :: "host \<Rightarrow> room \<Rightarrow> uin \<Rightarrow> (string \<times> datetime) list \<Rightarrow> office \<Rightarrow> (string \<times> datetime) list" where
  "slow_posts h g u [] b = []"
| "slow_posts h g u (post # posts) b =
     (case enforce_group_slowmode h (Some g) (Some u) ''message'' (fst post) None 1 (snd post) b of
        (Inl e, b1) \<Rightarrow> slow_posts h g u posts b1
      | (Inr _, b1) \<Rightarrow> post # slow_posts h g u posts b1)"

lemma slowmode_single:
  "throttled b g u \<Longrightarrow>
     enforce_group_slowmode h (Some g) (Some u) ''message'' path None n now b = slow_single h g u path now b"
  by (auto simp: throttled_def enforce_group_slowmode_def split: option.splits)

definition slow_window :: "host \<Rightarrow> room \<Rightarrow> uin \<Rightarrow> datetime \<Rightarrow> office \<Rightarrow> bool" where
  "slow_window h g u t b \<longleftrightarrow> redis_ok b \<and> throttled b g u \<and> slot_held h g u t b"

lemma slow_window_post:
  assumes "slow_window h g u t b" "t \<le> t'" "t' < t + seconds (g_slowmode_sec g)"
    and "key = slowmode_free_key h path (g_id g) u"
  shows "if live_pass t' (slow_free b key)
    then \<exists>b'. enforce_group_slowmode h (Some g) (Some u) ''message'' path None n t' b = (Inr (), b') \<and>
      slow_window h g u t b' \<and> slow_free b' = (slow_free b)(key := None)
    else \<exists>e b'. enforce_group_slowmode h (Some g) (Some u) ''message'' path None n t' b = (Inl e, b') \<and>
      slow_window h g u t b' \<and> slow_free b' = slow_free b"
proof -
  have w: "redis_ok b" "throttled b g u" "slot_held h g u t b" using assms(1) by (simp_all add: slow_window_def)
  obtain r b' where ref: "take_slot h g u t' b = (Inl (rate_limited r), b')" "slot_held h g u t b'"
    "slow_free b' = slow_free b" "db b' = db b"
    using slot_refuses [OF w(1,3) assms(2,3)] by blast
  have w': "slow_window h g u t b'" using ref w by (simp add: slow_window_def throttled_def redis_ok_def)
  have "slow_window h g u t (b\<lparr>slow_free := x\<rparr>)" for x
    using w by (simp add: slow_window_def throttled_def redis_ok_def slot_held_def)
  then show ?thesis unfolding slowmode_single [OF w(2)] slow_single_def
    using w(1) ref w' by (simp add: assms(4) Let_def)
qed

lemma slow_posts_window:
  assumes "slow_window h g u t b"
    and "\<forall>p \<in> set posts. fst p \<in> {path, other_path path} \<and> t \<le> snd p \<and> snd p < t + seconds (g_slowmode_sec g)"
    and "\<forall>t' \<ge> t. \<not> live_pass t' (slow_free b (slowmode_free_key h path (g_id g) u))"
    and "slowmode_free_key h (other_path path) (g_id g) u \<noteq> slowmode_free_key h path (g_id g) u"
    and "slow_free b (slowmode_free_key h (other_path path) (g_id g) u) = (if fresh then Some until else None)"
    and "other_path path \<noteq> path"
  shows "slow_posts h g u posts b =
    (if fresh then take 1 (filter (\<lambda>p. fst p = other_path path \<and> snd p < until) posts) else [])"
  using assms
proof (induction posts arbitrary: b fresh)
  case (Cons post posts)
  obtain q t' where post: "post = (q, t')" by (cases post)
  note step = slow_window_post [OF Cons.prems(1), of t' "slowmode_free_key h q (g_id g) u" q 1]
  show ?case
  proof (cases "q = other_path path \<and> fresh \<and> t' < until")
    case True
    then obtain b' where b': "enforce_group_slowmode h (Some g) (Some u) ''message'' q None 1 t' b = (Inr (), b')"
      "slow_window h g u t b'"
      "slow_free b' = (slow_free b)(slowmode_free_key h (other_path path) (g_id g) u := None)"
      using step Cons.prems post by (auto simp: live_pass_def)
    have "slow_posts h g u posts b' = []"
      using Cons.IH [OF b'(2), of False] Cons.prems b'(3) by simp
    then show ?thesis using True b'(1) post by simp
  next
    case False
    then have "\<not> live_pass t' (slow_free b (slowmode_free_key h q (g_id g) u))"
      using Cons.prems post by (cases fresh) (auto simp: live_pass_def)
    then obtain e b' where b': "enforce_group_slowmode h (Some g) (Some u) ''message'' q None 1 t' b = (Inl e, b')"
      "slow_window h g u t b'" "slow_free b' = slow_free b"
      using step Cons.prems post by auto
    have "slow_posts h g u posts b' =
        (if fresh then take 1 (filter (\<lambda>p. fst p = other_path path \<and> snd p < until) posts) else [])"
      using Cons.IH [OF b'(2), of fresh] Cons.prems b'(3) by simp
    then show ?thesis using False b'(1) post by auto
  qed
qed simp


definition two_halves :: "(string \<times> datetime) list" where
  "two_halves = [(''sealed'', day_30 + seconds 1), (''broadcast'', day_30 + seconds 2), (''broadcast'', day_30 + seconds 3)]"


section \<open>Who may post\<close>

lemma slow_single_error: "slow_single h g u p now b = (Inl e, b') \<Longrightarrow> status e = 429"
  by (auto simp: slow_single_def take_slot_def Let_def split: prod.splits sum.splits if_splits dest!: limit_call_error)

lemma slowmode_error: "enforce_group_slowmode h g c ty p bt n now b = (Inl e, b') \<Longrightarrow> status e = 429"
  by (auto simp: enforce_group_slowmode_def take_slot_def Let_def
      split: option.splits prod.splits sum.splits if_splits dest: limit_call_error slow_single_error)

lemma charge_fanout_error: "charge_fanout h rq c now b = (Inl e, b') \<Longrightarrow> status e = 429"
  by (auto simp: charge_fanout_def with_limiter_def enforce_cost_budget_def Let_def split: prod.splits if_splits)

lemma age_gate_error: "enforce_account_age_gate g c ty now s = Inl e \<Longrightarrow> status e = 403"
  by (auto simp: enforce_account_age_gate_def account_too_young_def Let_def split: option.splits if_splits)

text \<open>
  C30. Only a member with leave to post reaches a room. The broadcast route answers success only to an
  identified caller with a seat in an existing room that is not read-only for them, and only for
  a payload within bounds. Any refusal carries one of the documented statuses and leaves the
  database, the sockets and the push services exactly as they were.
\<close>

theorem broadcast_gates:
  "case send_group_broadcast h now rq body b of
     (Inl e, b') \<Rightarrow> gate_keeps b b' \<and> status e \<in> {401, 403, 404, 422, 429}
   | (Inr out, b') \<Rightarrow> \<exists>u g m. rq_caller rq = Some u \<and> find_room (db b) (gb_group_id body) = Some g \<and>
       find_member (db b) (gb_group_id body) u = Some m \<and> length (gb_payload body) \<le> max_broadcast_payload \<and>
       \<not> (gb_envelope_type body = ''message'' \<and> g_post_policy g = ''owner_only'' \<and> u \<noteq> g_owner_uin g)"
proof -
  obtain e1 b1 where lim: "limit_call h (rq_identity rq) ''messages_broadcast'' 120 60 now b = (e1, b1)" by fastforce
  note k1 = limit_call_keeps [OF lim]
  have db1: "db b1 = db b" using gate_keepsD [OF k1] by simp
  let ?ty = "gb_envelope_type body"
  let ?bad = "max_broadcast_payload < length (gb_payload body) \<or> \<not> batch_valid (gb_batch body) (gb_batch_size body)"
  have id: "g_id g = gb_group_id body" if "find_room (db b) (gb_group_id body) = Some g" for g
    using get_row_Some_memD [OF that [unfolded find_room_def]] by simp
  show ?thesis
  proof (cases "\<exists>e. e1 = Inl e \<or> ?bad \<or> rq_caller rq = None \<or> find_room (db b) (gb_group_id body) = None")
    case True
    then show ?thesis using limit_call_error [of h "rq_identity rq" _ 120 60 now b _ b1] k1 lim
      by (auto simp: send_group_broadcast_def db1 split: sum.splits option.splits)
  next
    case False
    then obtain x u g where ok: "e1 = Inr x" "\<not> ?bad" "rq_caller rq = Some u"
        "find_room (db b) (gb_group_id body) = Some g" by (cases e1) auto
    let ?shut = "?ty = ''message'' \<and> g_post_policy g = ''owner_only'' \<and> u \<noteq> g_owner_uin g"
    show ?thesis
    proof (cases "find_member (db b) (gb_group_id body) u = None \<or> ?shut")
      case True
      then show ?thesis using ok k1 id [OF ok(4)]
        by (auto simp: send_group_broadcast_def lim db1 owner_only_error_def)
    next
      case False
      obtain e2 b2 where slow: "enforce_group_slowmode h (Some g) (Some u) ?ty ''broadcast''
          (gb_batch body) (gb_batch_size body) now b1 = (e2, b2)" by fastforce
      note k2 = gate_keeps_trans [OF k1 slowmode_keeps [OF slow]]
      let ?rows = "recipient_rows (db b2) (gb_group_id body)"
      obtain e3 b3 where chg: "charge_fanout h rq (int (length ?rows)) now b2 = (e3, b3)" by fastforce
      note k3 = gate_keeps_trans [OF k2 charge_fanout_keeps [OF chg]]
      show ?thesis using False ok k2 k3 id [OF ok(4)] slow chg
        by (auto simp: send_group_broadcast_def lim db1 Let_def split: sum.splits prod.splits
            dest: slowmode_error charge_fanout_error age_gate_error)
    qed
  qed
qed

end
