(* ===== verification/Uin_Numbers.thy ===== *)
theory Uin_Numbers
  imports Rcq_Prelude
begin

text \<open>
  The numbers of an island, \<open>app/services/uin.py\<close>: the tables that speak for a number (accounts,
  collections, holds, invites, listings), which numbers are scarce, the tier a number is priced
  at, and the random allocator. A random draw is an argument.
\<close>

section \<open>Tables\<close>

text \<open>The columns of \<open>users\<close> that say who an account is and what it was granted.\<close>

record account =
  ac_uin :: uin
  ac_nickname :: string
  ac_identity_key :: string
  ac_signing_key :: string
  ac_suspended :: bool
  ac_badge :: "string option"
  ac_badge_hidden :: bool
  ac_badges_earned :: "string option"
  ac_resident_since :: "datetime option"
  ac_entered_via :: "string option"
  ac_guest_status :: "string option"
  ac_guest_since :: "datetime option"
  ac_key_unproven_since :: "datetime option"
  ac_invites_minted :: int
  ac_invites_paid_base :: int
  ac_last_seen :: datetime
  ac_created_at :: datetime
  ac_identity_created_at :: "datetime option"

record deed =
  od_uin :: uin
  od_owner_uin :: uin
  od_source :: string

record uin_hold =
  uh_uin :: uin
  uh_hold_id :: string
  uh_expires_at :: datetime

record uin_listing =
  ul_uin :: uin
  ul_seller_uin :: uin
  ul_listing_id :: string
  ul_price_cents :: int
  ul_payout :: "(string \<times> string) list"

record invite =
  iv_code :: string
  iv_max_uses :: int
  iv_used_count :: int
  iv_uin :: "uin option"
  iv_expires_at :: "datetime option"

record registry =
  accounts :: "account list"
  owned_uins :: "deed list"
  uin_holds :: "uin_hold list"
  uin_listings :: "uin_listing list"
  invites :: "invite list"
  spent_vouchers :: "string list"
  uin_epochs :: "uin \<rightharpoonup> int"

definition empty_registry :: registry where
  "empty_registry = \<lparr>accounts = [], owned_uins = [], uin_holds = [], uin_listings = [], invites = [],
     spent_vouchers = [], uin_epochs = Map.empty\<rparr>"

text \<open>A row with the defaults of its columns.\<close>

definition new_account :: "datetime \<Rightarrow> uin \<Rightarrow> string \<Rightarrow> string \<Rightarrow> string \<Rightarrow> account" where
  "new_account now u nickname identity_key signing_key =
     \<lparr>ac_uin = u, ac_nickname = nickname, ac_identity_key = identity_key, ac_signing_key = signing_key,
      ac_suspended = False, ac_badge = None, ac_badge_hidden = False, ac_badges_earned = None,
      ac_resident_since = None, ac_entered_via = None, ac_guest_status = None, ac_guest_since = None,
      ac_key_unproven_since = None, ac_invites_minted = 0, ac_invites_paid_base = 0, ac_last_seen = now,
      ac_created_at = now, ac_identity_created_at = Some now\<rparr>"

definition find_account :: "registry \<Rightarrow> uin \<Rightarrow> account option" where
  "find_account R u = get_row (\<lambda>a. ac_uin a = u) (accounts R)"

definition find_deed :: "registry \<Rightarrow> uin \<Rightarrow> deed option" where
  "find_deed R u = get_row (\<lambda>d. od_uin d = u) (owned_uins R)"

definition find_hold :: "registry \<Rightarrow> uin \<Rightarrow> uin_hold option" where
  "find_hold R u = get_row (\<lambda>h. uh_uin h = u) (uin_holds R)"

definition find_listing :: "registry \<Rightarrow> uin \<Rightarrow> uin_listing option" where
  "find_listing R u = get_row (\<lambda>l. ul_uin l = u) (uin_listings R)"

section \<open>Taken numbers\<close>

definition invite_is_live :: "datetime \<Rightarrow> invite \<Rightarrow> bool" where
  "invite_is_live now i \<longleftrightarrow> iv_used_count i < iv_max_uses i \<and>
     (case iv_expires_at i of None \<Rightarrow> True | Some t \<Rightarrow> now < t)"

definition uin_is_taken :: "datetime \<Rightarrow> uin \<Rightarrow> string option \<Rightarrow> bool \<Rightarrow> registry \<Rightarrow> bool" where
  "uin_is_taken now u except_invite ignore_holds R \<longleftrightarrow>
     find_account R u \<noteq> None \<or>
     find_deed R u \<noteq> None \<or>
     (\<not> ignore_holds \<and> list_ex (\<lambda>h. uh_uin h = u \<and> now < uh_expires_at h) (uin_holds R)) \<or>
     list_ex (\<lambda>i. iv_uin i = Some u \<and> invite_is_live now i \<and>
        (case except_invite of None \<Rightarrow> True | Some code \<Rightarrow> code = [] \<or> iv_code i \<noteq> code)) (invites R)"

section \<open>Scarce numbers\<close>

definition reserved_max_len :: nat where
  "reserved_max_len = 6"

text \<open>The regular expressions, each as the predicate it decides on a string of digits.\<close>

definition repeats_block :: "nat \<Rightarrow> string \<Rightarrow> bool" where
  "repeats_block k s \<longleftrightarrow> 2 * k \<le> length s \<and> length s mod k = 0 \<and>
     s = concat (replicate (length s div k) (take k s))"

definition ladder_up :: "string \<Rightarrow> bool" where
  "ladder_up s \<longleftrightarrow> dropWhile (\<lambda>c. c = CHR ''0'') s \<in> {''12345678'', ''123456789''}"

definition ladder_down :: "string \<Rightarrow> bool" where
  "ladder_down s \<longleftrightarrow>
     (let t = (case s of CHR ''9'' # r \<Rightarrow> r | _ \<Rightarrow> s)
      in take 8 t = ''87654321'' \<and> list_all (\<lambda>c. c = CHR ''0'') (drop 8 t))"

definition round_tail :: "string \<Rightarrow> bool" where
  "round_tail s \<longleftrightarrow> 5 \<le> length s \<and> list_all (\<lambda>c. c = CHR ''0'') (drop (length s - 4) s)"

definition pattern_match :: "string \<Rightarrow> bool" where
  "pattern_match s \<longleftrightarrow> repeats_block 1 s \<or> repeats_block 2 s \<or> repeats_block 3 s \<or>
     ladder_up s \<or> ladder_down s \<or> round_tail s"

fun has_run :: "string \<Rightarrow> bool" where
  "has_run (a # b # c # d # r) \<longleftrightarrow> a = b \<and> b = c \<and> c = d \<or> has_run (b # c # d # r)"
| "has_run s \<longleftrightarrow> False"

definition palindrome :: "string \<Rightarrow> bool" where
  "palindrome s \<longleftrightarrow> s = rev s"

definition distinct_digits :: "string \<Rightarrow> nat" where
  "distinct_digits s = length (remdups s)"

definition uin_length :: "uin \<Rightarrow> nat" where
  "uin_length u = length (show_int u)"

definition price_length :: "uin \<Rightarrow> nat" where
  "price_length u =
     (let s = show_int u; n = length s; d = distinct_digits s;
          tier = (if d \<le> 2 then 3
                  else if d \<le> 3 \<or> palindrome s \<or> has_run s \<or> pattern_match s then 4
                  else if d \<le> 4 \<and> n \<le> 7 then 5
                  else n)
      in min n tier)"

definition is_reserved_uin :: "uin \<Rightarrow> bool" where
  "is_reserved_uin u \<longleftrightarrow> 0 < u \<and>
     (let s = show_int u; d = distinct_digits s
      in length s \<le> reserved_max_len \<or> d \<le> 3 \<or> (d \<le> 4 \<and> length s \<le> 7) \<or> palindrome s \<or>
         has_run s \<or> pattern_match s)"

section \<open>The allocator\<close>

definition uin_min :: int where
  "uin_min = 100000"

definition uin_max :: int where
  "uin_max = 999999999"

definition allocation_exhausted :: http_error where
  "allocation_exhausted = HttpError 500 ''internal_error'' None"

primrec allocate_loop :: "nat \<Rightarrow> datetime \<Rightarrow> int list \<Rightarrow> registry \<Rightarrow> uin outcome" where
  "allocate_loop 0 now draws R = Inl allocation_exhausted"
| "allocate_loop (Suc n) now draws R =
     (let candidate = hd draws + uin_min
      in if is_reserved_uin candidate then allocate_loop n now (tl draws) R
         else if uin_is_taken now candidate None False R then allocate_loop n now (tl draws) R
         else Inr candidate)"

definition allocate_attempts :: nat where
  "allocate_attempts = 100"

definition allocate_uin :: "datetime \<Rightarrow> int list \<Rightarrow> registry \<Rightarrow> uin outcome" where
  "allocate_uin now draws R = allocate_loop allocate_attempts now draws R"

section \<open>What the rules promise\<close>

lemma tier_below:
  fixes n d :: nat
  assumes "7 \<le> n" "d \<le> 3 \<Longrightarrow> low"
  shows "low \<or> (d \<le> 4 \<and> n \<le> 7) \<longleftrightarrow>
    min n (if d \<le> 2 then 3 else if low then 4 else if d \<le> 4 \<and> n \<le> 7 then 5 else n) < n"
  using assms by auto

text \<open>
  The tier and the reservation agree. Among the numbers too long to be scarce by length alone,
  the shop prices a number below its own length exactly when the allocator and the free door
  keep it back: nothing handed out for free is quoted at a premium, and nothing sold at a premium
  can be had for free.
\<close>

theorem premium_iff_reserved:
  assumes "0 < u" "reserved_max_len < uin_length u"
  shows "is_reserved_uin u \<longleftrightarrow> price_length u < uin_length u"
proof -
  let ?s = "show_int u"
  let ?low = "distinct_digits ?s \<le> 3 \<or> palindrome ?s \<or> has_run ?s \<or> pattern_match ?s"
  have n: "7 \<le> length ?s" using assms(2) unfolding reserved_max_len_def uin_length_def by linarith
  have "is_reserved_uin u \<longleftrightarrow> ?low \<or> (distinct_digits ?s \<le> 4 \<and> length ?s \<le> 7)"
    unfolding is_reserved_uin_def reserved_max_len_def Let_def using assms(1) n by linarith
  then show ?thesis
    unfolding price_length_def uin_length_def Let_def using tier_below [OF n, of "distinct_digits ?s" ?low] by blast
qed

theorem premium_iff_reserved_witness:
  "is_reserved_uin 777000777 \<and> price_length 777000777 < uin_length 777000777"
proof -
  have s: "show_int 777000777 = ''777000777''"
    by (simp add: show_int_def show_nat.simps digit_char_def char_of_def bit_0)
  have "is_reserved_uin 777000777" by (simp add: is_reserved_uin_def s distinct_digits_def)
  moreover have "reserved_max_len < uin_length 777000777" by (simp add: reserved_max_len_def uin_length_def s)
  ultimately show ?thesis using premium_iff_reserved [of 777000777] by simp
qed

text \<open>The allocator answers a usable number, and gives up only when every one of its draws was unusable.\<close>

definition usable :: "datetime \<Rightarrow> registry \<Rightarrow> uin \<Rightarrow> bool" where
  "usable now R u \<longleftrightarrow> \<not> is_reserved_uin u \<and> \<not> uin_is_taken now u None False R"

lemma find_SomeD_mem: "List.find P xs = Some x \<Longrightarrow> x \<in> set xs"
  by (induction xs) (auto split: if_splits)

lemma allocate_loop_find:
  "length draws = n \<Longrightarrow> allocate_loop n now draws R =
     (case List.find (usable now R) (map (\<lambda>d. d + uin_min) draws) of
        None \<Rightarrow> Inl allocation_exhausted | Some u \<Rightarrow> Inr u)"
proof (induction n arbitrary: draws)
  case (Suc n)
  then obtain d ds where "draws = d # ds" by (cases draws) auto
  with Suc show ?case by (simp add: usable_def Let_def)
qed simp

lemma allocate_loop_take: "n \<le> length draws \<Longrightarrow> allocate_loop n now draws R = allocate_loop n now (take n draws) R"
proof (induction n arbitrary: draws)
  case (Suc n)
  then obtain d ds where draws: "draws = d # ds" "n \<le> length ds" by (cases draws) auto
  have "allocate_loop n now ds R = allocate_loop n now (take n ds) R" by (rule Suc.IH [OF draws(2)])
  then show ?case by (simp add: draws(1) Let_def)
qed simp

lemma allocate_uin_find:
  assumes "allocate_attempts \<le> length draws"
  shows "allocate_uin now draws R =
     (case List.find (usable now R) (map (\<lambda>d. d + uin_min) (take allocate_attempts draws)) of
        None \<Rightarrow> Inl allocation_exhausted | Some u \<Rightarrow> Inr u)"
  unfolding allocate_uin_def allocate_loop_take [OF assms]
  by (rule allocate_loop_find) (simp add: assms)

lemma allocate_usable:
  assumes "allocate_attempts \<le> length draws" "allocate_uin now draws R = Inr u"
  shows "usable now R u" "\<exists>d \<in> set draws. u = d + uin_min"
proof -
  have f: "List.find (usable now R) (map (\<lambda>d. d + uin_min) (take allocate_attempts draws)) = Some u"
    using assms(2) unfolding allocate_uin_find [OF assms(1)] by (simp split: option.splits)
  then show "usable now R u" by (auto simp: find_Some_iff)
  have "u \<in> set (map (\<lambda>d. d + uin_min) (take allocate_attempts draws))"
    using f by (rule find_SomeD_mem)
  then show "\<exists>d \<in> set draws. u = d + uin_min" by (auto dest: in_set_takeD)
qed

end
