(* ===== verification/Voucher.thy ===== *)
theory Voucher
  imports Rcq_Prelude Rate_Limit "HOL-Library.List_Lexorder" "HOL-Library.Char_ord"
begin

text \<open>
  The documents the till signs, \<open>app/services/uin_voucher.py\<close>: the canonical bytes of each kind,
  the strict base64 reader, and the six verifiers. The JSON parser, Ed25519 and the text of a
  value that is not a string are arguments; everything proved holds for every parser. Strings are
  strings of the code points below 256.
\<close>

section \<open>Canonical JSON\<close>

text \<open>The values the signed documents hold.\<close>

datatype jfield = JI int | JS string

definition hex_char :: "nat \<Rightarrow> char" where
  "hex_char d = (if d < 10 then char_of (48 + d) else char_of (87 + d))"

text \<open>\<open>json.dumps\<close> escapes everything outside printable ASCII.\<close>

definition json_escape :: "char \<Rightarrow> string" where
  "json_escape c =
     (let n = of_char c :: nat
      in if n = 34 then [char_of (92::nat), char_of (34::nat)]
         else if n = 92 then [char_of (92::nat), char_of (92::nat)]
         else if n = 10 then [char_of (92::nat), CHR ''n'']
         else if n = 13 then [char_of (92::nat), CHR ''r'']
         else if n = 9 then [char_of (92::nat), CHR ''t'']
         else if n = 12 then [char_of (92::nat), CHR ''f'']
         else if n = 8 then [char_of (92::nat), CHR ''b'']
         else if 32 \<le> n \<and> n \<le> 126 then [c]
         else [char_of (92::nat), CHR ''u'', CHR ''0'', CHR ''0'', hex_char (n div 16), hex_char (n mod 16)])"

definition json_string :: "string \<Rightarrow> string" where
  "json_string s = char_of (34::nat) # concat (map json_escape s) @ [char_of (34::nat)]"

fun json_field :: "jfield \<Rightarrow> string" where
  "json_field (JI i) = show_int i"
| "json_field (JS s) = json_string s"

definition json_pair :: "string \<times> jfield \<Rightarrow> string" where
  "json_pair p = json_string (fst p) @ '':'' @ json_field (snd p)"

fun json_join :: "string list \<Rightarrow> string" where
  "json_join [] = []"
| "json_join [x] = x"
| "json_join (x # y # r) = x @ '','' @ json_join (y # r)"

definition dumps :: "(string \<times> jfield) list \<Rightarrow> string" where
  "dumps doc = ''{'' @ json_join (map json_pair (sort_key fst doc)) @ ''}''"

section \<open>The signed bytes\<close>

definition voucher_version :: int where
  "voucher_version = 1"

definition signed_bytes :: "int \<Rightarrow> string \<Rightarrow> int \<Rightarrow> string" where
  "signed_bytes u nonce expires =
     dumps [(''v'', JI voucher_version), (''uin'', JI u), (''nonce'', JS nonce), (''exp'', JI expires)]"

definition resale_signed_bytes :: "int \<Rightarrow> string \<Rightarrow> int \<Rightarrow> string \<Rightarrow> int \<Rightarrow> string" where
  "resale_signed_bytes u listing_id price_cents nonce expires =
     dumps [(''v'', JI voucher_version), (''kind'', JS ''resale''), (''uin'', JI u), (''listing'', JS listing_id),
            (''price_cents'', JI price_cents), (''nonce'', JS nonce), (''exp'', JI expires)]"

definition entry_signed_bytes :: "string \<Rightarrow> string \<Rightarrow> int \<Rightarrow> string" where
  "entry_signed_bytes host nonce expires =
     dumps [(''v'', JI voucher_version), (''kind'', JS ''entry''), (''host'', JS host), (''nonce'', JS nonce),
            (''exp'', JI expires)]"

definition payout_signed_bytes :: "int \<Rightarrow> int \<Rightarrow> string" where
  "payout_signed_bytes u expires =
     dumps [(''v'', JI voucher_version), (''kind'', JS ''payout''), (''uin'', JI u), (''exp'', JI expires)]"

definition entry_payout_signed_bytes :: "string \<Rightarrow> int \<Rightarrow> string" where
  "entry_payout_signed_bytes host expires =
     dumps [(''v'', JI voucher_version), (''kind'', JS ''entry_payout''), (''host'', JS host), (''exp'', JI expires)]"

definition hold_signed_bytes :: "string \<Rightarrow> int \<Rightarrow> string \<Rightarrow> int \<Rightarrow> string" where
  "hold_signed_bytes kind u hold_id expires =
     dumps [(''v'', JI voucher_version), (''kind'', JS kind), (''uin'', JI u), (''hold_id'', JS hold_id),
            (''exp'', JI expires)]"

section \<open>Strict base64\<close>

text \<open>The strict mode of \<open>binascii\<close>: full groups may be followed by any number of pads, a short group needs its own.\<close>

definition b64_value :: "char \<Rightarrow> nat option" where
  "b64_value c =
     (let n = of_char c :: nat
      in if 65 \<le> n \<and> n \<le> 90 then Some (n - 65)
         else if 97 \<le> n \<and> n \<le> 122 then Some (n - 71)
         else if 48 \<le> n \<and> n \<le> 57 then Some (n + 4)
         else if n = 43 then Some 62
         else if n = 47 then Some 63
         else None)"

text \<open>Four characters to three bytes; the spare bits of a short last group are dropped.\<close>

fun b64_groups :: "nat list \<Rightarrow> nat list" where
  "b64_groups (a # b # c # d # r) =
     (a * 4 + b div 16) # (b mod 16 * 16 + c div 4) # (c mod 4 * 64 + d) # b64_groups r"
| "b64_groups [a, b, c] = [a * 4 + b div 16, b mod 16 * 16 + c div 4]"
| "b64_groups [a, b] = [a * 4 + b div 16]"
| "b64_groups _ = []"

definition b64decode :: "string \<Rightarrow> nat list option" where
  "b64decode s =
     (let data = takeWhile (\<lambda>c. c \<noteq> CHR ''='') s; pads = dropWhile (\<lambda>c. c \<noteq> CHR ''='') s;
          vals = map b64_value data; spare = length data mod 4
      in if list_ex (\<lambda>v. v = None) vals \<or> list_ex (\<lambda>c. c \<noteq> CHR ''='') pads \<or> (data = [] \<and> pads \<noteq> []) then None
         else if spare = 1 \<or> (spare = 2 \<and> length pads \<noteq> 2) \<or> (spare = 3 \<and> length pads \<noteq> 1) then None
         else Some (b64_groups (map the vals)))"

section \<open>Parsed documents\<close>

text \<open>A finite JSON number with a fraction or exponent is a binary fraction; the parser also reads infinities.\<close>

datatype pyfloat = Finite int int | Infinite | Not_A_Number

datatype json =
    JNull
  | JBool bool
  | JInt int
  | JFloat pyfloat
  | JStr string
  | JArr "json list"
  | JObj "(string \<times> json) list"

record till =
  till_pubkey :: "string option"
  json_loads :: "nat list \<Rightarrow> json option"
  text_of :: "json \<Rightarrow> string"
  ed_verify :: "nat list \<Rightarrow> nat list \<Rightarrow> string \<Rightarrow> bool"

text \<open>What a verifier raises: a refusal with its code, or the overflow nothing catches.\<close>

datatype voucher_error = VoucherError string | OverflowError

definition bad_voucher :: voucher_error where
  "bad_voucher = VoucherError ''bad_voucher''"

definition float_trunc :: "int \<Rightarrow> int \<Rightarrow> int" where
  "float_trunc m e = (if 0 \<le> e then m * 2 ^ nat e else sgn m * (\<bar>m\<bar> div 2 ^ nat (- e)))"

text \<open>\<open>int(text)\<close>: blanks around, a sign, digits with single underscores between them.\<close>

fun underscored :: "bool \<Rightarrow> string \<Rightarrow> string option" where
  "underscored ok [] = (if ok then Some [] else None)"
| "underscored ok (c # cs) =
     (if is_digit c then map_option ((#) c) (underscored True cs)
      else if c = CHR ''_'' \<and> ok then underscored False cs
      else None)"

definition max_str_digits :: nat where
  "max_str_digits = 4300"

definition int_of_text :: "string \<Rightarrow> int option" where
  "int_of_text s =
     (let t = strip s;
          neg = (take 1 t = ''-'');
          r = (if neg \<or> take 1 t = ''+'' then drop 1 t else t)
      in (case underscored False r of
            None \<Rightarrow> None
          | Some ds \<Rightarrow> if max_str_digits < length ds then None
              else Some ((if neg then -1 else 1) * int (read_nat 0 ds))))"

definition py_int :: "json \<Rightarrow> voucher_error + int" where
  "py_int v =
     (case v of
        JInt i \<Rightarrow> Inr i
      | JBool b \<Rightarrow> Inr (if b then 1 else 0)
      | JFloat (Finite m e) \<Rightarrow> Inr (float_trunc m e)
      | JFloat Infinite \<Rightarrow> Inl OverflowError
      | JStr s \<Rightarrow> (case int_of_text s of None \<Rightarrow> Inl bad_voucher | Some i \<Rightarrow> Inr i)
      | _ \<Rightarrow> Inl bad_voucher)"

definition py_str :: "till \<Rightarrow> json \<Rightarrow> string" where
  "py_str t v = (case v of JStr s \<Rightarrow> s | _ \<Rightarrow> text_of t v)"

text \<open>\<open>doc.get("v") != VERSION\<close>: a number equal to one, or the boolean that Python equates with it.\<close>

definition is_version :: "json option \<Rightarrow> bool" where
  "is_version v =
     (case v of
        Some (JInt i) \<Rightarrow> i = voucher_version
      | Some (JBool b) \<Rightarrow> b
      | Some (JFloat (Finite m e)) \<Rightarrow> if 0 \<le> e then m * 2 ^ nat e = 1 else m = 2 ^ nat (- e)
      | _ \<Rightarrow> False)"

definition is_kind :: "string \<Rightarrow> json option \<Rightarrow> bool" where
  "is_kind k v = (v = Some (JStr k))"

definition isascii :: "string \<Rightarrow> bool" where
  "isascii s = list_all (\<lambda>c. (of_char c :: nat) < 128) s"

definition lower_char :: "char \<Rightarrow> char" where
  "lower_char c =
     (let n = of_char c :: nat
      in if (65 \<le> n \<and> n \<le> 90) \<or> (192 \<le> n \<and> n \<le> 222 \<and> n \<noteq> 215) then char_of (n + 32) else c)"

definition lower :: "string \<Rightarrow> string" where
  "lower s = map lower_char s"

text \<open>A field of the parsed document; of two with one name the last counts.\<close>

definition doc_get :: "string \<Rightarrow> (string \<times> json) list \<Rightarrow> json option" where
  "doc_get k doc = map_of (rev doc) k"

definition int_field :: "string \<Rightarrow> (string \<times> json) list \<Rightarrow> voucher_error + int" where
  "int_field k doc = (case doc_get k doc of None \<Rightarrow> Inl bad_voucher | Some v \<Rightarrow> py_int v)"

definition str_field :: "till \<Rightarrow> string \<Rightarrow> (string \<times> json) list \<Rightarrow> voucher_error + string" where
  "str_field t k doc = (case doc_get k doc of None \<Rightarrow> Inl bad_voucher | Some v \<Rightarrow> Inr (py_str t v))"

definition sig_field :: "till \<Rightarrow> (string \<times> json) list \<Rightarrow> voucher_error + nat list" where
  "sig_field t doc =
     (case doc_get ''sig'' doc of
        None \<Rightarrow> Inl bad_voucher
      | Some v \<Rightarrow> (case b64decode (py_str t v) of None \<Rightarrow> Inl bad_voucher | Some b \<Rightarrow> Inr b))"

definition bind_err :: "'e + 'a \<Rightarrow> ('a \<Rightarrow> 'e + 'b) \<Rightarrow> 'e + 'b" where
  "bind_err r f = (case r of Inl e \<Rightarrow> Inl e | Inr a \<Rightarrow> f a)"

definition require :: "bool \<Rightarrow> voucher_error \<Rightarrow> voucher_error + unit" where
  "require ok e = (if ok then Inr () else Inl e)"

text \<open>The key, the base64, the JSON object and the version: how every verifier starts.\<close>

definition open_document :: "till \<Rightarrow> string \<Rightarrow> voucher_error + (string \<times> json) list" where
  "open_document t text =
     (case b64decode (strip text) of
        None \<Rightarrow> Inl bad_voucher
      | Some raw \<Rightarrow>
          (case json_loads t raw of
             Some (JObj doc) \<Rightarrow> if is_version (doc_get ''v'' doc) then Inr doc else Inl bad_voucher
           | _ \<Rightarrow> Inl bad_voucher))"

definition public_key :: "till \<Rightarrow> voucher_error + string" where
  "public_key t =
     (case till_pubkey t of
        None \<Rightarrow> Inl (VoucherError ''sales_disabled'')
      | Some k \<Rightarrow> if k = [] then Inl (VoucherError ''sales_disabled'') else Inr k)"

definition check_signature :: "till \<Rightarrow> string \<Rightarrow> nat list \<Rightarrow> string \<Rightarrow> voucher_error + unit" where
  "check_signature t key sig msg =
     (case b64decode key of
        None \<Rightarrow> Inl bad_voucher
      | Some pub \<Rightarrow> if ed_verify t pub sig msg then Inr () else Inl bad_voucher)"

section \<open>The verifiers\<close>

definition max_age_seconds :: int where
  "max_age_seconds = 7 * 24 * 3600"

definition entry_max_age_seconds :: int where
  "entry_max_age_seconds = 366 * 24 * 3600"

definition hold_max_age_seconds :: int where
  "hold_max_age_seconds = 600"

definition nonce_ok :: "string \<Rightarrow> bool" where
  "nonce_ok nonce \<longleftrightarrow> 16 \<le> length nonce \<and> length nonce \<le> 128 \<and> isascii nonce"

definition expired :: voucher_error where
  "expired = VoucherError ''voucher_expired''"

definition verify :: "till \<Rightarrow> string \<Rightarrow> int \<Rightarrow> int \<Rightarrow> voucher_error + string" where
  "verify t voucher expect_uin now =
     bind_err (public_key t) (\<lambda>key.
     bind_err (open_document t voucher) (\<lambda>doc.
     bind_err (int_field ''uin'' doc) (\<lambda>u.
     bind_err (int_field ''exp'' doc) (\<lambda>expires.
     bind_err (str_field t ''nonce'' doc) (\<lambda>nonce.
     bind_err (sig_field t doc) (\<lambda>sig.
     bind_err (require (nonce_ok nonce) bad_voucher) (\<lambda>_.
     bind_err (require (u = expect_uin) (VoucherError ''voucher_other_uin'')) (\<lambda>_.
     bind_err (require (now < expires) expired) (\<lambda>_.
     bind_err (require (expires - now \<le> max_age_seconds) bad_voucher) (\<lambda>_.
     bind_err (check_signature t key sig (signed_bytes u nonce expires)) (\<lambda>_.
     Inr nonce)))))))))))"

definition verify_resale :: "till \<Rightarrow> string \<Rightarrow> int \<Rightarrow> int \<Rightarrow> voucher_error + string \<times> string \<times> int" where
  "verify_resale t voucher expect_uin now =
     bind_err (public_key t) (\<lambda>key.
     bind_err (open_document t voucher) (\<lambda>doc.
     bind_err (require (is_kind ''resale'' (doc_get ''kind'' doc)) bad_voucher) (\<lambda>_.
     bind_err (int_field ''uin'' doc) (\<lambda>u.
     bind_err (str_field t ''listing'' doc) (\<lambda>listing_id.
     bind_err (int_field ''price_cents'' doc) (\<lambda>price_cents.
     bind_err (int_field ''exp'' doc) (\<lambda>expires.
     bind_err (str_field t ''nonce'' doc) (\<lambda>nonce.
     bind_err (sig_field t doc) (\<lambda>sig.
     bind_err (require (nonce_ok nonce) bad_voucher) (\<lambda>_.
     bind_err (require (u = expect_uin) (VoucherError ''voucher_other_uin'')) (\<lambda>_.
     bind_err (require (0 \<le> price_cents \<and> 1 \<le> length listing_id \<and> length listing_id \<le> 32 \<and> isascii listing_id)
                 bad_voucher) (\<lambda>_.
     bind_err (require (now < expires) expired) (\<lambda>_.
     bind_err (require (expires - now \<le> max_age_seconds) bad_voucher) (\<lambda>_.
     bind_err (check_signature t key sig (resale_signed_bytes u listing_id price_cents nonce expires)) (\<lambda>_.
     Inr (nonce, listing_id, price_cents))))))))))))))))"

text \<open>The island's own name, lower case and without blanks; an island without a name checks nothing.\<close>

definition own_host :: "string \<Rightarrow> voucher_error + string" where
  "own_host expect_host =
     (if lower (strip expect_host) = [] then Inl (VoucherError ''sales_disabled'') else Inr (lower (strip expect_host)))"

definition verify_entry :: "till \<Rightarrow> string \<Rightarrow> string \<Rightarrow> int \<Rightarrow> voucher_error + string" where
  "verify_entry t voucher expect_host now =
     bind_err (public_key t) (\<lambda>key.
     bind_err (own_host expect_host) (\<lambda>expect.
     bind_err (open_document t voucher) (\<lambda>doc.
     bind_err (require (is_kind ''entry'' (doc_get ''kind'' doc)) bad_voucher) (\<lambda>_.
     bind_err (str_field t ''host'' doc) (\<lambda>host_signed.
     bind_err (int_field ''exp'' doc) (\<lambda>expires.
     bind_err (str_field t ''nonce'' doc) (\<lambda>nonce.
     bind_err (sig_field t doc) (\<lambda>sig.
     bind_err (require (nonce_ok nonce) bad_voucher) (\<lambda>_.
     bind_err (require (lower (strip host_signed) = expect) (VoucherError ''voucher_other_island'')) (\<lambda>_.
     bind_err (require (now < expires) expired) (\<lambda>_.
     bind_err (require (expires - now \<le> entry_max_age_seconds) bad_voucher) (\<lambda>_.
     bind_err (check_signature t key sig (entry_signed_bytes host_signed nonce expires)) (\<lambda>_.
     Inr nonce)))))))))))))"

definition verify_payout :: "till \<Rightarrow> string \<Rightarrow> int \<Rightarrow> voucher_error + int" where
  "verify_payout t request now =
     bind_err (public_key t) (\<lambda>key.
     bind_err (open_document t request) (\<lambda>doc.
     bind_err (require (is_kind ''payout'' (doc_get ''kind'' doc)) bad_voucher) (\<lambda>_.
     bind_err (int_field ''uin'' doc) (\<lambda>u.
     bind_err (int_field ''exp'' doc) (\<lambda>expires.
     bind_err (sig_field t doc) (\<lambda>sig.
     bind_err (require (now < expires \<and> expires - now \<le> hold_max_age_seconds) expired) (\<lambda>_.
     bind_err (check_signature t key sig (payout_signed_bytes u expires)) (\<lambda>_.
     Inr u))))))))"

definition verify_entry_payout :: "till \<Rightarrow> string \<Rightarrow> string \<Rightarrow> int \<Rightarrow> voucher_error + string" where
  "verify_entry_payout t request expect_host now =
     bind_err (public_key t) (\<lambda>key.
     bind_err (own_host expect_host) (\<lambda>expect.
     bind_err (open_document t request) (\<lambda>doc.
     bind_err (require (is_kind ''entry_payout'' (doc_get ''kind'' doc)) bad_voucher) (\<lambda>_.
     bind_err (str_field t ''host'' doc) (\<lambda>host_signed.
     bind_err (int_field ''exp'' doc) (\<lambda>expires.
     bind_err (sig_field t doc) (\<lambda>sig.
     bind_err (require (1 \<le> length host_signed \<and> length host_signed \<le> 253 \<and> isascii host_signed) bad_voucher) (\<lambda>_.
     bind_err (require (now < expires \<and> expires - now \<le> hold_max_age_seconds) expired) (\<lambda>_.
     bind_err (check_signature t key sig (entry_payout_signed_bytes host_signed expires)) (\<lambda>_.
     bind_err (require (lower (strip host_signed) = expect) (VoucherError ''voucher_other_island'')) (\<lambda>_.
     Inr host_signed)))))))))))"

definition hold_kinds :: "string list" where
  "hold_kinds = [''hold'', ''release'']"

definition verify_hold :: "till \<Rightarrow> string \<Rightarrow> int \<Rightarrow> voucher_error + string \<times> int \<times> string \<times> int" where
  "verify_hold t request now =
     bind_err (public_key t) (\<lambda>key.
     bind_err (open_document t request) (\<lambda>doc.
     bind_err (str_field t ''kind'' doc) (\<lambda>kind.
     bind_err (int_field ''uin'' doc) (\<lambda>u.
     bind_err (str_field t ''hold_id'' doc) (\<lambda>hold_id.
     bind_err (int_field ''exp'' doc) (\<lambda>expires.
     bind_err (sig_field t doc) (\<lambda>sig.
     bind_err (require (kind \<in> set hold_kinds \<and> 1 \<le> length hold_id \<and> length hold_id \<le> 64 \<and> isascii hold_id)
                 bad_voucher) (\<lambda>_.
     bind_err (require (now < expires) expired) (\<lambda>_.
     bind_err (require (expires - now \<le> hold_max_age_seconds) bad_voucher) (\<lambda>_.
     bind_err (check_signature t key sig (hold_signed_bytes kind u hold_id expires)) (\<lambda>_.
     Inr (kind, u, hold_id, expires))))))))))))"

lemma bind_err_Inr [simp]: "bind_err r f = Inr b \<longleftrightarrow> (\<exists>a. r = Inr a \<and> f a = Inr b)"
  by (auto simp: bind_err_def split: sum.splits)

lemma require_Inr [simp]: "require ok e = Inr x \<longleftrightarrow> ok"
  by (auto simp: require_def)

section \<open>The encoding is injective\<close>

definition hex_val :: "char \<Rightarrow> nat" where
  "hex_val c = (let n = of_char c in if n < 58 then n - 48 else n - 87)"

lemma hex_val_char: "d < 16 \<Longrightarrow> hex_val (hex_char d) = d"
  by (auto simp: hex_val_def hex_char_def Let_def)

text \<open>Reading one escaped character back.\<close>

definition unescape :: "string \<Rightarrow> (char \<times> string) option" where
  "unescape s =
     (case s of
        [] \<Rightarrow> None
      | a # r \<Rightarrow>
          if of_char a = (34::nat) then None
          else if of_char a \<noteq> (92::nat) then Some (a, r)
          else (case r of
             [] \<Rightarrow> None
           | b # r' \<Rightarrow>
               let m = of_char b :: nat
               in if m = 110 then Some (char_of (10::nat), r')
                  else if m = 114 then Some (char_of (13::nat), r')
                  else if m = 116 then Some (char_of (9::nat), r')
                  else if m = 102 then Some (char_of (12::nat), r')
                  else if m = 98 then Some (char_of (8::nat), r')
                  else if m = 117 then Some (char_of (hex_val (r' ! 2) * 16 + hex_val (r' ! 3)), drop 4 r')
                  else Some (b, r')))"

lemma unescape_escape: "unescape (json_escape c @ x) = Some (c, x)"
proof -
  define n where "n = (of_char c :: nat)"
  have n: "n < 256" and c: "c = char_of n" by (simp_all add: n_def)
  have hex: "hex_val (hex_char (n div 16)) * 16 + hex_val (hex_char (n mod 16)) = n"
    using n by (simp add: hex_val_char)
  consider "n \<in> {34, 92, 10, 13, 9, 12, 8}" | "n \<notin> {34, 92, 10, 13, 9, 12, 8}" "32 \<le> n \<and> n \<le> 126"
    | "n \<notin> {34, 92, 10, 13, 9, 12, 8}" "\<not> (32 \<le> n \<and> n \<le> 126)" by blast
  then show ?thesis
  proof cases
    case 1
    then show ?thesis by (auto simp: json_escape_def unescape_def c)
  next
    case 2
    then show ?thesis by (simp add: json_escape_def unescape_def n_def [symmetric])
  next
    case 3
    then have "json_escape c = [char_of (92::nat), CHR ''u'', CHR ''0'', CHR ''0'', hex_char (n div 16), hex_char (n mod 16)]"
      by (simp add: json_escape_def n_def [symmetric])
    then show ?thesis by (simp add: unescape_def hex numeral_2_eq_2 numeral_3_eq_3 c)
  qed
qed

lemma unescape_quote [simp]: "unescape (char_of (34::nat) # r) = None"
  by (simp add: unescape_def)

lemma quote_not_escape: "char_of (34::nat) # r \<noteq> json_escape c @ x"
  using unescape_escape [of c x] unescape_quote [of r] by (metis option.distinct(1))

lemma json_body_inject:
  "concat (map json_escape s) @ char_of (34::nat) # r = concat (map json_escape s') @ char_of (34::nat) # r' \<Longrightarrow>
     s = s' \<and> r = r'"
proof (induction s arbitrary: s')
  case Nil
  then show ?case using quote_not_escape by (cases s') auto
next
  case (Cons c s)
  then obtain c' t where s': "s' = c' # t"
    using quote_not_escape [of r' c "concat (map json_escape s) @ char_of (34::nat) # r"] by (cases s') (auto dest: sym)
  from Cons.prems have "unescape (json_escape c @ concat (map json_escape s) @ char_of (34::nat) # r) =
      unescape (json_escape c' @ concat (map json_escape t) @ char_of (34::nat) # r')"
    by (simp add: s')
  then have "c = c'" "concat (map json_escape s) @ char_of (34::nat) # r = concat (map json_escape t) @ char_of (34::nat) # r'"
    by (simp_all add: unescape_escape)
  then show ?case using Cons.IH [of t] by (simp add: s')
qed

lemma json_string_inject: "json_string s @ r = json_string s' @ r' \<Longrightarrow> s = s' \<and> r = r'"
  using json_body_inject [of s r s' r'] by (simp add: json_string_def)

definition int_char :: "char \<Rightarrow> bool" where
  "int_char c \<longleftrightarrow> is_digit c \<or> of_char c = (45::nat)"

lemma show_int_chars: "c \<in> set (show_int i) \<Longrightarrow> int_char c"
  by (auto simp: show_int_def int_char_def dest: show_nat_digits split: if_splits)

lemma show_int_nonempty: "show_int i \<noteq> []"
  by (simp add: show_int_def show_nat_nonempty)

lemma show_int_delimited:
  assumes "show_int i @ c # r = show_int j @ c' # r'" "\<not> int_char c" "\<not> int_char c'"
  shows "i = j \<and> c # r = c' # r'"
proof -
  have t: "takeWhile int_char (show_int k @ d # q) = show_int k" if "\<not> int_char d" for k d q
    using that show_int_chars by (subst takeWhile_append2) auto
  have "show_int i = show_int j" using t [OF assms(2), of i r] t [OF assms(3), of j r'] assms(1) by metis
  then show ?thesis using assms(1) by (simp add: show_int_inject)
qed

lemma json_field_inject:
  assumes "json_field v @ c # r = json_field v' @ c' # r'" "\<not> int_char c" "\<not> int_char c'"
  shows "v = v' \<and> c # r = c' # r'"
proof -
  have no: "show_int i @ x \<noteq> json_string s @ y" for i x s y
  proof
    assume "show_int i @ x = json_string s @ y"
    then have "hd (show_int i) = char_of (34::nat)"
      using show_int_nonempty [of i] by (cases "show_int i") (auto simp: json_string_def)
    moreover have "int_char (hd (show_int i))" using show_int_chars show_int_nonempty by (metis list.set_sel(1))
    ultimately show False by (simp add: int_char_def is_digit_def)
  qed
  show ?thesis
  proof (cases v; cases v')
    fix i j assume "v = JI i" "v' = JI j"
    then show ?thesis using show_int_delimited [of i c r j c' r'] assms by simp
  next
    fix i s assume "v = JI i" "v' = JS s"
    then show ?thesis using no [of i "c # r" s "c' # r'"] assms(1) by simp
  next
    fix s i assume "v = JS s" "v' = JI i"
    then show ?thesis using no [of i "c' # r'" s "c # r"] assms(1) by simp
  next
    fix s s' assume "v = JS s" "v' = JS s'"
    then show ?thesis using json_string_inject [of s "c # r" s' "c' # r'"] assms(1) by simp
  qed
qed

lemma json_pair_inject:
  assumes "json_pair p @ c # r = json_pair p' @ c' # r'" "\<not> int_char c" "\<not> int_char c'"
  shows "p = p' \<and> c # r = c' # r'"
proof -
  have "fst p = fst p'" and rest: "json_field (snd p) @ c # r = json_field (snd p') @ c' # r'"
    using json_string_inject [of "fst p" "CHR '':'' # json_field (snd p) @ c # r" "fst p'" "CHR '':'' # json_field (snd p') @ c' # r'"]
      assms(1) by (simp_all add: json_pair_def)
  with json_field_inject [OF rest assms(2,3)] show ?thesis by (simp add: prod_eq_iff)
qed

lemma int_char_delims [simp]: "\<not> int_char CHR '',''" "\<not> int_char CHR ''}''"
  by (simp_all add: int_char_def is_digit_def)

lemma json_join_pairs:
  "json_join (map json_pair (p # ps)) @ CHR ''}'' # r =
     json_pair p @ (if ps = [] then CHR ''}'' # r else CHR '','' # json_join (map json_pair ps) @ CHR ''}'' # r)"
  by (cases ps) simp_all

lemma json_join_start: "json_join (map json_pair (p # ps)) @ CHR ''}'' # r \<noteq> CHR ''}'' # r'"
proof -
  have "CHR ''}'' \<noteq> char_of (34::nat)" by code_simp
  then show ?thesis unfolding json_join_pairs by (simp add: json_pair_def json_string_def)
qed

lemma json_join_inject:
  "json_join (map json_pair ps) @ CHR ''}'' # r = json_join (map json_pair qs) @ CHR ''}'' # r' \<Longrightarrow> ps = qs"
proof (induction ps arbitrary: qs)
  case Nil
  then show ?case using json_join_start [of _ _ r' r] by (cases qs) (metis list.simps(8) json_join.simps(1) append_Nil)+
next
  case (Cons p ps)
  then obtain q qs' where qs: "qs = q # qs'"
    using json_join_start [of p ps r r'] by (cases qs) (metis list.simps(8) json_join.simps(1) append_Nil, blast)
  let ?rest = "\<lambda>ps r. if ps = [] then CHR ''}'' # r else CHR '','' # json_join (map json_pair ps) @ CHR ''}'' # r"
  obtain c x where c: "?rest ps r = c # x" "\<not> int_char c" by (cases "ps = []") auto
  obtain c' x' where c': "?rest qs' r' = c' # x'" "\<not> int_char c'" by (cases "qs' = []") auto
  have "json_pair p @ c # x = json_pair q @ c' # x'"
    using Cons.prems unfolding qs json_join_pairs c(1) c'(1) .
  from json_pair_inject [OF this c(2) c'(2)] have "p = q" "?rest ps r = ?rest qs' r'" using c c' by simp_all
  then show ?case using Cons.IH [of qs'] by (auto simp: qs split: if_splits)
qed

lemma dumps_inject:
  assumes "dumps doc = dumps doc'" "distinct (map fst doc)" "distinct (map fst doc')"
  shows "map_of doc = map_of doc'"
proof -
  have "sort_key fst doc = sort_key fst doc'"
    using json_join_inject [of "sort_key fst doc" "[]" "sort_key fst doc'" "[]"] assms(1) by (simp add: dumps_def)
  then have "set doc = set doc'" by (metis set_sort)
  then show ?thesis using assms(2,3) by (simp add: map_of_inject_set)
qed

section \<open>One key, six kinds of document\<close>

datatype document =
    Sale int string int
  | Resale int string int string int
  | Entry string string int
  | Payout int int
  | Entry_Payout string int
  | Hold string int string int

fun doc_bytes :: "document \<Rightarrow> string" where
  "doc_bytes (Sale u nonce expires) = signed_bytes u nonce expires"
| "doc_bytes (Resale u listing_id price_cents nonce expires) = resale_signed_bytes u listing_id price_cents nonce expires"
| "doc_bytes (Entry host nonce expires) = entry_signed_bytes host nonce expires"
| "doc_bytes (Payout u expires) = payout_signed_bytes u expires"
| "doc_bytes (Entry_Payout host expires) = entry_payout_signed_bytes host expires"
| "doc_bytes (Hold kind u hold_id expires) = hold_signed_bytes kind u hold_id expires"

fun doc_fields :: "document \<Rightarrow> (string \<times> jfield) list" where
  "doc_fields (Sale u nonce expires) =
     [(''v'', JI voucher_version), (''uin'', JI u), (''nonce'', JS nonce), (''exp'', JI expires)]"
| "doc_fields (Resale u listing_id price_cents nonce expires) =
     [(''v'', JI voucher_version), (''kind'', JS ''resale''), (''uin'', JI u), (''listing'', JS listing_id),
      (''price_cents'', JI price_cents), (''nonce'', JS nonce), (''exp'', JI expires)]"
| "doc_fields (Entry host nonce expires) =
     [(''v'', JI voucher_version), (''kind'', JS ''entry''), (''host'', JS host), (''nonce'', JS nonce), (''exp'', JI expires)]"
| "doc_fields (Payout u expires) =
     [(''v'', JI voucher_version), (''kind'', JS ''payout''), (''uin'', JI u), (''exp'', JI expires)]"
| "doc_fields (Entry_Payout host expires) =
     [(''v'', JI voucher_version), (''kind'', JS ''entry_payout''), (''host'', JS host), (''exp'', JI expires)]"
| "doc_fields (Hold kind u hold_id expires) =
     [(''v'', JI voucher_version), (''kind'', JS kind), (''uin'', JI u), (''hold_id'', JS hold_id), (''exp'', JI expires)]"

lemma doc_bytes_fields: "doc_bytes d = dumps (doc_fields d)"
  by (cases d) (simp_all add: signed_bytes_def resale_signed_bytes_def entry_signed_bytes_def payout_signed_bytes_def
      entry_payout_signed_bytes_def hold_signed_bytes_def)

lemma doc_fields_distinct: "distinct (map fst (doc_fields d))"
  by (cases d) simp_all

lemma doc_bytes_inject:
  assumes "doc_bytes d = doc_bytes d'"
  shows "d = d'"
proof -
  have m: "map_of (doc_fields d) = map_of (doc_fields d')"
    using assms unfolding doc_bytes_fields by (rule dumps_inject) (rule doc_fields_distinct)+
  note k = fun_cong [OF m, of "''exp''"] fun_cong [OF m, of "''kind''"] fun_cong [OF m, of "''uin''"]
    fun_cong [OF m, of "''nonce''"] fun_cong [OF m, of "''listing''"] fun_cong [OF m, of "''price_cents''"]
    fun_cong [OF m, of "''host''"] fun_cong [OF m, of "''hold_id''"]
  show ?thesis using k by (cases d; cases d') simp_all
qed

lemma signature_names:
  assumes "\<forall>pub sig m. b64decode key = Some pub \<longrightarrow> ed_verify t pub sig m \<longrightarrow> m \<in> doc_bytes ` signed"
    and "check_signature t key sig (doc_bytes d) = Inr x"
  shows "d \<in> signed"
proof -
  have "doc_bytes d \<in> doc_bytes ` signed"
    using assms by (auto simp: check_signature_def split: option.splits if_splits)
  then show ?thesis using doc_bytes_inject by blast
qed

lemma accepted_parts:
  assumes "till_pubkey t = Some key"
    and "\<forall>pub sig m. b64decode key = Some pub \<longrightarrow> ed_verify t pub sig m \<longrightarrow> m \<in> doc_bytes ` signed"
  shows "verify t w u now = Inr n \<Longrightarrow> \<exists>e. Sale u n e \<in> signed \<and> now < e \<and> e \<le> now + max_age_seconds"
    and "verify_resale t w u now = Inr (n, l, c) \<Longrightarrow>
      \<exists>e. Resale u l c n e \<in> signed \<and> now < e \<and> e \<le> now + max_age_seconds"
    and "verify_entry t w h now = Inr n \<Longrightarrow>
      \<exists>s e. Entry s n e \<in> signed \<and> lower (strip s) = lower (strip h) \<and> now < e \<and> e \<le> now + entry_max_age_seconds"
    and "verify_payout t w now = Inr u \<Longrightarrow> \<exists>e. Payout u e \<in> signed \<and> now < e \<and> e \<le> now + hold_max_age_seconds"
    and "verify_entry_payout t w h now = Inr s \<Longrightarrow>
      \<exists>e. Entry_Payout s e \<in> signed \<and> lower (strip s) = lower (strip h) \<and> now < e \<and> e \<le> now + hold_max_age_seconds"
    and "verify_hold t w now = Inr (k, u, i, e) \<Longrightarrow>
      Hold k u i e \<in> signed \<and> k \<in> set hold_kinds \<and> now < e \<and> e \<le> now + hold_max_age_seconds"
proof -
  note names = signature_names [OF assms(2), where d = "Sale _ _ _", simplified]
    signature_names [OF assms(2), where d = "Resale _ _ _ _ _", simplified]
    signature_names [OF assms(2), where d = "Entry _ _ _", simplified]
    signature_names [OF assms(2), where d = "Payout _ _", simplified]
    signature_names [OF assms(2), where d = "Entry_Payout _ _", simplified]
    signature_names [OF assms(2), where d = "Hold _ _ _ _", simplified]
  have key: "k = key" if "public_key t = Inr k" for k
    using that assms(1) by (auto simp: public_key_def split: if_splits)
  show "verify t w u now = Inr n \<Longrightarrow> \<exists>e. Sale u n e \<in> signed \<and> now < e \<and> e \<le> now + max_age_seconds"
    by (auto simp: verify_def dest!: key names)
  show "verify_resale t w u now = Inr (n, l, c) \<Longrightarrow>
      \<exists>e. Resale u l c n e \<in> signed \<and> now < e \<and> e \<le> now + max_age_seconds"
    by (auto simp: verify_resale_def dest!: key names)
  show "verify_entry t w h now = Inr n \<Longrightarrow>
      \<exists>s e. Entry s n e \<in> signed \<and> lower (strip s) = lower (strip h) \<and> now < e \<and> e \<le> now + entry_max_age_seconds"
    by (force simp: verify_entry_def own_host_def split: if_splits dest!: key names)
  show "verify_payout t w now = Inr u \<Longrightarrow> \<exists>e. Payout u e \<in> signed \<and> now < e \<and> e \<le> now + hold_max_age_seconds"
    by (auto simp: verify_payout_def dest!: key names)
  show "verify_entry_payout t w h now = Inr s \<Longrightarrow>
      \<exists>e. Entry_Payout s e \<in> signed \<and> lower (strip s) = lower (strip h) \<and> now < e \<and> e \<le> now + hold_max_age_seconds"
    by (force simp: verify_entry_payout_def own_host_def split: if_splits dest!: key names)
  show "verify_hold t w now = Inr (k, u, i, e) \<Longrightarrow>
      Hold k u i e \<in> signed \<and> k \<in> set hold_kinds \<and> now < e \<and> e \<le> now + hold_max_age_seconds"
    by (auto simp: verify_hold_def dest!: key names)
qed

text \<open>
  C11. The till's key opens exactly what the till signed. If a signature verifies only on bytes the till
  signed, then a document accepted as any of the six kinds is a document of that kind the till
  signed, for the number, the listing, the price or the island at hand, and inside its time. A
  voucher bought for one purpose is never accepted for another.
\<close>

theorem accepted_as_signed:
  assumes "till_pubkey t = Some key"
    and "\<forall>pub sig m. b64decode key = Some pub \<longrightarrow> ed_verify t pub sig m \<longrightarrow> m \<in> doc_bytes ` signed"
  shows "(verify t w u now = Inr n \<longrightarrow> (\<exists>e. Sale u n e \<in> signed \<and> now < e \<and> e \<le> now + max_age_seconds)) \<and>
    (verify_resale t w u now = Inr (n, l, c) \<longrightarrow>
      (\<exists>e. Resale u l c n e \<in> signed \<and> now < e \<and> e \<le> now + max_age_seconds)) \<and>
    (verify_entry t w h now = Inr n \<longrightarrow>
      (\<exists>s e. Entry s n e \<in> signed \<and> lower (strip s) = lower (strip h) \<and> now < e \<and> e \<le> now + entry_max_age_seconds)) \<and>
    (verify_payout t w now = Inr u \<longrightarrow> (\<exists>e. Payout u e \<in> signed \<and> now < e \<and> e \<le> now + hold_max_age_seconds)) \<and>
    (verify_entry_payout t w h now = Inr s \<longrightarrow>
      (\<exists>e. Entry_Payout s e \<in> signed \<and> lower (strip s) = lower (strip h) \<and> now < e \<and> e \<le> now + hold_max_age_seconds)) \<and>
    (verify_hold t w now = Inr (k, u, i, x) \<longrightarrow>
      Hold k u i x \<in> signed \<and> k \<in> set hold_kinds \<and> now < x \<and> x \<le> now + hold_max_age_seconds)"
  by (rule conjI, rule impI, erule accepted_parts(1) [OF assms], rule conjI, rule impI, erule accepted_parts(2) [OF assms],
      rule conjI, rule impI, erule accepted_parts(3) [OF assms], rule conjI, rule impI, erule accepted_parts(4) [OF assms],
      rule conjI, rule impI, erule accepted_parts(5) [OF assms], rule impI, erule accepted_parts(6) [OF assms])

definition sample_nonce :: string where
  "sample_nonce = ''0123456789abcdef''"

definition sample_till :: till where
  "sample_till = \<lparr>till_pubkey = Some ''AAAA'',
     json_loads = (\<lambda>_. Some (JObj [(''v'', JInt 1), (''uin'', JInt 42), (''nonce'', JStr sample_nonce), (''exp'', JInt 100),
        (''sig'', JStr ''AAAA'')])),
     text_of = (\<lambda>_. []), ed_verify = (\<lambda>_ _ m. m = doc_bytes (Sale 42 sample_nonce 100))\<rparr>"

theorem accepted_as_signed_witness:
  "verify sample_till ''AAAA'' 42 50 = Inr sample_nonce \<and>
   verify_hold sample_till ''AAAA'' 50 = Inl bad_voucher \<and>
   (\<exists>e. Sale 42 sample_nonce e \<in> {Sale 42 sample_nonce 100} \<and> 50 < e \<and> e \<le> 50 + max_age_seconds)"
proof -
  have dec: "b64decode ''AAAA'' = Some [0, 0, 0]" "b64decode (strip ''AAAA'') = Some [0, 0, 0]" "nonce_ok sample_nonce"
    by code_simp+
  have doc: "open_document sample_till ''AAAA'' = Inr [(''v'', JInt 1), (''uin'', JInt 42), (''nonce'', JStr sample_nonce),
      (''exp'', JInt 100), (''sig'', JStr ''AAAA'')]"
    by (simp add: open_document_def dec sample_till_def is_version_def doc_get_def voucher_version_def)
  have key: "public_key sample_till = Inr ''AAAA''"
    and chk: "check_signature sample_till ''AAAA'' sig (signed_bytes 42 sample_nonce 100) = Inr ()" for sig
    by (simp_all add: public_key_def check_signature_def dec) (simp_all add: sample_till_def)
  note fields = int_field_def str_field_def sig_field_def doc_get_def py_int_def py_str_def dec require_def
  have v: "verify sample_till ''AAAA'' 42 50 = Inr sample_nonce"
    by (simp add: verify_def bind_err_def key doc fields max_age_seconds_def chk)
  have h: "verify_hold sample_till ''AAAA'' 50 = Inl bad_voucher"
    by (simp add: verify_hold_def bind_err_def key doc fields)
  have pub: "till_pubkey sample_till = Some ''AAAA''"
    and unf: "\<forall>pub sig m. b64decode ''AAAA'' = Some pub \<longrightarrow> ed_verify sample_till pub sig m \<longrightarrow>
      m \<in> doc_bytes ` {Sale 42 sample_nonce 100}"
    by (simp_all add: sample_till_def)
  show ?thesis by (intro conjI v h, rule accepted_as_signed [OF pub unf, THEN conjunct1, THEN mp, OF v])
qed

end
