(* ===== verification/Proof_Bytes.thy ===== *)
theory Proof_Bytes
  imports Voucher
begin

text \<open>
  The bytes a key holder signs to rotate a key, \<open>app/services/reissue_proof.py\<close>, or to take a seat
  as a guest, \<open>app/services/guest_proof.py\<close>, with the readers of keys, nonces and signatures and the
  names of the island from \<open>app/services/island_hosts.py\<close>. A byte string is a list of numbers below
  256; a signed message is the text before it is encoded.
\<close>

section \<open>Base64 writers\<close>

definition b64_char :: "nat \<Rightarrow> char" where
  "b64_char v = char_of (if v < 26 then v + 65 else if v < 52 then v + 71 else if v < 62 then v - 4
     else if v = 62 then 43 else 47)"

definition b64_url_char :: "nat \<Rightarrow> char" where
  "b64_url_char v = (if v = 62 then CHR ''-'' else if v = 63 then CHR ''_'' else b64_char v)"

fun b64_values :: "nat list \<Rightarrow> nat list" where
  "b64_values (a # b # c # r) = (a div 4) # (a mod 4 * 16 + b div 16) # (b mod 16 * 4 + c div 64) # (c mod 64) # b64_values r"
| "b64_values [a, b] = [a div 4, a mod 4 * 16 + b div 16, b mod 16 * 4]"
| "b64_values [a] = [a div 4, a mod 4 * 16]"
| "b64_values [] = []"

definition padding :: "nat \<Rightarrow> string" where
  "padding n = replicate ((4 - n mod 4) mod 4) (CHR ''='')"

definition b64encode :: "nat list \<Rightarrow> string" where
  "b64encode raw = map b64_char (b64_values raw) @ padding (length (b64_values raw))"

section \<open>Fields of a proof\<close>

definition b64_any :: "string \<Rightarrow> nat list option" where
  "b64_any value = b64decode (strip value @ padding (length (strip value)))"

definition decode_bytes :: "nat \<Rightarrow> string \<Rightarrow> nat list option" where
  "decode_bytes n value =
     (case b64_any value of None \<Rightarrow> None | Some d \<Rightarrow> if length d = n then Some d else None)"

definition decode_key32 :: "string \<Rightarrow> nat list option" where
  "decode_key32 value = decode_bytes 32 value"

definition decode_signature :: "string \<Rightarrow> nat list option" where
  "decode_signature value = decode_bytes 64 value"

definition url_value :: "char \<Rightarrow> nat option" where
  "url_value c = (if c = CHR ''-'' then Some 62 else if c = CHR ''_'' then Some 63
     else if c = CHR ''+'' \<or> c = CHR ''/'' then None else b64_value c)"

text \<open>22 characters of the URL alphabet carry sixteen bytes and four spare bits.\<close>

definition decode_nonce :: "string \<Rightarrow> nat list option" where
  "decode_nonce value =
     (let raw = strip value; vals = map url_value raw
      in if length raw \<noteq> 22 \<or> list_ex (\<lambda>v. v = None) vals then None else Some (b64_groups (map the vals)))"

definition canonical_key :: "nat list \<Rightarrow> string" where
  "canonical_key raw = b64encode raw"

definition canonical_nonce :: "nat list \<Rightarrow> string" where
  "canonical_nonce raw = map b64_url_char (b64_values raw)"

definition rstrip_dots :: "string \<Rightarrow> string" where
  "rstrip_dots s = rev (dropWhile (\<lambda>c. c = CHR ''.'') (rev s))"

text \<open>The host and the port of a name, before dots and the default port are dropped.\<close>

definition split_port :: "string \<Rightarrow> string \<times> string" where
  "split_port host =
     (if take 1 host = ''['' then
        let head = takeWhile (\<lambda>c. c \<noteq> CHR '']'') host; rest = dropWhile (\<lambda>c. c \<noteq> CHR '']'') host
        in (case rest of
              [] \<Rightarrow> (host, [])
            | _ # after \<Rightarrow> if take 1 after = '':'' then (head @ '']'', drop 1 after) else (host, []))
      else if length (filter (\<lambda>c. c = CHR '':'') host) = 1 then
        (takeWhile (\<lambda>c. c \<noteq> CHR '':'') host, drop 1 (dropWhile (\<lambda>c. c \<noteq> CHR '':'') host))
      else (host, []))"

definition canonical_host :: "string \<Rightarrow> string" where
  "canonical_host value =
     (let (host, port) = split_port (lower (strip value))
      in if port \<noteq> [] \<and> port \<noteq> ''443'' then rstrip_dots host @ '':'' @ port else rstrip_dots host)"

definition newline :: char where
  "newline = char_of (10 :: nat)"

fun join_lines :: "string list \<Rightarrow> string" where
  "join_lines [] = []"
| "join_lines [s] = s"
| "join_lines (s # t # r) = s @ newline # join_lines (t # r)"

definition reissue_version :: int where
  "reissue_version = 1"

definition reissue_proof_bytes ::
  "string \<Rightarrow> uin \<Rightarrow> nat list \<Rightarrow> nat list \<Rightarrow> nat list \<Rightarrow> int \<Rightarrow> nat list \<Rightarrow> string" where
  "reissue_proof_bytes host u old_sk new_ik new_sk ts nonce =
     join_lines [''rcq-reissue-v1'', canonical_host host, show_int u, canonical_key old_sk, canonical_key new_ik,
       canonical_key new_sk, show_int ts, canonical_nonce nonce]"

definition guest_version :: int where
  "guest_version = 1"

definition one_line :: "string \<Rightarrow> bool" where
  "one_line s \<longleftrightarrow> s \<noteq> [] \<and> newline \<notin> set s \<and> char_of (13 :: nat) \<notin> set s"

definition guest_proof_bytes ::
  "string \<Rightarrow> int \<Rightarrow> nat list \<Rightarrow> nat list \<Rightarrow> string \<Rightarrow> string option" where
  "guest_proof_bytes host group_id ik sk challenge =
     (if group_id \<le> 0 \<or> length ik \<noteq> 32 \<or> length sk \<noteq> 32 then None
      else if \<not> one_line (canonical_host host) \<or> \<not> one_line challenge then None
      else Some (join_lines [''rcq-guest-v1'', canonical_host host, show_int group_id, canonical_key ik,
        canonical_key sk, challenge]))"

text \<open>The names a proof may carry here, and whether the caller's own header had to supply one.\<close>

definition island_hosts :: "string \<Rightarrow> string \<Rightarrow> string list \<Rightarrow> string list \<times> bool" where
  "island_hosts island_host header aliases =
     (let named = canonical_host island_host;
          own = (if named = [] then canonical_host header else named)
      in ((if own = [] then [] else [own]) @ map canonical_host (filter (\<lambda>h. strip h \<noteq> []) aliases), named = []))"

section \<open>Reading back what was written\<close>

definition bytes :: "nat list \<Rightarrow> bool" where
  "bytes raw \<longleftrightarrow> list_all (\<lambda>b. b < 256) raw"

lemma b64_values_bound: "bytes raw \<Longrightarrow> v \<in> set (b64_values raw) \<Longrightarrow> v < 64"
  by (induction raw rule: b64_values.induct) (auto simp: bytes_def)

lemma b64_groups_values: "bytes raw \<Longrightarrow> b64_groups (b64_values raw) = raw"
  by (induction raw rule: b64_values.induct) (auto simp: bytes_def)

lemma b64_value_char: "v < 64 \<Longrightarrow> b64_value (b64_char v) = Some v"
  by (auto simp: b64_value_def b64_char_def Let_def)

lemma b64_char_code:
  "v < 64 \<Longrightarrow> (of_char (b64_char v) :: nat) = (if v < 26 then v + 65 else if v < 52 then v + 71 else if v < 62 then v - 4
     else if v = 62 then 43 else 47)"
  by (simp add: b64_char_def)

lemma b64_char_clean:
  assumes "v < 64"
  shows "b64_char v \<noteq> CHR ''=''" "\<not> py_space (b64_char v)" "b64_char v \<noteq> newline"
proof -
  have "(of_char (b64_char v) :: nat) \<noteq> 61" "(of_char (b64_char v) :: nat) \<noteq> 10"
    using assms by (auto simp: b64_char_code)
  then show "b64_char v \<noteq> CHR ''=''" "b64_char v \<noteq> newline" by (auto simp: newline_def)
  show "\<not> py_space (b64_char v)" using assms by (auto simp: py_space_def Let_def b64_char_code)
qed

lemma strip_id: "(\<And>c. c \<in> set s \<Longrightarrow> \<not> py_space c) \<Longrightarrow> strip s = s"
proof -
  assume "\<And>c. c \<in> set s \<Longrightarrow> \<not> py_space c"
  then have "dropWhile py_space s = s" "dropWhile py_space (rev s) = rev s"
    by (auto simp: dropWhile_eq_self_iff hd_in_set) (metis hd_in_set set_rev rev_is_Nil_conv)
  then show ?thesis by (simp add: strip_def)
qed

lemma length_b64_values: "length (b64_values raw) mod 4 \<noteq> 1"
  by (induction raw rule: b64_values.induct) (auto simp: mod_Suc)

lemma padded_length: "(n + (4 - n mod 4) mod 4) mod 4 = (0 :: nat)"
proof -
  have "n mod 4 < 4" by simp
  then have "n mod 4 = 0 \<or> n mod 4 = 1 \<or> n mod 4 = 2 \<or> n mod 4 = 3" by linarith
  then show ?thesis by (subst mod_add_left_eq [symmetric]) auto
qed

lemma b64decode_padded:
  assumes "bytes raw"
  shows "b64decode (map b64_char (b64_values raw) @ padding (length (b64_values raw))) = Some raw"
proof -
  let ?d = "map b64_char (b64_values raw)" and ?p = "padding (length (b64_values raw))"
  have v: "v < 64" if "v \<in> set (b64_values raw)" for v using b64_values_bound [OF assms that] .
  have tw: "takeWhile (\<lambda>c. c \<noteq> CHR ''='') (?d @ ?p) = ?d"
    using v by (subst takeWhile_append2) (auto simp: b64_char_clean padding_def takeWhile_replicate)
  have dw: "dropWhile (\<lambda>c. c \<noteq> CHR ''='') (?d @ ?p) = ?p"
    using v by (subst dropWhile_append2) (auto simp: b64_char_clean padding_def)
  have vals: "map b64_value ?d = map Some (b64_values raw)" using v by (simp add: b64_value_char)
  have "length (b64_values raw) mod 4 \<in> {0, 2, 3}"
    using length_b64_values [of raw] by auto
  then show ?thesis
    unfolding b64decode_def Let_def tw dw vals
    by (auto simp: padding_def list_ex_iff b64_groups_values [OF assms] comp_def)
qed

lemma strip_b64: "bytes raw \<Longrightarrow> set s \<subseteq> b64_char ` set (b64_values raw) \<union> {CHR ''=''} \<Longrightarrow> strip s = s"
proof (rule strip_id)
  fix c assume "bytes raw" "set s \<subseteq> b64_char ` set (b64_values raw) \<union> {CHR ''=''}" "c \<in> set s"
  then consider "c = CHR ''=''" | v where "v < 64" "c = b64_char v" using b64_values_bound by blast
  then show "\<not> py_space c" by cases (simp add: py_space_def, simp add: b64_char_clean)
qed

text \<open>Canonical base64 of any bytes, with its padding and without.\<close>

lemma bare_b64encode:
  assumes "bytes raw"
  shows "takeWhile (\<lambda>c. c \<noteq> CHR ''='') (b64encode raw) = map b64_char (b64_values raw)"
proof -
  have "\<forall>c \<in> set (map b64_char (b64_values raw)). c \<noteq> CHR ''=''"
    using b64_values_bound [OF assms] b64_char_clean(1) by auto
  then show ?thesis
    unfolding b64encode_def by (subst takeWhile_append2) (auto simp: padding_def takeWhile_replicate)
qed

lemma strip_b64encode: "bytes raw \<Longrightarrow> strip (b64encode raw) = b64encode raw"
  by (rule strip_b64) (auto simp: b64encode_def padding_def)

lemma b64_any_canonical:
  assumes "bytes raw"
  shows "b64_any (b64encode raw) = Some raw" "b64_any (map b64_char (b64_values raw)) = Some raw"
proof -
  let ?d = "map b64_char (b64_values raw)"
  have "length (b64encode raw) mod 4 = 0" unfolding b64encode_def padding_def by (simp add: padded_length)
  then have full: "padding (length (b64encode raw)) = []" by (simp add: padding_def)
  have s: "strip ?d = ?d" by (rule strip_b64 [OF assms]) auto
  have dec: "b64decode (b64encode raw) = Some raw" "b64decode (?d @ padding (length ?d)) = Some raw"
    using b64decode_padded [OF assms] by (simp_all add: b64encode_def)
  show "b64_any (b64encode raw) = Some raw"
    unfolding b64_any_def strip_b64encode [OF assms] full append_Nil2 by (rule dec(1))
  show "b64_any ?d = Some raw" unfolding b64_any_def s by (rule dec(2))
qed

lemma decode_canonical:
  assumes "bytes raw"
  shows "decode_bytes n (b64encode raw) = (if length raw = n then Some raw else None)"
  by (simp add: decode_bytes_def b64_any_canonical [OF assms])

text \<open>
  C13. Either spelling of a key reads back as its bytes: standard base64 with its padding, which is the
  canonical one, and without.
\<close>

theorem key_round_trip:
  assumes "bytes raw" and "length raw = 32"
  shows "decode_key32 (canonical_key raw) = Some raw \<and>
    decode_key32 (takeWhile (\<lambda>c. c \<noteq> CHR ''='') (canonical_key raw)) = Some raw"
  unfolding canonical_key_def bare_b64encode [OF assms(1)] decode_key32_def decode_bytes_def
  by (simp add: b64_any_canonical [OF assms(1)] assms(2) del: list.map_comp map_map)

section \<open>What a signature binds\<close>

lemma first_line: "x @ c # a = y @ c # b \<Longrightarrow> c \<notin> set x \<Longrightarrow> c \<notin> set y \<Longrightarrow> x = y \<and> a = b"
  by (induction x arbitrary: y) (case_tac y; auto)+

lemma last_line:
  assumes "a @ newline # x = b @ newline # y" "newline \<notin> set x" "newline \<notin> set y"
  shows "a = b \<and> x = y"
proof -
  have "rev x @ newline # rev a = rev y @ newline # rev b" using arg_cong [OF assms(1), of rev] by simp
  moreover have "newline \<notin> set (rev x)" "newline \<notin> set (rev y)" using assms by auto
  ultimately have "rev x = rev y \<and> rev a = rev b" by (rule first_line)
  then show ?thesis by simp
qed

lemma join_snoc: "ls \<noteq> [] \<Longrightarrow> join_lines (ls @ [s]) = join_lines ls @ newline # s"
  by (induction ls rule: join_lines.induct) simp_all

lemma show_int_line: "newline \<notin> set (show_int i)"
  using show_int_chars [of newline i] by (auto simp: int_char_def newline_def is_digit_def)

lemma key_line: "bytes raw \<Longrightarrow> newline \<notin> set (canonical_key raw)"
proof
  assume b: "bytes raw" and "newline \<in> set (canonical_key raw)"
  then have "newline = CHR ''='' \<or> (\<exists>v \<in> set (b64_values raw). newline = b64_char v)"
    by (auto simp: canonical_key_def b64encode_def padding_def)
  moreover have "newline \<noteq> CHR ''=''" by code_simp
  ultimately show False using b64_values_bound [OF b] b64_char_clean(3) by metis
qed

lemma char_neq: "(of_char c :: nat) \<noteq> of_char d \<Longrightarrow> c \<noteq> d"
  by auto

lemma url_value_char:
  assumes "v < 64"
  shows "url_value (b64_url_char v) = Some v"
proof -
  have code: "(of_char (b64_char v) :: nat) \<noteq> 45" "(of_char (b64_char v) :: nat) \<noteq> 95"
    "v < 62 \<Longrightarrow> (of_char (b64_char v) :: nat) \<noteq> 43" "v < 62 \<Longrightarrow> (of_char (b64_char v) :: nat) \<noteq> 47"
    unfolding b64_char_code [OF assms] by auto
  have "b64_char v \<noteq> CHR ''-''" "b64_char v \<noteq> CHR ''_''" by (rule char_neq, use code in simp)+
  moreover have "b64_char v \<noteq> CHR ''+''" "b64_char v \<noteq> CHR ''/''" if "v < 62"
    by (rule char_neq, use code that in simp)+
  ultimately show ?thesis using assms b64_value_char [OF assms] by (simp add: url_value_def b64_url_char_def)
qed

lemma nonce_line: "bytes raw \<Longrightarrow> newline \<notin> set (canonical_nonce raw)"
proof
  assume b: "bytes raw" and "newline \<in> set (canonical_nonce raw)"
  then obtain v where "v < 64" "newline = b64_url_char v" using b64_values_bound by (auto simp: canonical_nonce_def)
  moreover have "url_value newline = None" by code_simp
  ultimately show False using url_value_char [of v] by simp
qed

lemma canonical_key_inject:
  assumes "bytes a" "bytes b" "canonical_key a = canonical_key b"
  shows "a = b"
  using arg_cong [OF assms(3), of b64decode]
  by (simp only: canonical_key_def b64encode_def b64decode_padded [OF assms(1)] b64decode_padded [OF assms(2)] option.inject)

lemma canonical_nonce_inject:
  assumes "bytes a" "bytes b" "canonical_nonce a = canonical_nonce b"
  shows "a = b"
proof -
  have reads: "map url_value (canonical_nonce x) = map Some (b64_values x)" if "bytes x" for x
    using b64_values_bound [OF that] by (simp add: url_value_char canonical_nonce_def)
  have "map Some (b64_values a) = map Some (b64_values b)"
    using arg_cong [OF assms(3), of "map url_value"] by (simp only: reads [OF assms(1)] reads [OF assms(2)])
  then have "b64_values a = b64_values b" by (simp add: inj_map_eq_map)
  then show ?thesis using b64_groups_values assms(1,2) by metis
qed

lemma reissue_binds:
  assumes "bytes o1" "bytes i1" "bytes s1" "bytes n1" "bytes o2" "bytes i2" "bytes s2" "bytes n2"
    and eq: "reissue_proof_bytes h1 u1 o1 i1 s1 t1 n1 = reissue_proof_bytes h2 u2 o2 i2 s2 t2 n2"
  shows "canonical_host h1 = canonical_host h2 \<and> u1 = u2 \<and> o1 = o2 \<and> i1 = i2 \<and> s1 = s2 \<and> t1 = t2 \<and> n1 = n2"
proof -
  note lines = show_int_line key_line nonce_line
  have bytes: "reissue_proof_bytes h u k i s t n =
      ((((((''rcq-reissue-v1'' @ newline # canonical_host h) @ newline # show_int u) @ newline # canonical_key k)
        @ newline # canonical_key i) @ newline # canonical_key s) @ newline # show_int t) @ newline # canonical_nonce n"
    for h u k i s t n by (simp add: reissue_proof_bytes_def)
  note e6 = eq [unfolded bytes]
  from last_line [OF e6 nonce_line nonce_line] assms have n: "canonical_nonce n1 = canonical_nonce n2"
    and e5: "(((((''rcq-reissue-v1'' @ newline # canonical_host h1) @ newline # show_int u1) @ newline # canonical_key o1)
        @ newline # canonical_key i1) @ newline # canonical_key s1) @ newline # show_int t1 =
      (((((''rcq-reissue-v1'' @ newline # canonical_host h2) @ newline # show_int u2) @ newline # canonical_key o2)
        @ newline # canonical_key i2) @ newline # canonical_key s2) @ newline # show_int t2" by blast+
  note p5 = last_line [OF e5 show_int_line show_int_line]
  note p4 = last_line [OF p5 [THEN conjunct1] key_line key_line, OF assms(3,7)]
  note p3 = last_line [OF p4 [THEN conjunct1] key_line key_line, OF assms(2,6)]
  note p2 = last_line [OF p3 [THEN conjunct1] key_line key_line, OF assms(1,5)]
  note p1 = last_line [OF p2 [THEN conjunct1] show_int_line show_int_line]
  have "canonical_host h1 = canonical_host h2" using p1 by simp
  moreover have "u1 = u2" "t1 = t2" using p1 p5 by (simp_all add: show_int_inject)
  moreover have "o1 = o2" "i1 = i2" "s1 = s2" "n1 = n2"
    by (rule canonical_key_inject [OF _ _ conjunct2 [OF p2]] canonical_key_inject [OF _ _ conjunct2 [OF p3]]
        canonical_key_inject [OF _ _ conjunct2 [OF p4]] canonical_nonce_inject [OF _ _ n]; fact)+
  ultimately show ?thesis by blast
qed

lemma guest_binds:
  assumes "bytes i1" "bytes s1" "bytes i2" "bytes s2"
    and m: "guest_proof_bytes h1 g1 i1 s1 c1 = Some m" "guest_proof_bytes h2 g2 i2 s2 c2 = Some m"
  shows "canonical_host h1 = canonical_host h2 \<and> g1 = g2 \<and> i1 = i2 \<and> s1 = s2 \<and> c1 = c2"
proof -
  have bytes: "m = (((((''rcq-guest-v1'' @ newline # canonical_host h) @ newline # show_int g) @ newline # canonical_key i)
      @ newline # canonical_key s)) @ newline # c \<and> newline \<notin> set c"
    if "guest_proof_bytes h g i s c = Some m" for h g i s c
    using that by (auto simp: guest_proof_bytes_def one_line_def split: if_splits)
  note b1 = bytes [OF m(1)] and b2 = bytes [OF m(2)]
  note p4 = last_line [OF trans [OF conjunct1 [OF b1, symmetric] conjunct1 [OF b2]] conjunct2 [OF b1] conjunct2 [OF b2]]
  note p3 = last_line [OF p4 [THEN conjunct1] key_line key_line, OF assms(2,4)]
  note p2 = last_line [OF p3 [THEN conjunct1] key_line key_line, OF assms(1,3)]
  note p1 = last_line [OF p2 [THEN conjunct1] show_int_line show_int_line]
  have "canonical_host h1 = canonical_host h2" using p1 by simp
  moreover have "g1 = g2" using p1 by (simp add: show_int_inject)
  moreover have "i1 = i2" "s1 = s2"
    by (rule canonical_key_inject [OF _ _ conjunct2 [OF p2]] canonical_key_inject [OF _ _ conjunct2 [OF p3]]; fact)+
  ultimately show ?thesis using p4 by blast
qed

lemma proofs_differ: "guest_proof_bytes h g i s c \<noteq> Some (reissue_proof_bytes h' u k i' s' t n)"
  by (auto simp: guest_proof_bytes_def reissue_proof_bytes_def split: if_splits)

text \<open>
  C12. A signature binds everything it was made for. Two rotation proofs with the same bytes name the
  same island, number, old key, new keys, time and nonce; two guest proofs with the same bytes name
  the same island, room, keys and challenge; and no rotation proof is a guest proof.
\<close>

theorem proofs_bind:
  assumes "list_all bytes [o1, i1, s1, n1, o2, i2, s2, n2]"
  shows "(reissue_proof_bytes h1 u1 o1 i1 s1 t1 n1 = reissue_proof_bytes h2 u2 o2 i2 s2 t2 n2 \<longrightarrow>
      canonical_host h1 = canonical_host h2 \<and> u1 = u2 \<and> o1 = o2 \<and> i1 = i2 \<and> s1 = s2 \<and> t1 = t2 \<and> n1 = n2) \<and>
    (guest_proof_bytes h1 g1 i1 s1 c1 = Some m \<and> guest_proof_bytes h2 g2 i2 s2 c2 = Some m \<longrightarrow>
      canonical_host h1 = canonical_host h2 \<and> g1 = g2 \<and> i1 = i2 \<and> s1 = s2 \<and> c1 = c2) \<and>
    guest_proof_bytes h1 g1 i1 s1 c1 \<noteq> Some (reissue_proof_bytes h2 u2 o2 i2 s2 t2 n2)"
proof -
  have b: "bytes o1" "bytes i1" "bytes s1" "bytes n1" "bytes o2" "bytes i2" "bytes s2" "bytes n2" using assms by simp_all
  show ?thesis
    by (rule conjI [OF impI conjI [OF impI proofs_differ]], erule reissue_binds [OF b],
        erule conjE, rule guest_binds [OF b(2,3,6,7)])
qed

definition blank_key :: "nat list" where
  "blank_key = replicate 32 0"

theorem proofs_bind_witness:
  "reissue_proof_bytes ''isle'' 7 blank_key blank_key blank_key 1 [1] \<noteq>
   reissue_proof_bytes ''isle'' 8 blank_key blank_key blank_key 1 [1]"
proof -
  have "list_all bytes [blank_key, blank_key, blank_key, [1], blank_key, blank_key, blank_key, [1]]"
    by (simp add: bytes_def blank_key_def list_all_iff)
  from proofs_bind [OF this, of "''isle''" 7 1 "''isle''" 8 1] show ?thesis by auto
qed

theorem key_round_trip_witness: "decode_key32 (canonical_key (replicate 32 255)) = Some (replicate 32 255)"
proof -
  have "bytes (replicate 32 255)" "length (replicate 32 (255 :: nat)) = 32" by (simp_all add: bytes_def list_all_iff)
  from key_round_trip [OF this] show ?thesis by blast
qed

end
