(* ===== verification/Key_Rows.thy ===== *)
theory Key_Rows
  imports Uin_Numbers Proof_Bytes
begin

text \<open>
  Which account a signing key leads to, \<open>app/services/key_owner.py\<close> and the lookups of
  \<open>app/services/guest_accounts.py\<close>, the marks an account wears, from \<open>app/models/user.py\<close>, and the
  shape a key must have, from \<open>app/routers/auth.py\<close>.
\<close>

section \<open>First claim\<close>

definition claim_time :: "account \<Rightarrow> datetime" where
  "claim_time a = (case ac_identity_created_at a of None \<Rightarrow> ac_created_at a | Some t \<Rightarrow> t)"

definition claims_before :: "account \<Rightarrow> account \<Rightarrow> bool" where
  "claims_before a b \<longleftrightarrow> claim_time a < claim_time b \<or> (claim_time a = claim_time b \<and> ac_uin a \<le> ac_uin b)"

fun first_claim :: "account list \<Rightarrow> account option" where
  "first_claim [] = None"
| "first_claim (a # as) =
     (case first_claim as of None \<Rightarrow> Some a | Some b \<Rightarrow> if claims_before a b then Some a else Some b)"

definition uin_for_signing_key :: "registry \<Rightarrow> string \<Rightarrow> uin option" where
  "uin_for_signing_key R sk = map_option ac_uin (first_claim (filter (\<lambda>a. ac_signing_key a = sk) (accounts R)))"

text \<open>Padded and unpadded base64 of a key.\<close>

definition key_spellings :: "nat list \<Rightarrow> string list" where
  "key_spellings raw = [canonical_key raw, rev (dropWhile (\<lambda>c. c = CHR ''='') (rev (canonical_key raw)))]"

definition row_for_key :: "registry \<Rightarrow> nat list \<Rightarrow> bool \<Rightarrow> account option" where
  "row_for_key R sk_raw guests_only =
     first_claim (filter (\<lambda>a. ac_signing_key a \<in> set (key_spellings sk_raw) \<and>
       (guests_only \<longrightarrow> ac_guest_status a \<noteq> None)) (accounts R))"

definition key_bytes_or_none :: "string \<Rightarrow> nat list option" where
  "key_bytes_or_none value = decode_key32 value"

definition signing_key_taken_by :: "registry \<Rightarrow> nat list \<Rightarrow> uin \<Rightarrow> uin list" where
  "signing_key_taken_by R raw u =
     map ac_uin (filter (\<lambda>a. ac_signing_key a \<in> set (key_spellings raw) \<and> ac_uin a \<noteq> u) (accounts R))"

definition pubkey32 :: "string \<Rightarrow> string \<Rightarrow> string outcome" where
  "pubkey32 value field =
     (case b64_any value of
        None \<Rightarrow> Inl (HttpError 422 (field @ '' is not base64'') None)
      | Some d \<Rightarrow>
          if length d = 32 then Inr (strip value)
          else Inl (HttpError 422 (field @ '' must be 32 bytes, got '' @ show_int (int (length d))) None))"

section \<open>Marks\<close>

fun split_commas :: "string \<Rightarrow> string list" where
  "split_commas [] = [[]]"
| "split_commas (c # cs) =
     (if c = CHR '','' then [] # split_commas cs
      else (case split_commas cs of [] \<Rightarrow> [[c]] | w # ws \<Rightarrow> (c # w) # ws))"

fun join_commas :: "string list \<Rightarrow> string" where
  "join_commas [] = []"
| "join_commas [w] = w"
| "join_commas (w # v # ws) = w @ CHR '','' # join_commas (v # ws)"

definition worn :: "account \<Rightarrow> string list" where
  "worn a = (case ac_badge a of None \<Rightarrow> [] | Some k \<Rightarrow> if k = [] then [] else [k])"

definition earned_badges :: "account \<Rightarrow> string list" where
  "earned_badges a =
     (let raw = strip (case ac_badges_earned a of None \<Rightarrow> [] | Some s \<Rightarrow> s)
      in if raw = [] then worn a
         else let out = filter (\<lambda>k. k \<noteq> []) (map strip (split_commas raw))
              in out @ filter (\<lambda>k. k \<notin> set out) (worn a))"

definition grant_badge :: "string \<Rightarrow> account \<Rightarrow> account" where
  "grant_badge kind a =
     (let held = earned_badges a; held' = (if kind \<in> set held then held else held @ [kind])
      in a\<lparr>ac_badges_earned := Some (join_commas held'), ac_badge := (if worn a = [] then Some kind else ac_badge a)\<rparr>)"

definition revoke_badge :: "string \<Rightarrow> account \<Rightarrow> account" where
  "revoke_badge kind a =
     (let held = filter (\<lambda>k. k \<noteq> kind) (earned_badges a)
      in a\<lparr>ac_badges_earned := Some (join_commas held),
            ac_badge := (if ac_badge a = Some kind then (case held of [] \<Rightarrow> None | k # _ \<Rightarrow> Some k) else ac_badge a)\<rparr>)"

definition badge_for_viewer :: "account \<Rightarrow> uin option \<Rightarrow> string option" where
  "badge_for_viewer a viewer = (if ac_badge_hidden a \<and> viewer \<noteq> Some (ac_uin a) then None else ac_badge a)"

definition clear_guest_columns :: "account \<Rightarrow> account" where
  "clear_guest_columns a = a\<lparr>ac_guest_status := None, ac_guest_since := None\<rparr>"

section \<open>The first of several claims\<close>

lemma first_claim_None: "first_claim as = None \<longleftrightarrow> as = []"
  by (cases as) (auto split: option.splits)

lemma first_claim_mem: "first_claim as = Some a \<Longrightarrow> a \<in> set as"
  by (induction as arbitrary: a) (auto split: option.splits if_splits)

lemma claims_before_trans: "claims_before a b \<Longrightarrow> claims_before b c \<Longrightarrow> claims_before a c"
  by (auto simp: claims_before_def)

lemma claims_before_total: "claims_before a b \<or> claims_before b a"
  by (auto simp: claims_before_def)

lemma first_claim_least: "first_claim as = Some a \<Longrightarrow> b \<in> set as \<Longrightarrow> claims_before a b"
proof (induction as arbitrary: a b)
  case (Cons x xs)
  show ?case
  proof (cases "first_claim xs")
    case None
    with Cons.prems show ?thesis by (auto simp: first_claim_None claims_before_def)
  next
    case (Some y)
    have y: "claims_before y z" if "z \<in> set xs" for z using Cons.IH [OF Some that] .
    have "claims_before x y \<and> a = x \<or> \<not> claims_before x y \<and> a = y"
      using Cons.prems(1) Some by (auto split: if_splits)
    then show ?thesis using Cons.prems(2) y claims_before_trans claims_before_total by (auto simp: claims_before_def)
  qed
qed simp

text \<open>A row that claims strictly before every other row of its key is where the key leads.\<close>

lemma first_claim_strict:
  assumes "a \<in> set as" "\<And>b. b \<in> set as \<Longrightarrow> ac_uin b \<noteq> ac_uin a \<Longrightarrow> claim_time a < claim_time b"
  shows "\<exists>c. first_claim as = Some c \<and> ac_uin c = ac_uin a"
proof -
  obtain c where c: "first_claim as = Some c" using assms(1) first_claim_None [of as] by fastforce
  have "claims_before c a" by (rule first_claim_least [OF c assms(1)])
  then have "\<not> claim_time a < claim_time c" by (auto simp: claims_before_def)
  then have "ac_uin c = ac_uin a" using assms(2) [OF first_claim_mem [OF c]] by blast
  with c show ?thesis by blast
qed

end
