(* ===== verification/Uin_Shop.thy ===== *)
theory Uin_Shop
  imports Key_Rows
begin

text \<open>
  The doors a number goes through: the shop of \<open>app/routers/uin_shop.py\<close> (claim, redeem, resale,
  collection, listings, holds), the move of an account between numbers in
  \<open>app/routers/migrate.py\<close> with the two tables of \<open>app/services/uin_rows.py\<close> that concern it, the
  operator's doors of \<open>app/routers/admin.py\<close>, the choice of number at registration in
  \<open>app/routers/auth.py\<close> and the deletion of an account. A handler is one transaction: what raises
  before its commit leaves the tables as they were.
\<close>

record shop_env =
  sh_till :: till
  shop_enabled :: bool
  resale_enabled :: bool
  island_host :: string

record purchase_out =
  po_new_uin :: "uin option"
  po_switched :: bool
  po_owned :: "uin list"

definition refused :: "nat \<Rightarrow> string \<Rightarrow> http_error" where
  "refused st code = HttpError st code None"

definition internal_error :: http_error where
  "internal_error = HttpError 500 ''internal_error'' None"

definition shop_closed :: http_error where
  "shop_closed = HttpError 404 ''uin shop is disabled'' None"

definition min_len :: nat where
  "min_len = 3"

definition max_len :: nat where
  "max_len = 9"

definition max_owned_uins :: nat where
  "max_owned_uins = 10"

definition min_sale_len :: nat where
  "min_sale_len = 4"

definition hold_minutes :: int where
  "hold_minutes = 120"

definition clock_seconds :: "datetime \<Rightarrow> int" where
  "clock_seconds now = now div 1000000"

section \<open>Moving between numbers\<close>

definition rekey_deeds :: "uin \<Rightarrow> uin \<Rightarrow> deed list \<Rightarrow> deed list" where
  "rekey_deeds old new ds = map (\<lambda>d. if od_owner_uin d = old then d\<lparr>od_owner_uin := new\<rparr> else d) ds"

definition rekey_listings :: "uin \<Rightarrow> uin \<Rightarrow> uin_listing list \<Rightarrow> uin_listing list" where
  "rekey_listings old new ls = map (\<lambda>l. if ul_seller_uin l = old then l\<lparr>ul_seller_uin := new\<rparr> else l) ls"

definition rekey_uin_rows :: "uin \<Rightarrow> uin \<Rightarrow> registry \<Rightarrow> registry" where
  "rekey_uin_rows old new R =
     R\<lparr>owned_uins := rekey_deeds old new (owned_uins R), uin_listings := rekey_listings old new (uin_listings R)\<rparr>"

definition bump_uin_epoch :: "uin \<Rightarrow> registry \<Rightarrow> registry" where
  "bump_uin_epoch u R =
     R\<lparr>uin_epochs := (uin_epochs R)(u \<mapsto> (case uin_epochs R u of None \<Rightarrow> 1 | Some e \<Rightarrow> e + 1))\<rparr>"

text \<open>What becomes of the number left behind: an existing deed stays, a scarce number gets one.\<close>

definition vacate_number :: "uin \<Rightarrow> uin \<Rightarrow> registry \<Rightarrow> registry" where
  "vacate_number old target R =
     (case find_deed R old of
        Some d \<Rightarrow> R
      | None \<Rightarrow>
          if is_reserved_uin old
          then R\<lparr>owned_uins := owned_uins R @ [\<lparr>od_uin = old, od_owner_uin = target, od_source = ''migrated''\<rparr>]\<rparr>
          else R)"

definition delete_account_row :: "uin \<Rightarrow> registry \<Rightarrow> registry" where
  "delete_account_row u R = R\<lparr>accounts := filter (\<lambda>a. ac_uin a \<noteq> u) (accounts R)\<rparr>"

text \<open>
  The row at the new number: what the copy names follows the person, every other column starts
  from its default. The claim on the signing key follows too.
\<close>

definition moved_row :: "datetime \<Rightarrow> uin \<Rightarrow> account \<Rightarrow> account" where
  "moved_row now target a =
     (new_account now target (ac_nickname a) (ac_identity_key a) (ac_signing_key a))
       \<lparr>ac_suspended := ac_suspended a, ac_badge := ac_badge a, ac_badges_earned := ac_badges_earned a,
        ac_resident_since := ac_resident_since a, ac_entered_via := ac_entered_via a,
        ac_guest_status := ac_guest_status a, ac_guest_since := ac_guest_since a,
        ac_key_unproven_since := ac_key_unproven_since a, ac_invites_minted := ac_invites_minted a,
        ac_identity_created_at := Some (claim_time a)\<rparr>"

definition perform_migration :: "datetime \<Rightarrow> uin \<Rightarrow> uin \<Rightarrow> registry \<Rightarrow> uin outcome \<times> registry" where
  "perform_migration now old target R =
     (case find_account R old of
        None \<Rightarrow> (Inl (HttpError 404 ''user not found'' None), R)
      | Some a \<Rightarrow>
          if find_account R target \<noteq> None then (Inl (refused 409 ''taken''), R)
          else
            let R1 = R\<lparr>accounts := accounts R @ [moved_row now target a]\<rparr>;
                R2 = rekey_uin_rows old target R1;
                R3 = vacate_number old target R2
            in (Inr target, delete_account_row old (bump_uin_epoch old R3)))"

definition account_migrate :: "datetime \<Rightarrow> int list \<Rightarrow> uin \<Rightarrow> registry \<Rightarrow> uin outcome \<times> registry" where
  "account_migrate now draws me R =
     (case find_account R me of
        None \<Rightarrow> (Inl (HttpError 404 ''user not found'' None), R)
      | Some a \<Rightarrow>
          if ac_suspended a then (Inl (refused 403 ''suspended''), R)
          else (case allocate_uin now draws R of
                  Inl e \<Rightarrow> (Inl e, R)
                | Inr u \<Rightarrow> perform_migration now me u R))"

section \<open>The collection\<close>

definition owned_by :: "uin \<Rightarrow> registry \<Rightarrow> deed list" where
  "owned_by owner R = filter (\<lambda>d. od_owner_uin d = owner \<and> od_uin d \<noteq> owner) (owned_uins R)"

definition owned_list :: "uin \<Rightarrow> registry \<Rightarrow> uin list" where
  "owned_list owner R = sort (map od_uin (owned_by owner R))"

definition take_number :: "datetime \<Rightarrow> uin \<Rightarrow> uin \<Rightarrow> bool \<Rightarrow> string \<Rightarrow> registry \<Rightarrow> purchase_out outcome \<times> registry" where
  "take_number now owner target switch source R =
     (if \<not> switch then
        if max_owned_uins \<le> length (owned_by owner R) then (Inl (refused 409 ''collection_full''), R)
        else if find_deed R target \<noteq> None then (Inl internal_error, R)
        else
          let R1 = R\<lparr>owned_uins := owned_uins R @ [\<lparr>od_uin = target, od_owner_uin = owner, od_source = source\<rparr>]\<rparr>
          in (Inr \<lparr>po_new_uin = Some owner, po_switched = False, po_owned = owned_list owner R1\<rparr>, R1)
      else
        (case perform_migration now owner target R of
           (Inl e, R1) \<Rightarrow> (Inl e, R)
         | (Inr u, R1) \<Rightarrow> (Inr \<lparr>po_new_uin = Some u, po_switched = True, po_owned = owned_list u R1\<rparr>, R1)))"

definition claim :: "shop_env \<Rightarrow> datetime \<Rightarrow> uin \<Rightarrow> uin \<Rightarrow> bool \<Rightarrow> registry \<Rightarrow> purchase_out outcome \<times> registry" where
  "claim env now me target switch R =
     (if \<not> shop_enabled env then (Inl shop_closed, R)
      else if uin_length target < min_len \<or> max_len < uin_length target then (Inl (refused 400 ''invalid_length''), R)
      else if target = me then (Inl (refused 400 ''self_target''), R)
      else if is_reserved_uin target then (Inl (refused 403 ''reserved''), R)
      else if uin_is_taken now target None False R then (Inl (refused 409 ''taken''), R)
      else (case find_account R me of
              None \<Rightarrow> (Inl (HttpError 404 ''user not found'' None), R)
            | Some a \<Rightarrow>
                if ac_suspended a then (Inl (refused 403 ''suspended''), R)
                else if \<not> switch \<and> max_owned_uins \<le> length (owned_list me R)
                then (Inl (refused 409 ''too_many_uins''), R)
                else take_number now me target switch ''claimed'' R))"

definition release_number :: "uin \<Rightarrow> uin \<Rightarrow> registry \<Rightarrow> unit outcome \<times> registry" where
  "release_number me u R =
     (if find_listing R u \<noteq> None then (Inl (refused 409 ''listed''), R)
      else if u = me then (Inl (refused 400 ''uin_in_use''), R)
      else (case find_deed R u of
              None \<Rightarrow> (Inl (refused 404 ''not_owned''), R)
            | Some d \<Rightarrow>
                if od_owner_uin d \<noteq> me then (Inl (refused 404 ''not_owned''), R)
                else (Inr (), R\<lparr>owned_uins := filter (\<lambda>d. od_uin d \<noteq> u) (owned_uins R)\<rparr>)))"

definition activate :: "datetime \<Rightarrow> uin \<Rightarrow> uin \<Rightarrow> registry \<Rightarrow> purchase_out outcome \<times> registry" where
  "activate now me target R =
     (if find_listing R target \<noteq> None then (Inl (refused 409 ''listed''), R)
      else (case find_deed R target of
              None \<Rightarrow> (Inl (refused 404 ''not_owned''), R)
            | Some d \<Rightarrow>
                if od_owner_uin d \<noteq> me then (Inl (refused 404 ''not_owned''), R)
                else (case find_account R me of
                        None \<Rightarrow> (Inl (HttpError 404 ''user not found'' None), R)
                      | Some a \<Rightarrow>
                          if ac_suspended a then (Inl (refused 403 ''suspended''), R)
                          else take_number now me target True ''activate'' R)))"

section \<open>Listings\<close>

definition listing_held :: "datetime \<Rightarrow> uin \<Rightarrow> registry \<Rightarrow> bool" where
  "listing_held now u R = (case find_hold R u of None \<Rightarrow> False | Some h \<Rightarrow> now < uh_expires_at h)"

definition payout_ok :: "(string \<times> string) list \<Rightarrow> bool" where
  "payout_ok p \<longleftrightarrow> p \<noteq> [] \<and> list_all (\<lambda>kv. strip (snd kv) \<noteq> []) p"

definition strip_payout :: "(string \<times> string) list \<Rightarrow> (string \<times> string) list" where
  "strip_payout p = map (\<lambda>kv. (fst kv, strip (snd kv))) p"

definition create_listing ::
  "shop_env \<Rightarrow> datetime \<Rightarrow> uin \<Rightarrow> uin \<Rightarrow> int \<Rightarrow> (string \<times> string) list \<Rightarrow> string \<Rightarrow> registry
     \<Rightarrow> unit outcome \<times> registry" where
  "create_listing env now me target price payout fresh_id R =
     (if \<not> shop_enabled env then (Inl shop_closed, R)
      else if \<not> resale_enabled env then (Inl (HttpError 404 ''resale is not open yet'' None), R)
      else if target = me then (Inl (refused 400 ''in_use''), R)
      else if \<not> payout_ok payout then (Inl (refused 400 ''no_payout''), R)
      else if uin_length target < min_sale_len then (Inl (refused 400 ''not_for_sale''), R)
      else (case find_deed R target of
              None \<Rightarrow> (Inl (refused 404 ''not_owned''), R)
            | Some d \<Rightarrow>
                if od_owner_uin d \<noteq> me then (Inl (refused 404 ''not_owned''), R)
                else (case find_listing R target of
                   Some l \<Rightarrow>
                     if listing_held now target R then (Inl (refused 409 ''being_paid''), R)
                     else
                       let changed = ul_price_cents l \<noteq> price \<or> ul_payout l \<noteq> strip_payout payout;
                           l' = l\<lparr>ul_price_cents := price, ul_payout := strip_payout payout,
                                   ul_listing_id := (if changed then fresh_id else ul_listing_id l)\<rparr>
                       in (Inr (), R\<lparr>uin_listings := map (\<lambda>x. if ul_uin x = target then l' else x) (uin_listings R)\<rparr>)
                 | None \<Rightarrow>
                     (Inr (), R\<lparr>uin_listings := uin_listings R @
                        [\<lparr>ul_uin = target, ul_seller_uin = me, ul_listing_id = fresh_id, ul_price_cents = price,
                          ul_payout = strip_payout payout\<rparr>]\<rparr>))))"

definition drop_listing :: "uin \<Rightarrow> registry \<Rightarrow> registry" where
  "drop_listing u R = R\<lparr>uin_listings := filter (\<lambda>l. ul_uin l \<noteq> u) (uin_listings R)\<rparr>"

definition delete_listing :: "datetime \<Rightarrow> uin \<Rightarrow> uin \<Rightarrow> registry \<Rightarrow> unit outcome \<times> registry" where
  "delete_listing now me u R =
     (case find_listing R u of
        None \<Rightarrow> (Inl (refused 404 ''not_listed''), R)
      | Some l \<Rightarrow>
          if ul_seller_uin l \<noteq> me then (Inl (refused 404 ''not_listed''), R)
          else if listing_held now u R then (Inl (refused 409 ''being_paid''), R)
          else (Inr (), drop_listing u R))"

section \<open>Redeeming a voucher\<close>

definition voucher_refusal :: "voucher_error \<Rightarrow> http_error" where
  "voucher_refusal e =
     (case e of
        VoucherError code \<Rightarrow> refused (if code = ''sales_disabled'' then 404 else 403) code
      | OverflowError \<Rightarrow> internal_error)"

definition drop_hold :: "uin \<Rightarrow> registry \<Rightarrow> registry" where
  "drop_hold u R = R\<lparr>uin_holds := filter (\<lambda>h. uh_uin h \<noteq> u) (uin_holds R)\<rparr>"

text \<open>The primary key of the spent nonces refuses the second insert.\<close>

definition spend_nonce :: "string \<Rightarrow> registry \<Rightarrow> registry option" where
  "spend_nonce nonce R =
     (if nonce \<in> set (spent_vouchers R) then None else Some (R\<lparr>spent_vouchers := spent_vouchers R @ [nonce]\<rparr>))"

definition redeem_resale ::
  "shop_env \<Rightarrow> datetime \<Rightarrow> uin \<Rightarrow> uin_listing \<Rightarrow> string \<Rightarrow> bool \<Rightarrow> registry \<Rightarrow> purchase_out outcome \<times> registry" where
  "redeem_resale env now me l voucher switch R =
     (let target = ul_uin l
      in if ul_seller_uin l = me then (Inl (refused 400 ''own_listing''), R)
         else if \<not> switch \<and> max_owned_uins \<le> length (owned_list me R)
         then (Inl (refused 409 ''too_many_uins''), R)
         else (case verify_resale (sh_till env) voucher target (clock_seconds now) of
            Inl e \<Rightarrow> (Inl (voucher_refusal e), R)
          | Inr (nonce, listing_id, price_cents) \<Rightarrow>
              if listing_id \<noteq> ul_listing_id l then (Inl (refused 409 ''offer_changed''), R)
              else if price_cents \<noteq> ul_price_cents l then (Inl (refused 409 ''price_changed''), R)
              else (case spend_nonce nonce R of
                 None \<Rightarrow> (Inl (refused 409 ''voucher_spent''), R)
               | Some R1 \<Rightarrow>
                   if \<not> list_ex (\<lambda>d. od_uin d = target \<and> od_owner_uin d = ul_seller_uin l) (owned_uins R1)
                   then (Inl (refused 409 ''seller_gone''), R)
                   else
                     let R2 = R1\<lparr>owned_uins := map (\<lambda>d. if od_uin d = target \<and> od_owner_uin d = ul_seller_uin l
                                then d\<lparr>od_owner_uin := me, od_source := ''purchase''\<rparr> else d) (owned_uins R1)\<rparr>;
                         R3 = drop_hold target (drop_listing target R2)
                     in if switch then
                          (case take_number now me target True ''purchase'' R3 of
                             (Inl e, _) \<Rightarrow> (Inl e, R) | (Inr out, R4) \<Rightarrow> (Inr out, R4))
                        else (Inr \<lparr>po_new_uin = None, po_switched = False, po_owned = owned_list me R3\<rparr>, R3))))"

definition redeem ::
  "shop_env \<Rightarrow> datetime \<Rightarrow> uin \<Rightarrow> uin \<Rightarrow> string \<Rightarrow> bool \<Rightarrow> registry \<Rightarrow> purchase_out outcome \<times> registry" where
  "redeem env now me target voucher switch R =
     (if \<not> shop_enabled env then (Inl shop_closed, R)
      else if uin_length target < min_len \<or> max_len < uin_length target then (Inl (refused 400 ''invalid_length''), R)
      else if target = me then (Inl (refused 400 ''self_target''), R)
      else (case find_account R me of
         None \<Rightarrow> (Inl (HttpError 404 ''user not found'' None), R)
       | Some a \<Rightarrow>
           if ac_suspended a then (Inl (refused 403 ''suspended''), R)
           else (case (if resale_enabled env then find_listing R target else None) of
              Some l \<Rightarrow> redeem_resale env now me l voucher switch R
            | None \<Rightarrow>
                (case verify (sh_till env) voucher target (clock_seconds now) of
                   Inl e \<Rightarrow> (Inl (voucher_refusal e), R)
                 | Inr nonce \<Rightarrow>
                     if uin_is_taken now target None True R then (Inl (refused 409 ''taken''), R)
                     else (case spend_nonce nonce R of
                        None \<Rightarrow> (Inl (refused 409 ''voucher_spent''), R)
                      | Some R1 \<Rightarrow>
                          let R2 = drop_hold target R1;
                              R3 = (if switch then R2\<lparr>owned_uins := owned_uins R2 @
                                      [\<lparr>od_uin = target, od_owner_uin = me, od_source = ''purchase''\<rparr>]\<rparr> else R2)
                          in (case take_number now me target switch ''purchase'' R3 of
                                (Inl e, _) \<Rightarrow> (Inl e, R) | (Inr out, R4) \<Rightarrow> (Inr out, R4)))))))"

section \<open>Holds\<close>

definition till_hold :: "shop_env \<Rightarrow> datetime \<Rightarrow> string \<Rightarrow> registry \<Rightarrow> datetime option outcome \<times> registry" where
  "till_hold env now request R =
     (if \<not> shop_enabled env then (Inl shop_closed, R)
      else (case verify_hold (sh_till env) request (clock_seconds now) of
         Inl e \<Rightarrow> (Inl (voucher_refusal e), R)
       | Inr (kind, u, hold_id, _) \<Rightarrow>
           let mine = (case find_hold R u of None \<Rightarrow> False | Some h \<Rightarrow> uh_hold_id h = hold_id);
               expires = now + seconds (60 * hold_minutes)
           in if kind = ''release'' then (Inr None, if mine then drop_hold u R else R)
              else if uin_length u < min_len \<or> max_len < uin_length u then (Inl (refused 400 ''invalid_length''), R)
              else if mine then
                (Inr (Some expires), R\<lparr>uin_holds :=
                   map (\<lambda>h. if uh_uin h = u then h\<lparr>uh_expires_at := expires\<rparr> else h) (uin_holds R)\<rparr>)
              else if find_listing R u = None \<and> uin_is_taken now u None False R
              then (Inl (refused 409 ''taken''), R)
              else if find_hold R u \<noteq> None then (Inl internal_error, R)
              else (Inr (Some expires), R\<lparr>uin_holds := uin_holds R @
                      [\<lparr>uh_uin = u, uh_hold_id = hold_id, uh_expires_at = expires\<rparr>]\<rparr>)))"

definition admin_hold_uin :: "datetime \<Rightarrow> uin \<Rightarrow> string \<Rightarrow> int \<Rightarrow> registry \<Rightarrow> datetime outcome \<times> registry" where
  "admin_hold_uin now u hold_id minutes R =
     (if uin_is_taken now u None False R then (Inl (refused 409 ''taken''), R)
      else
        let expires = now + seconds (60 * minutes)
        in (Inr expires, R\<lparr>uin_holds := upsert_row (\<lambda>h. uh_uin h = u)
              \<lparr>uh_uin = u, uh_hold_id = hold_id, uh_expires_at = expires\<rparr>
              (\<lambda>h. h\<lparr>uh_hold_id := hold_id, uh_expires_at := expires\<rparr>) (uin_holds R)\<rparr>))"

definition admin_release_hold :: "uin \<Rightarrow> registry \<Rightarrow> unit outcome \<times> registry" where
  "admin_release_hold u R = (Inr (), drop_hold u R)"

definition admin_remove_listing :: "datetime \<Rightarrow> uin \<Rightarrow> registry \<Rightarrow> unit outcome \<times> registry" where
  "admin_remove_listing now u R =
     (case find_listing R u of
        None \<Rightarrow> (Inl (refused 404 ''not_listed''), R)
      | Some l \<Rightarrow> if listing_held now u R then (Inl (refused 409 ''being_paid''), R) else (Inr (), drop_listing u R))"

definition admin_grant_uin :: "datetime \<Rightarrow> uin \<Rightarrow> uin \<Rightarrow> registry \<Rightarrow> unit outcome \<times> registry" where
  "admin_grant_uin now u to R =
     (if find_account R u \<noteq> None then (Inl (refused 409 ''in_use''), R)
      else if find_deed R u \<noteq> None then (Inl (refused 409 ''already_held''), R)
      else if list_ex (\<lambda>i. iv_uin i = Some u \<and> invite_is_live now i) (invites R)
      then (Inl (refused 409 ''uin_reserved''), R)
      else if find_account R to = None then (Inl (refused 404 ''no_such_user''), R)
      else (Inr (), R\<lparr>owned_uins := owned_uins R @ [\<lparr>od_uin = u, od_owner_uin = to, od_source = ''granted''\<rparr>]\<rparr>))"

section \<open>Registration and deletion\<close>

text \<open>Spending one use of an invite: the row of a live code, and only with a number on an open island.\<close>

definition consume_invite :: "datetime \<Rightarrow> string \<Rightarrow> bool \<Rightarrow> registry \<Rightarrow> (uin option \<times> registry) option" where
  "consume_invite now code_hash need_uin R =
     (case get_row (\<lambda>i. iv_code i = code_hash \<and> invite_is_live now i \<and> (need_uin \<longrightarrow> iv_uin i \<noteq> None)) (invites R) of
        None \<Rightarrow> None
      | Some i \<Rightarrow> Some (iv_uin i, R\<lparr>invites :=
          map (\<lambda>j. if iv_code j = code_hash then j\<lparr>iv_used_count := iv_used_count j + 1\<rparr> else j) (invites R)\<rparr>))"

text \<open>
  Which credential opens the door: an entry voucher when the invite field holds one, else an
  invite. The answer is how the account enters, whether it is a resident, and the number the
  invite reserves.
\<close>

definition open_door ::
  "shop_env \<Rightarrow> (string \<Rightarrow> string) \<Rightarrow> datetime \<Rightarrow> string \<Rightarrow> string \<Rightarrow> registry
     \<Rightarrow> (string \<times> bool \<times> uin option \<times> registry) outcome" where
  "open_door env hash now policy field R =
     (let code = strip field;
          closed = policy \<in> {''invite'', ''paid''};
          by_invite = (\<lambda>code.
            if closed then
              if code = [] then Inl (refused 403 (if policy = ''invite'' then ''invite_required'' else ''entry_required''))
              else (case consume_invite now (hash code) False R of
                      None \<Rightarrow> Inl (refused 403 ''invite_invalid'')
                    | Some (u, R1) \<Rightarrow> Inr (''invite'', False, u, R1))
            else if code = [] then Inr (''open'', False, None, R)
            else (case consume_invite now (hash code) True R of
                    None \<Rightarrow> Inr (''open'', False, None, R)
                  | Some (u, R1) \<Rightarrow> Inr (''invite'', False, u, R1)))
      in if code = [] then by_invite code
         else (case verify_entry (sh_till env) code (island_host env) (clock_seconds now) of
                 Inr nonce \<Rightarrow>
                   (case spend_nonce nonce R of
                      None \<Rightarrow> Inl (refused 409 ''voucher_spent'')
                    | Some R1 \<Rightarrow> Inr (''voucher'', True, None, R1))
               | Inl (VoucherError c) \<Rightarrow>
                   if c \<in> {''voucher_other_island'', ''voucher_expired''} then Inl (refused 403 c) else by_invite code
               | Inl OverflowError \<Rightarrow> Inl internal_error))"

text \<open>The number a new account gets: the reserved one, the desired one, else a random one.\<close>

definition choose_uin ::
  "datetime \<Rightarrow> string \<Rightarrow> uin option \<Rightarrow> bool \<Rightarrow> uin option \<Rightarrow> bool \<Rightarrow> int list \<Rightarrow> registry \<Rightarrow> uin outcome" where
  "choose_uin now code_hash reserved proven desired tenure draws R =
     (case (case reserved of
              None \<Rightarrow> None
            | Some u \<Rightarrow> if uin_is_taken now u (Some code_hash) False R then None else Some u) of
        Some u \<Rightarrow> Inr u
      | None \<Rightarrow>
          (case (case desired of
                   None \<Rightarrow> None
                 | Some u \<Rightarrow>
                     if proven \<and> 0 < u \<and> u \<le> uin_max \<and> \<not> uin_is_taken now u None False R \<and>
                        (\<not> is_reserved_uin u \<or> tenure) then Some u else None) of
             Some u \<Rightarrow> Inr u
           | None \<Rightarrow> allocate_uin now draws R))"

text \<open>What a registration brings: names and keys, the invite field, the number it would like and whether it proved the key.\<close>

record registration =
  rg_nickname :: string
  rg_identity_key :: string
  rg_signing_key :: string
  rg_invite :: string
  rg_desired :: "uin option"
  rg_proven :: bool
  rg_tenure :: bool

definition update_account :: "uin \<Rightarrow> (account \<Rightarrow> account) \<Rightarrow> registry \<Rightarrow> registry" where
  "update_account u f R = R\<lparr>accounts := map (\<lambda>a. if ac_uin a = u then f a else a) (accounts R)\<rparr>"

text \<open>
  A key that already holds a guest row becomes that row: the guest columns and the mark of an
  unproven rotation are cleared, and every bearer minted before dies with the epoch.
\<close>

definition convert_guest :: "datetime \<Rightarrow> string \<Rightarrow> bool \<Rightarrow> uin \<Rightarrow> registry \<Rightarrow> registry" where
  "convert_guest now identity_key resident u R =
     bump_uin_epoch u (update_account u (\<lambda>a.
       let b = (clear_guest_columns a)\<lparr>ac_identity_key := identity_key\<rparr>;
           c = (if resident then grant_badge ''resident'' (b\<lparr>ac_resident_since := Some now\<rparr>) else b)
       in c\<lparr>ac_last_seen := now, ac_key_unproven_since := None\<rparr>) R)"

definition registered_row :: "datetime \<Rightarrow> uin \<Rightarrow> string \<Rightarrow> bool \<Rightarrow> registration \<Rightarrow> account" where
  "registered_row now u via resident rg =
     (let mark = (if resident then Some ''resident'' else None)
      in (new_account now u (rg_nickname rg) (rg_identity_key rg) (rg_signing_key rg))
           \<lparr>ac_resident_since := (if resident then Some now else None), ac_entered_via := Some via,
            ac_badge := mark, ac_badges_earned := mark\<rparr>)"

text \<open>
  The registration once the keys have their shape: \<open>revoked\<close> answers whether this install was
  disconnected from an account. The answer names the number, how the account got in, whether it is
  a resident and whether a guest row was converted.
\<close>

definition register_account ::
  "shop_env \<Rightarrow> (string \<Rightarrow> string) \<Rightarrow> datetime \<Rightarrow> string \<Rightarrow> registration \<Rightarrow> (uin \<Rightarrow> bool) \<Rightarrow> int list \<Rightarrow> registry
     \<Rightarrow> (uin \<times> string \<times> bool \<times> bool) outcome \<times> registry" where
  "register_account env hash now policy rg revoked draws R =
     (let field = strip (rg_invite rg)
      in if \<not> rg_proven rg \<and> list_ex (\<lambda>a. ac_signing_key a = rg_signing_key rg) (accounts R)
         then (Inl (refused 403 ''key_proof_required''), R)
         else (case open_door env hash now policy (rg_invite rg) R of
            Inl e \<Rightarrow> (Inl e, R)
          | Inr (via, resident, reserved, R1) \<Rightarrow>
              (case (if rg_proven rg then
                       (case decode_key32 (rg_signing_key rg) of None \<Rightarrow> None | Some raw \<Rightarrow> row_for_key R1 raw True)
                     else None) of
                 Some g \<Rightarrow>
                   if reserved \<noteq> None then (Inl (refused 409 ''invite_has_number''), R)
                   else if revoked (ac_uin g) then (Inl (refused 401 ''device_revoked''), R)
                   else (Inr (ac_uin g, via, resident, True), convert_guest now (rg_identity_key rg) resident (ac_uin g) R1)
               | None \<Rightarrow>
                   (case choose_uin now (if field = [] then [] else hash field) reserved (rg_proven rg) (rg_desired rg)
                           (rg_tenure rg) draws R1 of
                      Inl e \<Rightarrow> (Inl e, R)
                    | Inr u \<Rightarrow> (Inr (u, via, resident, False),
                        R1\<lparr>accounts := accounts R1 @ [registered_row now u via resident rg]\<rparr>)))))"

text \<open>The parts of a deletion that concern numbers.\<close>

definition purge_account :: "uin \<Rightarrow> registry \<Rightarrow> registry" where
  "purge_account u R =
     (if find_account R u = None then R
      else delete_account_row u (bump_uin_epoch u
        (R\<lparr>owned_uins := filter (\<lambda>d. od_owner_uin d \<noteq> u) (owned_uins R),
           uin_listings := filter (\<lambda>l. ul_seller_uin l \<noteq> u) (uin_listings R)\<rparr>)))"

end
