(* ===== verification/Tokens.thy ===== *)
theory Tokens
  imports Uin_Shop Offline_Queue
begin

text \<open>
  Who a request speaks for: \<open>app/core/security.py\<close> (tokens, challenges, the epoch and suspension
  mirrors of \<open>app/core/single_flight.py\<close>, the gate every authorized request passes) and the linked
  sessions of \<open>app/routers/devices.py\<close>. The JWT library, Ed25519 and SHA-256 are a record of
  functions every definition takes; the random parts of a token are arguments. The \<open>users\<close> table
  appears twice: \<open>users\<close> of the island holds the columns the message path reads, \<open>accounts\<close> of the
  registry the columns that say who an account is.
\<close>

section \<open>Libraries\<close>

record claims =
  cl_sub :: "string option"
  cl_iat :: "int option"
  cl_exp :: "int option"
  cl_ep :: "int option"
  cl_dev :: "string option"
  cl_k :: "string option"
  cl_typ :: "string option"
  cl_sk :: "string option"
  cl_nonce :: "string option"

text \<open>
  \<open>jwt_decode verify_exp now token\<close> answers the claims of a token signed under the island's secret;
  with \<open>verify_exp\<close> an expired one is refused.
\<close>

record crypto =
  jwt_encode :: "claims \<Rightarrow> string"
  jwt_decode :: "bool \<Rightarrow> datetime \<Rightarrow> string \<Rightarrow> claims option"
  ed25519_verify :: "nat list \<Rightarrow> nat list \<Rightarrow> string \<Rightarrow> bool"
  sha256_hex :: "nat list \<Rightarrow> string"
  sha256_text :: "string \<Rightarrow> string"

section \<open>State\<close>

text \<open>A Redis copy of a table, trusted while its marker lives; \<open>built\<close> outlives the marker.\<close>

record 'a mirror =
  mi_data :: 'a
  mi_loaded_until :: datetime
  mi_built :: bool

record retired_key =
  rk_sk_hash :: string
  rk_uin :: uin
  rk_rotated_at :: datetime

record vault_slot =
  vs_uin :: uin
  vs_slot :: string
  vs_blob :: "string option"
  vs_version :: int

text \<open>What the island tells the sockets of an account, in the order it is sent.\<close>

datatype notice =
    VaultReset uin "device option"
  | KickUin uin
  | KickDevice uin device
  | DeviceLinked uin device string
  | DeviceRevoked uin device
  | AccountBurned uin
  | RosterChanged uin
  | GroupDeleted uin int string

record auth =
  registry_of :: registry
  island_of :: island
  retired_signing_keys :: "retired_key list"
  vault_slots :: "vault_slot list"
  epochs :: "(uin \<rightharpoonup> int) mirror"
  suspended :: "uin list mirror"
  dev_revoked :: "uin \<rightharpoonup> (device list \<times> datetime)"
  links_until :: "uin \<rightharpoonup> datetime"
  nx_keys :: "string \<rightharpoonup> datetime"
  frames :: "notice list"

definition empty_auth :: auth where
  "empty_auth = \<lparr>registry_of = empty_registry, island_of = empty_island, retired_signing_keys = [], vault_slots = [],
     epochs = \<lparr>mi_data = Map.empty, mi_loaded_until = 0, mi_built = False\<rparr>,
     suspended = \<lparr>mi_data = [], mi_loaded_until = 0, mi_built = False\<rparr>,
     dev_revoked = Map.empty, links_until = Map.empty, nx_keys = Map.empty, frames = []\<rparr>"

definition redis_ok :: "auth \<Rightarrow> bool" where
  "redis_ok A = redis_up (island_of A)"

definition send_frame :: "notice \<Rightarrow> auth \<Rightarrow> auth" where
  "send_frame f A = A\<lparr>frames := frames A @ [f]\<rparr>"

definition truthy :: "string option \<Rightarrow> bool" where
  "truthy s = (case s of None \<Rightarrow> False | Some t \<Rightarrow> t \<noteq> [])"

section \<open>Tokens\<close>

definition jwt_ttl_seconds :: int where
  "jwt_ttl_seconds = 60 * 60 * 24 * 30"

definition device_ttl_seconds :: int where
  "device_ttl_seconds = 90 * 24 * 3600"

definition blank_claims :: claims where
  "blank_claims = \<lparr>cl_sub = None, cl_iat = None, cl_exp = None, cl_ep = None, cl_dev = None, cl_k = None,
     cl_typ = None, cl_sk = None, cl_nonce = None\<rparr>"

definition token_claims :: "datetime \<Rightarrow> uin \<Rightarrow> int \<Rightarrow> device option \<Rightarrow> claims" where
  "token_claims now u epoch dev =
     blank_claims\<lparr>cl_sub := Some (show_int u), cl_iat := Some (clock_seconds now),
       cl_exp := Some (clock_seconds now + jwt_ttl_seconds),
       cl_ep := (if epoch = 0 then None else Some epoch),
       cl_dev := (if truthy dev then dev else None), cl_k := (if truthy dev then Some ''phone'' else None)\<rparr>"

definition issue_token :: "crypto \<Rightarrow> datetime \<Rightarrow> uin \<Rightarrow> int \<Rightarrow> device option \<Rightarrow> string" where
  "issue_token lib now u epoch dev = jwt_encode lib (token_claims now u epoch dev)"

definition device_claims :: "datetime \<Rightarrow> uin \<Rightarrow> device \<Rightarrow> int \<Rightarrow> claims" where
  "device_claims now u dev epoch =
     blank_claims\<lparr>cl_sub := Some (show_int u), cl_dev := Some dev, cl_iat := Some (clock_seconds now),
       cl_exp := Some (clock_seconds now + device_ttl_seconds), cl_ep := (if epoch = 0 then None else Some epoch)\<rparr>"

definition issue_device_token :: "crypto \<Rightarrow> datetime \<Rightarrow> uin \<Rightarrow> device \<Rightarrow> int \<Rightarrow> string" where
  "issue_device_token lib now u dev epoch = jwt_encode lib (device_claims now u dev epoch)"

definition decode_session_payload :: "crypto \<Rightarrow> datetime \<Rightarrow> string \<Rightarrow> claims option" where
  "decode_session_payload lib now token =
     (case jwt_decode lib False now token of
        None \<Rightarrow> None
      | Some p \<Rightarrow>
          if truthy (cl_dev p) \<and> cl_k p \<noteq> Some ''phone'' then
            (case cl_exp p of
               None \<Rightarrow> None
             | Some e \<Rightarrow> if seconds e \<le> now then None else Some p)
          else Some p)"

definition session_uin :: "claims \<Rightarrow> uin option" where
  "session_uin p = (case cl_sub p of None \<Rightarrow> None | Some s \<Rightarrow> int_of_text s)"

definition invalid_token :: http_error where
  "invalid_token = HttpError 401 ''invalid token'' None"

definition decode_token :: "crypto \<Rightarrow> datetime \<Rightarrow> string \<Rightarrow> uin outcome" where
  "decode_token lib now token =
     (case decode_session_payload lib now token of
        None \<Rightarrow> Inl invalid_token
      | Some p \<Rightarrow> (case session_uin p of None \<Rightarrow> Inl invalid_token | Some u \<Rightarrow> Inr u))"

definition decode_device_id :: "crypto \<Rightarrow> datetime \<Rightarrow> string \<Rightarrow> device" where
  "decode_device_id lib now token =
     (case jwt_decode lib False now token of
        None \<Rightarrow> ''primary''
      | Some p \<Rightarrow> (case cl_dev p of None \<Rightarrow> ''primary'' | Some d \<Rightarrow> if d = [] then ''primary'' else d))"

definition carry_device_id :: "device \<Rightarrow> device option" where
  "carry_device_id d = (if d = ''primary'' then None else Some d)"

section \<open>Challenges\<close>

definition challenge_claims :: "datetime \<Rightarrow> string \<Rightarrow> string \<Rightarrow> string \<Rightarrow> claims" where
  "challenge_claims now sk typ nonce =
     blank_claims\<lparr>cl_typ := Some typ, cl_sk := Some sk, cl_nonce := Some nonce,
       cl_exp := Some (clock_seconds now + 120)\<rparr>"

definition issue_key_challenge :: "crypto \<Rightarrow> datetime \<Rightarrow> string \<Rightarrow> string \<Rightarrow> string \<Rightarrow> string" where
  "issue_key_challenge lib now sk typ nonce = jwt_encode lib (challenge_claims now sk typ nonce)"

definition verify_key_challenge :: "crypto \<Rightarrow> datetime \<Rightarrow> string \<Rightarrow> string \<Rightarrow> string \<Rightarrow> bool" where
  "verify_key_challenge lib now challenge sk typ =
     (case jwt_decode lib True now challenge of
        None \<Rightarrow> False
      | Some p \<Rightarrow> cl_typ p = Some typ \<and> cl_sk p = Some sk)"

text \<open>
  \<open>base64.b64decode\<close> without \<open>validate\<close>: characters outside the alphabet are skipped, and a group
  that its padding completes ends the text.
\<close>

fun lenient_values :: "nat list \<Rightarrow> nat \<Rightarrow> string \<Rightarrow> nat list option" where
  "lenient_values vals pads [] = (if length vals mod 4 = 0 then Some vals else None)"
| "lenient_values vals pads (c # cs) =
     (if c = CHR ''='' then
        let q = length vals mod 4
        in if 2 \<le> q \<and> 4 \<le> q + (pads + 1) then Some vals
           else lenient_values vals (if 2 \<le> q then pads + 1 else pads) cs
      else (case b64_value c of
              None \<Rightarrow> lenient_values vals pads cs
            | Some v \<Rightarrow> lenient_values (vals @ [v]) 0 cs))"

definition lenient_b64decode :: "string \<Rightarrow> nat list option" where
  "lenient_b64decode s = map_option b64_groups (lenient_values [] 0 s)"

text \<open>The proof of a signing key: the signature over the challenge, both as base64 text.\<close>

definition proves_key :: "crypto \<Rightarrow> string \<Rightarrow> string \<Rightarrow> string \<Rightarrow> bool" where
  "proves_key lib sk signature challenge =
     (case lenient_b64decode sk of
        None \<Rightarrow> False
      | Some key \<Rightarrow> length key = 32 \<and>
          (case lenient_b64decode signature of
             None \<Rightarrow> False
           | Some sig \<Rightarrow> ed25519_verify lib key sig challenge))"

section \<open>The mirrors\<close>

definition mirror_ttl :: int where
  "mirror_ttl = seconds 300"

definition build_mirror :: "datetime \<Rightarrow> 'a \<Rightarrow> 'a mirror" where
  "build_mirror now rows = \<lparr>mi_data = rows, mi_loaded_until = now + mirror_ttl, mi_built = True\<rparr>"

text \<open>The second component says that a background rebuild is due.\<close>

definition ensure_mirror :: "datetime \<Rightarrow> 'a \<Rightarrow> 'a mirror \<Rightarrow> 'a mirror \<times> bool" where
  "ensure_mirror now rows m =
     (if now < mi_loaded_until m then (m, False)
      else if mi_built m then (m, True)
      else (build_mirror now rows, False))"

definition epoch_rows :: "registry \<Rightarrow> uin \<rightharpoonup> int" where
  "epoch_rows R u = (case uin_epochs R u of None \<Rightarrow> None | Some e \<Rightarrow> if 0 < e then Some e else None)"

definition epoch_in :: "(uin \<rightharpoonup> int) \<Rightarrow> uin \<Rightarrow> int" where
  "epoch_in m u = (case m u of None \<Rightarrow> 0 | Some e \<Rightarrow> e)"

definition load_epochs :: "datetime \<Rightarrow> (uin \<rightharpoonup> int) \<Rightarrow> auth \<Rightarrow> auth" where
  "load_epochs now rows A = A\<lparr>epochs := build_mirror now rows\<rparr>"

definition uin_epoch :: "datetime \<Rightarrow> uin \<Rightarrow> auth \<Rightarrow> int \<times> auth" where
  "uin_epoch now u A =
     (if redis_ok A then
        let m = fst (ensure_mirror now (epoch_rows (registry_of A)) (epochs A))
        in (epoch_in (mi_data m) u, A\<lparr>epochs := m\<rparr>)
      else (epoch_in (uin_epochs (registry_of A)) u, A))"

definition cache_uin_epoch :: "uin \<Rightarrow> int \<Rightarrow> auth \<Rightarrow> auth" where
  "cache_uin_epoch u e A =
     (if redis_ok A then A\<lparr>epochs := (epochs A)\<lparr>mi_data := (mi_data (epochs A))(u \<mapsto> e)\<rparr>\<rparr> else A)"

definition suspended_rows :: "registry \<Rightarrow> uin list" where
  "suspended_rows R = map ac_uin (filter ac_suspended (accounts R))"

definition load_suspended :: "datetime \<Rightarrow> uin list \<Rightarrow> auth \<Rightarrow> auth" where
  "load_suspended now rows A = A\<lparr>suspended := build_mirror now rows\<rparr>"

definition is_suspended :: "datetime \<Rightarrow> uin \<Rightarrow> auth \<Rightarrow> bool \<times> auth" where
  "is_suspended now u A =
     (if redis_ok A then
        let m = fst (ensure_mirror now (suspended_rows (registry_of A)) (suspended A))
        in (u \<in> set (mi_data m), A\<lparr>suspended := m\<rparr>)
      else (False, A))"

definition mark_suspended :: "uin \<Rightarrow> bool \<Rightarrow> auth \<Rightarrow> auth" where
  "mark_suspended u flag A =
     (if redis_ok A then
        A\<lparr>suspended := (suspended A)\<lparr>mi_data :=
          (if flag then List.insert u (mi_data (suspended A)) else removeAll u (mi_data (suspended A)))\<rparr>\<rparr>
      else A)"

section \<open>The gate\<close>

text \<open>\<open>None\<close> is the exception of a Redis that does not answer.\<close>

definition device_is_revoked :: "datetime \<Rightarrow> uin \<Rightarrow> device option \<Rightarrow> auth \<Rightarrow> bool option" where
  "device_is_revoked now u dev A =
     (case dev of
        None \<Rightarrow> Some False
      | Some d \<Rightarrow>
          if d = [] then Some False
          else if \<not> redis_ok A then None
          else Some (case dev_revoked A u of None \<Rightarrow> False | Some (ds, until) \<Rightarrow> now < until \<and> d \<in> set ds))"

definition authorize_session :: "crypto \<Rightarrow> datetime \<Rightarrow> string \<Rightarrow> auth \<Rightarrow> uin outcome \<times> auth" where
  "authorize_session lib now token A =
     (case decode_session_payload lib now token of
        None \<Rightarrow> (Inl invalid_token, A)
      | Some p \<Rightarrow>
          (case session_uin p of
             None \<Rightarrow> (Inl invalid_token, A)
           | Some u \<Rightarrow>
               (case device_is_revoked now u (cl_dev p) A of
                  None \<Rightarrow> (Inl internal_error, A)
                | Some True \<Rightarrow> (Inl (HttpError 401 ''device revoked'' None), A)
                | Some False \<Rightarrow>
                    (case uin_epoch now u A of (e, A1) \<Rightarrow>
                       if (case cl_ep p of None \<Rightarrow> 0 | Some t \<Rightarrow> t) \<noteq> e
                       then (Inl (HttpError 401 ''stale token'' None), A1)
                       else (case is_suspended now u A1 of (banned, A2) \<Rightarrow>
                               if banned then (Inl (refused 403 ''suspended''), A2) else (Inr u, A2))))))"

definition current_uin :: "crypto \<Rightarrow> string option \<Rightarrow> datetime \<Rightarrow> string option \<Rightarrow> auth \<Rightarrow> uin outcome \<times> auth" where
  "current_uin lib marker now creds A =
     (case creds of
        None \<Rightarrow> (Inl (HttpError 401 ''missing token'' None), A)
      | Some token \<Rightarrow>
          (case authorize_session lib now token A of
             (Inl e, A1) \<Rightarrow> (Inl e, A1)
           | (Inr u, A1) \<Rightarrow>
               (case enforce marker now u (island_of A1) of
                  (Inl e, s) \<Rightarrow> (Inl e, A1\<lparr>island_of := s\<rparr>)
                | (Inr _, s) \<Rightarrow> (Inr u, A1\<lparr>island_of := s\<rparr>))))"

text \<open>A token that fails reads as anonymous; a guest on a closed route is still refused.\<close>

definition current_uin_optional ::
  "crypto \<Rightarrow> string option \<Rightarrow> datetime \<Rightarrow> string option \<Rightarrow> auth \<Rightarrow> uin option outcome \<times> auth" where
  "current_uin_optional lib marker now creds A =
     (case creds of
        None \<Rightarrow> (Inr None, A)
      | Some token \<Rightarrow>
          (case authorize_session lib now token A of
             (Inl e, A1) \<Rightarrow> if status e = 500 then (Inl e, A1) else (Inr None, A1)
           | (Inr u, A1) \<Rightarrow>
               (case enforce marker now u (island_of A1) of
                  (Inl e, s) \<Rightarrow> (Inl e, A1\<lparr>island_of := s\<rparr>)
                | (Inr _, s) \<Rightarrow> (Inr (Some u), A1\<lparr>island_of := s\<rparr>))))"

definition current_device_id :: "crypto \<Rightarrow> datetime \<Rightarrow> string option \<Rightarrow> device" where
  "current_device_id lib now creds = (case creds of None \<Rightarrow> ''primary'' | Some t \<Rightarrow> decode_device_id lib now t)"

text \<open>The panel's gate: closed while no name or password is set, else an exact match.\<close>

definition require_admin :: "string \<Rightarrow> string \<Rightarrow> (string \<times> string) option \<Rightarrow> string outcome" where
  "require_admin name password creds =
     (if name = [] \<or> password = [] then Inl (HttpError 503 ''admin disabled'' None)
      else (case creds of
              None \<Rightarrow> Inl (HttpError 401 ''admin auth required'' None)
            | Some (u, p) \<Rightarrow> if u = name \<and> p = password then Inr u else Inl (HttpError 401 ''bad credentials'' None)))"

section \<open>Linked sessions\<close>

definition max_devices :: nat where
  "max_devices = 5"

definition revoke_cooldown_seconds :: int where
  "revoke_cooldown_seconds = 24 * 3600"

definition pending_ttl_seconds :: int where
  "pending_ttl_seconds = 15 * 60"

text \<open>The registry hash of an account lives until its expiry.\<close>

definition linked_of :: "datetime \<Rightarrow> uin \<Rightarrow> auth \<Rightarrow> linked_device list" where
  "linked_of now u A =
     (case links_until A u of
        None \<Rightarrow> []
      | Some t \<Rightarrow> if now < t then filter (\<lambda>l. ld_uin l = u) (linked_devices (island_of A)) else [])"

definition find_linked :: "datetime \<Rightarrow> uin \<Rightarrow> device \<Rightarrow> auth \<Rightarrow> linked_device option" where
  "find_linked now u d A = get_row (\<lambda>l. ld_device_id l = d) (linked_of now u A)"

definition has_linked_devices :: "datetime \<Rightarrow> uin \<Rightarrow> auth \<Rightarrow> bool" where
  "has_linked_devices now u A \<longleftrightarrow> linked_of now u A \<noteq> []"

definition is_linked_device :: "datetime \<Rightarrow> uin \<Rightarrow> device \<Rightarrow> auth \<Rightarrow> bool" where
  "is_linked_device now u d A \<longleftrightarrow> d \<noteq> [] \<and> d \<noteq> ''primary'' \<and> find_linked now u d A \<noteq> None"

definition set_links :: "datetime \<Rightarrow> uin \<Rightarrow> linked_device list \<Rightarrow> auth \<Rightarrow> auth" where
  "set_links now u ls A =
     A\<lparr>island_of := (island_of A)\<lparr>linked_devices :=
        filter (\<lambda>l. ld_uin l \<noteq> u) (linked_devices (island_of A)) @ ls\<rparr>\<rparr>"

definition link_device ::
  "crypto \<Rightarrow> datetime \<Rightarrow> device \<Rightarrow> string \<Rightarrow> uin \<Rightarrow> auth \<Rightarrow> (device \<times> string) outcome \<times> auth" where
  "link_device lib now fresh label u A =
     (if \<not> redis_ok A then (Inl internal_error, A)
      else if max_devices \<le> length (linked_of now u A) then (Inl (refused 409 ''too_many_devices''), A)
      else
        let entry = \<lparr>ld_uin = u, ld_device_id = fresh, ld_label = label, ld_created_at = now, ld_pending = True\<rparr>;
            A1 = (set_links now u (filter (\<lambda>l. ld_device_id l \<noteq> fresh) (linked_of now u A) @ [entry]) A)
                   \<lparr>links_until := (links_until A)(u \<mapsto> now + seconds device_ttl_seconds)\<rparr>;
            A2 = send_frame (DeviceLinked u fresh label) A1
        in (case uin_epoch now u A2 of (e, A3) \<Rightarrow> (Inr (fresh, issue_device_token lib now u fresh e), A3)))"

definition linked_created_at :: "datetime \<Rightarrow> uin \<Rightarrow> device option \<Rightarrow> auth \<Rightarrow> datetime option" where
  "linked_created_at now u dev A =
     (case dev of
        None \<Rightarrow> None
      | Some d \<Rightarrow> if d = [] \<or> d = ''primary'' then None else map_option ld_created_at (find_linked now u d A))"

definition revoker_gate :: "datetime \<Rightarrow> uin \<Rightarrow> device option \<Rightarrow> datetime option \<Rightarrow> auth \<Rightarrow> unit outcome" where
  "revoker_gate now u revoker target A =
     (case linked_created_at now u revoker A of
        None \<Rightarrow> Inr ()
      | Some born \<Rightarrow>
          if seconds revoke_cooldown_seconds \<le> now - born then Inr ()
          else if (case target of None \<Rightarrow> False | Some t \<Rightarrow> born \<le> t) then Inr ()
          else Inl (HttpError 403 ''revoke_cooldown''
                 (Some ((seconds revoke_cooldown_seconds - (now - born)) div 1000000))))"

definition revoke_entry :: "uin \<Rightarrow> device \<Rightarrow> datetime \<Rightarrow> auth \<Rightarrow> auth" where
  "revoke_entry u d now A =
     (let live = (case dev_revoked A u of None \<Rightarrow> [] | Some (ds, until) \<Rightarrow> if now < until then ds else [])
      in A\<lparr>dev_revoked := (dev_revoked A)(u \<mapsto> (List.insert d live, now + seconds device_ttl_seconds))\<rparr>)"

definition revoke :: "datetime \<Rightarrow> uin \<Rightarrow> device \<Rightarrow> auth \<Rightarrow> unit outcome \<times> auth" where
  "revoke now u d A =
     (if \<not> redis_ok A then (Inl internal_error, A)
      else
        let A1 = set_links now u (filter (\<lambda>l. ld_device_id l \<noteq> d) (linked_of now u A)) A;
            A2 = revoke_entry u d now A1;
            s = island_of A2;
            A3 = A2\<lparr>island_of := s\<lparr>queue_cursors := filter (\<lambda>c. \<not> (qc_uin c = u \<and> qc_device_id c = d)) (queue_cursors s),
                      device_tokens := filter (\<lambda>t. \<not> (dt_uin t = u \<and> dt_device_id t = Some d)) (device_tokens s)\<rparr>\<rparr>
        in (Inr (), send_frame (KickDevice u d) (send_frame (DeviceRevoked u d) A3)))"

definition revoke_own_device :: "datetime \<Rightarrow> uin \<Rightarrow> device \<Rightarrow> auth \<Rightarrow> unit outcome \<times> auth" where
  "revoke_own_device now u d A =
     (if \<not> redis_ok A then (Inl internal_error, A)
      else if d = [] \<or> find_linked now u d A = None then (Inr (), A)
      else revoke now u d A)"

definition revoke_device :: "datetime \<Rightarrow> uin \<Rightarrow> device \<Rightarrow> device \<Rightarrow> auth \<Rightarrow> unit outcome \<times> auth" where
  "revoke_device now u caller d A =
     (if \<not> redis_ok A then (Inl internal_error, A)
      else (case revoker_gate now u (Some caller) (linked_created_at now u (Some d) A) A of
              Inl e \<Rightarrow> (Inl e, A)
            | Inr _ \<Rightarrow> revoke now u d A))"

text \<open>The list drops the links nobody picked up in time.\<close>

definition list_devices :: "datetime \<Rightarrow> uin \<Rightarrow> auth \<Rightarrow> linked_device list outcome \<times> auth" where
  "list_devices now u A =
     (if \<not> redis_ok A then (Inl internal_error, A)
      else
        let kept = filter (\<lambda>l. \<not> (ld_pending l \<and> seconds pending_ttl_seconds < now - ld_created_at l)) (linked_of now u A)
        in (Inr kept, set_links now u kept A))"

end
