(* ===== verification/Accounts.thy ===== *)
theory Accounts
  imports Tokens
begin

text \<open>
  The doors of \<open>app/routers/auth.py\<close> that hand out a session: registration, the renaming of an
  install, recovery and refresh by proof of the signing key, and the rotation of the keys; with the
  proof rules of \<open>app/services/guest_accounts.py\<close> they share. Each handler is one request: a refusal
  before its commit leaves the tables as they were. Left out are the contact edges and the beta
  room a registration may add by configuration.
\<close>

section \<open>Answers\<close>

datatype refusal = Http http_error | IdentityRotated uin | ReissueClockSkew int

type_synonym 'a answer = "refusal + 'a"

record register_out =
  ro_uin :: uin
  ro_token :: string
  ro_guest :: bool

definition coded :: "nat \<Rightarrow> string \<Rightarrow> refusal" where
  "coded st code = Http (refused st code)"

definition busy :: refusal where
  "busy = Http (HttpError 503 ''island_busy'' None)"

definition mint :: "crypto \<Rightarrow> datetime \<Rightarrow> uin \<Rightarrow> device option \<Rightarrow> bool \<Rightarrow> auth \<Rightarrow> register_out \<times> auth" where
  "mint lib now u dev flag A =
     (case uin_epoch now u A of (e, A1) \<Rightarrow>
        (\<lparr>ro_uin = u, ro_token = issue_token lib now u e dev, ro_guest = flag\<rparr>, A1))"

definition on_registry :: "(registry \<Rightarrow> registry) \<Rightarrow> auth \<Rightarrow> auth" where
  "on_registry f A = A\<lparr>registry_of := f (registry_of A)\<rparr>"

definition on_island :: "(island \<Rightarrow> island) \<Rightarrow> auth \<Rightarrow> auth" where
  "on_island f A = A\<lparr>island_of := f (island_of A)\<rparr>"

definition update_user :: "uin \<Rightarrow> (user \<Rightarrow> user) \<Rightarrow> island \<Rightarrow> island" where
  "update_user u f s = s\<lparr>users := map (\<lambda>r. if u_uin r = u then f r else r) (users s)\<rparr>"

definition user_row :: "account \<Rightarrow> user" where
  "user_row a = \<lparr>u_uin = ac_uin a, u_last_seen = ac_last_seen a, u_created_at = ac_created_at a,
     u_guest_status = ac_guest_status a, u_push_preferences = None,
     u_suspended = ac_suspended a, u_group_invite_policy = None\<rparr>"

text \<open>\<open>_refuse_revoked_device\<close>: the guard of every door that mints.\<close>

definition refuse_revoked_device :: "datetime \<Rightarrow> uin \<Rightarrow> device option \<Rightarrow> auth \<Rightarrow> unit answer" where
  "refuse_revoked_device now u dev A =
     (case device_is_revoked now u dev A of
        None \<Rightarrow> Inl (Http internal_error)
      | Some True \<Rightarrow> Inl (coded 401 ''device_revoked'')
      | Some False \<Rightarrow> Inr ())"

text \<open>
  \<open>SET key NX EX\<close>: \<open>None\<close> when Redis does not answer, else whether this is the first use.
\<close>

definition set_nx :: "datetime \<Rightarrow> string \<Rightarrow> int \<Rightarrow> auth \<Rightarrow> (bool \<times> auth) option" where
  "set_nx now key ttl A =
     (if \<not> redis_ok A then None
      else (case nx_keys A key of
              Some until \<Rightarrow> if now < until then Some (False, A)
                else Some (True, A\<lparr>nx_keys := (nx_keys A)(key \<mapsto> now + seconds ttl)\<rparr>)
            | None \<Rightarrow> Some (True, A\<lparr>nx_keys := (nx_keys A)(key \<mapsto> now + seconds ttl)\<rparr>)))"

definition release_nx :: "string \<Rightarrow> auth \<Rightarrow> auth" where
  "release_nx key A = (if redis_ok A then A\<lparr>nx_keys := (nx_keys A)(key := None)\<rparr> else A)"

section \<open>Proof of a key that arrived by rotation\<close>

text \<open>The new epoch, or \<open>None\<close> when nothing was bumped.\<close>

definition retire_bearers_before_proof :: "uin \<Rightarrow> bool \<Rightarrow> registry \<Rightarrow> int option \<times> registry" where
  "retire_bearers_before_proof u always R =
     (let unproven = (case find_account R u of None \<Rightarrow> False | Some a \<Rightarrow> ac_key_unproven_since a \<noteq> None);
          R1 = update_account u (\<lambda>a. a\<lparr>ac_key_unproven_since := None\<rparr>) R
      in if unproven \<or> always
         then let R2 = bump_uin_epoch u R1 in (Some (epoch_in (uin_epochs R2) u), R2)
         else (None, R))"

definition bearers_retired :: "uin \<Rightarrow> int option \<Rightarrow> auth \<Rightarrow> auth" where
  "bearers_retired u epoch A =
     (case epoch of None \<Rightarrow> A | Some e \<Rightarrow> send_frame (KickUin u) (cache_uin_epoch u e A))"

definition status_added :: string where
  "status_added = ''added''"

definition status_proven :: string where
  "status_proven = ''proven''"

text \<open>One conditional update: only an unclaimed seat is written, and the answer says whether it was.\<close>

definition claim_seat :: "datetime \<Rightarrow> uin \<Rightarrow> string option \<Rightarrow> auth \<Rightarrow> bool \<times> auth" where
  "claim_seat now u identity_key A =
     (case find_account (registry_of A) u of
        None \<Rightarrow> (False, A)
      | Some a \<Rightarrow>
          if ac_guest_status a \<noteq> Some status_added then (False, A)
          else (True,
            on_island (update_user u (\<lambda>r. r\<lparr>u_guest_status := Some status_proven, u_last_seen := now - hours 1\<rparr>))
              (on_registry (update_account u (\<lambda>b. b\<lparr>ac_guest_status := Some status_proven, ac_guest_since := Some now,
                 ac_last_seen := now - hours 1,
                 ac_identity_key := (case identity_key of None \<Rightarrow> ac_identity_key b | Some k \<Rightarrow> k)\<rparr>)) A)))"

definition claim_seat_on_proof :: "datetime \<Rightarrow> uin \<Rightarrow> auth \<Rightarrow> bool \<times> auth" where
  "claim_seat_on_proof now u A =
     (case find_account (registry_of A) u of
        None \<Rightarrow> (False, A)
      | Some a \<Rightarrow>
          let (epoch, R1) = (if ac_key_unproven_since a \<noteq> None
                             then retire_bearers_before_proof u False (registry_of A) else (None, registry_of A));
              A1 = bearers_retired u epoch (A\<lparr>registry_of := R1\<rparr>)
          in if ac_guest_status a = Some status_added then
               let A2 = on_island (bump_stat now ''guest_claim'') (send_frame (RosterChanged u) (snd (claim_seat now u None A1)))
               in (True, A2)
             else (ac_guest_status a \<noteq> None, A1))"

section \<open>Registration\<close>

record register_in =
  ri_nickname :: string
  ri_identity_key :: string
  ri_signing_key :: string
  ri_invite :: string
  ri_desired :: "uin option"
  ri_device :: "device option"
  ri_challenge :: "string option"
  ri_signature :: "string option"

text \<open>Whether the request proves the key; a proof that is offered must hold.\<close>

definition register_proof :: "crypto \<Rightarrow> datetime \<Rightarrow> string \<Rightarrow> string option \<Rightarrow> string option \<Rightarrow> bool answer" where
  "register_proof lib now sk challenge signature =
     (case (challenge, signature) of
        (Some c, Some g) \<Rightarrow>
          if c = [] \<or> g = [] then Inr False
          else if \<not> verify_key_challenge lib now c sk ''register'' then Inl (coded 400 ''invalid_challenge'')
          else if \<not> proves_key lib sk g c then Inl (coded 401 ''bad_signature'')
          else Inr True
      | _ \<Rightarrow> Inr False)"

definition asks_tenure :: "bool \<Rightarrow> string \<Rightarrow> register_in \<Rightarrow> uin option" where
  "asks_tenure proven policy b =
     (case ri_desired b of
        None \<Rightarrow> None
      | Some u \<Rightarrow>
          if proven \<and> 0 < u \<and> u \<le> uin_max \<and> is_reserved_uin u \<and>
             \<not> (policy \<in> {''invite'', ''paid''} \<and> strip (ri_invite b) = []) then Some u else None)"

text \<open>The rows and the frames a registration leaves once its door said yes.\<close>

definition after_register :: "crypto \<Rightarrow> datetime \<Rightarrow> device option \<Rightarrow> uin \<Rightarrow> bool \<Rightarrow> auth \<Rightarrow> register_out \<times> auth" where
  "after_register lib now dev u converted A =
     (case find_account (registry_of A) u of
        None \<Rightarrow> mint lib now u dev False A
      | Some a \<Rightarrow>
          if \<not> converted then mint lib now u dev False (on_island (\<lambda>s. s\<lparr>users := users s @ [user_row a]\<rparr>) A)
          else
            let A1 = on_island (update_user u (\<lambda>r. r\<lparr>u_guest_status := None, u_last_seen := now\<rparr>)) A;
                A2 = bearers_retired u (Some (epoch_in (uin_epochs (registry_of A)) u)) A1;
                A3 = on_island (unmark_guest (redis_ok A) (redis_ok A) u) A2;
                A4 = on_island (bump_stat now ''guest_settle'') (send_frame (RosterChanged u) A3)
            in mint lib now u dev False A4)"

definition register ::
  "crypto \<Rightarrow> shop_env \<Rightarrow> (string \<Rightarrow> string) \<Rightarrow> datetime \<Rightarrow> string option \<Rightarrow> (uin \<Rightarrow> bool) \<Rightarrow> int list
     \<Rightarrow> register_in \<Rightarrow> auth \<Rightarrow> register_out answer \<times> auth" where
  "register lib env hash now policy tenure draws b A =
     (case pubkey32 (ri_identity_key b) ''identity_key'' of
        Inl e \<Rightarrow> (Inl (Http e), A)
      | Inr ik \<Rightarrow>
     (case pubkey32 (ri_signing_key b) ''signing_key'' of
        Inl e \<Rightarrow> (Inl (Http e), A)
      | Inr sk \<Rightarrow>
     (case register_proof lib now sk (ri_challenge b) (ri_signature b) of
        Inl e \<Rightarrow> (Inl e, A)
      | Inr proven \<Rightarrow>
     (case policy of
        None \<Rightarrow> (Inl busy, A)
      | Some pol \<Rightarrow>
          let rg = \<lparr>rg_nickname = ri_nickname b, rg_identity_key = ik, rg_signing_key = sk, rg_invite = ri_invite b,
                    rg_desired = ri_desired b, rg_proven = proven,
                    rg_tenure = (case asks_tenure proven pol b of None \<Rightarrow> False | Some u \<Rightarrow> tenure u)\<rparr>;
              revoked = (\<lambda>u. device_is_revoked now u (ri_device b) A = Some True)
          in (case register_account env hash now pol rg revoked draws (registry_of A) of
                (Inl e, _) \<Rightarrow> (Inl (Http e), A)
              | (Inr (u, via, resident, converted), R) \<Rightarrow>
                  if converted \<and> device_is_revoked now u (ri_device b) A = None
                  then (Inl (Http internal_error), A)
                  else (case after_register lib now (ri_device b) u converted (A\<lparr>registry_of := R\<rparr>) of
                          (out, A1) \<Rightarrow> (Inr out, A1)))))))"

section \<open>Sessions of a signed-in install\<close>

definition session :: "crypto \<Rightarrow> datetime \<Rightarrow> uin \<Rightarrow> device \<Rightarrow> auth \<Rightarrow> string \<times> auth" where
  "session lib now u dev A =
     (case uin_epoch now u A of (e, A1) \<Rightarrow> (issue_token lib now u e (carry_device_id dev), A1))"

text \<open>The cursor of the old name passes to the new one, or the account's furthest mark does.\<close>

definition seed_install :: "datetime \<Rightarrow> uin \<Rightarrow> device \<Rightarrow> device \<Rightarrow> island \<Rightarrow> island" where
  "seed_install now u new_id old_id s =
     (case find_cursor s u new_id of
        Some _ \<Rightarrow> s
      | None \<Rightarrow>
          (case find_cursor s u old_id of
             None \<Rightarrow> snd (upsert_cursor now u new_id (0, 0) (account_watermark s u) s)
           | Some c \<Rightarrow>
               let s1 = snd (upsert_cursor now u new_id (0, 0) (cursor_marks c) s)
               in s1\<lparr>queue_cursors := filter (\<lambda>r. \<not> is_cursor u old_id r) (queue_cursors s1)\<rparr>))"

definition claim_device ::
  "crypto \<Rightarrow> datetime \<Rightarrow> uin \<Rightarrow> device \<Rightarrow> device \<Rightarrow> auth \<Rightarrow> string answer \<times> auth" where
  "claim_device lib now u old_id new_id A =
     (case refuse_revoked_device now u (Some new_id) A of
        Inl e \<Rightarrow> (Inl e, A)
      | Inr _ \<Rightarrow>
          if new_id \<noteq> old_id \<and> is_linked_device now u old_id A
          then (Inl (coded 409 ''linked_device_cannot_rename''), A)
          else
            let A1 = on_island (seed_install now u new_id old_id) A
            in (case uin_epoch now u A1 of (e, A2) \<Rightarrow> (Inr (issue_token lib now u e (Some new_id)), A2)))"

section \<open>Recovery and refresh\<close>

definition register_challenge :: "crypto \<Rightarrow> datetime \<Rightarrow> string \<Rightarrow> string \<Rightarrow> string" where
  "register_challenge lib now sk nonce = issue_key_challenge lib now (strip sk) ''register'' nonce"

definition recover_challenge :: "crypto \<Rightarrow> datetime \<Rightarrow> string \<Rightarrow> string \<Rightarrow> string answer" where
  "recover_challenge lib now sk nonce =
     (if strip sk = [] then Inl (coded 400 ''missing_key'')
      else Inr (issue_key_challenge lib now (strip sk) ''recover'' nonce))"

definition guest_challenge :: "crypto \<Rightarrow> datetime \<Rightarrow> string \<Rightarrow> string \<Rightarrow> string" where
  "guest_challenge lib now sk nonce = issue_key_challenge lib now (strip sk) ''guest'' nonce"

text \<open>The live account that retired a key, found by the hash of its bytes.\<close>

definition rotated_account :: "crypto \<Rightarrow> string \<Rightarrow> auth \<Rightarrow> uin option" where
  "rotated_account lib sk A =
     (case key_bytes_or_none sk of
        None \<Rightarrow> None
      | Some raw \<Rightarrow>
          (case get_row (\<lambda>r. rk_sk_hash r = sha256_hex lib raw) (retired_signing_keys A) of
             None \<Rightarrow> None
           | Some r \<Rightarrow> if find_account (registry_of A) (rk_uin r) = None then None else Some (rk_uin r)))"

definition recover_proof :: "crypto \<Rightarrow> datetime \<Rightarrow> string \<Rightarrow> string \<Rightarrow> string \<Rightarrow> unit answer" where
  "recover_proof lib now sk challenge signature =
     (if \<not> verify_key_challenge lib now challenge sk ''recover'' then Inl (coded 400 ''invalid_challenge'')
      else if \<not> proves_key lib sk signature challenge then Inl (coded 401 ''bad_signature'')
      else Inr ())"

definition recover ::
  "crypto \<Rightarrow> datetime \<Rightarrow> string \<Rightarrow> string \<Rightarrow> string \<Rightarrow> device option \<Rightarrow> auth \<Rightarrow> register_out answer \<times> auth" where
  "recover lib now key challenge signature dev A =
     (let sk = strip key
      in case recover_proof lib now sk challenge signature of
           Inl e \<Rightarrow> (Inl e, A)
         | Inr _ \<Rightarrow>
             (case uin_for_signing_key (registry_of A) sk of
                None \<Rightarrow>
                  (case rotated_account lib sk A of
                     Some u \<Rightarrow> (Inl (IdentityRotated u), A)
                   | None \<Rightarrow> (Inl (coded 404 ''identity_not_found''), A))
              | Some u \<Rightarrow>
                  (case refuse_revoked_device now u dev A of
                     Inl e \<Rightarrow> (Inl e, A)
                   | Inr _ \<Rightarrow>
                       (case claim_seat_on_proof now u A of (g, A1) \<Rightarrow>
                          case mint lib now u dev g A1 of (out, A2) \<Rightarrow> (Inr out, A2)))))"

datatype resolution = Owned uin | Moved uin | Ambiguous | Absent

definition resolve_refresh :: "registry \<Rightarrow> uin \<Rightarrow> string \<Rightarrow> resolution" where
  "resolve_refresh R u sk =
     (if list_ex (\<lambda>a. ac_uin a = u \<and> ac_signing_key a = sk) (accounts R) then Owned u
      else if find_account R u \<noteq> None then Absent
      else (case take 2 (filter (\<lambda>a. ac_signing_key a = sk) (accounts R)) of
              [] \<Rightarrow> Absent
            | [a] \<Rightarrow> Moved (ac_uin a)
            | _ \<Rightarrow> Ambiguous))"

text \<open>A named install without a cursor starts at the account's furthest mark.\<close>

definition seed_refresh :: "datetime \<Rightarrow> uin \<Rightarrow> device option \<Rightarrow> island \<Rightarrow> island" where
  "seed_refresh now u dev s =
     (case dev of
        None \<Rightarrow> s
      | Some d \<Rightarrow>
          if d = [] \<or> find_cursor s u d \<noteq> None then s
          else snd (upsert_cursor now u d (0, 0) (account_watermark s u) s))"

text \<open>\<open>budget\<close> is the limiter's answer for the account that proved its key.\<close>

definition refresh ::
  "crypto \<Rightarrow> datetime \<Rightarrow> (uin \<Rightarrow> unit outcome) \<Rightarrow> uin \<Rightarrow> string \<Rightarrow> string \<Rightarrow> string \<Rightarrow> device option \<Rightarrow> auth
     \<Rightarrow> (register_out \<times> uin option) answer \<times> auth" where
  "refresh lib now budget u key challenge signature dev A =
     (let sk = strip key;
          serve = (\<lambda>owned moved.
            case refuse_revoked_device now owned dev A of
              Inl e \<Rightarrow> (Inl e, A)
            | Inr _ \<Rightarrow>
                (case budget owned of
                   Inl e \<Rightarrow> (Inl (Http e), A)
                 | Inr _ \<Rightarrow>
                     let A1 = on_island (seed_refresh now owned dev) A
                     in (case claim_seat_on_proof now owned A1 of (g, A2) \<Rightarrow>
                           case mint lib now owned dev g A2 of (out, A3) \<Rightarrow> (Inr (out, moved), A3))))
      in case recover_proof lib now sk challenge signature of
           Inl e \<Rightarrow> (Inl e, A)
         | Inr _ \<Rightarrow>
             (case resolve_refresh (registry_of A) u sk of
                Owned v \<Rightarrow> serve v None
              | Moved v \<Rightarrow> serve v (Some u)
              | Ambiguous \<Rightarrow> (Inl (coded 404 ''identity_ambiguous''), A)
              | Absent \<Rightarrow>
                  (case rotated_account lib sk A of
                     Some v \<Rightarrow> (Inl (IdentityRotated v), A)
                   | None \<Rightarrow> (Inl (coded 404 ''identity_not_found''), A))))"

section \<open>Rotation of the keys\<close>

record reissue_in =
  xi_identity_key :: string
  xi_signing_key :: string
  xi_proof_v :: "int option"
  xi_host :: "string option"
  xi_old_signing_key :: "string option"
  xi_ts :: "int option"
  xi_nonce :: "string option"
  xi_signature :: "string option"

definition reissue_skew_seconds :: int where
  "reissue_skew_seconds = 600"

definition nonce_ttl_seconds :: int where
  "nonce_ttl_seconds = 1800"

definition retire_signing_key :: "crypto \<Rightarrow> datetime \<Rightarrow> nat list \<Rightarrow> uin \<Rightarrow> bool \<Rightarrow> auth \<Rightarrow> auth" where
  "retire_signing_key lib now old_raw u is_signed A =
     (let h = sha256_hex lib old_raw;
          fresh = \<lparr>rk_sk_hash = h, rk_uin = u, rk_rotated_at = now\<rparr>
      in case get_row (\<lambda>r. rk_sk_hash r = h) (retired_signing_keys A) of
           None \<Rightarrow> A\<lparr>retired_signing_keys := retired_signing_keys A @ [fresh]\<rparr>
         | Some r \<Rightarrow>
             if is_signed \<or> rk_uin r = u \<or> find_account (registry_of A) (rk_uin r) = None
             then A\<lparr>retired_signing_keys := map (\<lambda>r. if rk_sk_hash r = h then fresh else r) (retired_signing_keys A)\<rparr>
             else A)"

text \<open>A proof whose every field is there and reads: host, old key, time, nonce and signature.\<close>

record reissue_proof =
  xp_version :: int
  xp_host :: string
  xp_old_key :: "nat list"
  xp_ts :: int
  xp_nonce :: "nat list"
  xp_signature :: "nat list"

definition offers_proof :: "reissue_in \<Rightarrow> bool" where
  "offers_proof b \<longleftrightarrow> xi_proof_v b \<noteq> None \<or> xi_host b \<noteq> None \<or> xi_old_signing_key b \<noteq> None \<or>
     xi_ts b \<noteq> None \<or> xi_nonce b \<noteq> None \<or> xi_signature b \<noteq> None"

definition parse_proof :: "reissue_in \<Rightarrow> reissue_proof option" where
  "parse_proof b =
     (case (xi_proof_v b, xi_ts b, xi_host b, xi_old_signing_key b, xi_nonce b, xi_signature b) of
        (Some v, Some ts, Some h, Some k, Some n, Some g) \<Rightarrow>
          if h = [] \<or> k = [] \<or> n = [] \<or> g = [] \<or> canonical_host h = [] then None
          else (case (decode_key32 k, decode_nonce n, decode_signature g) of
                  (Some kr, Some nr, Some gr) \<Rightarrow>
                    Some \<lparr>xp_version = v, xp_host = canonical_host h, xp_old_key = kr, xp_ts = ts, xp_nonce = nr,
                          xp_signature = gr\<rparr>
                | _ \<Rightarrow> None)
      | _ \<Rightarrow> None)"

definition reissue_nonce_key :: "crypto \<Rightarrow> nat list \<Rightarrow> nat list \<Rightarrow> string" where
  "reissue_nonce_key lib old_raw nonce =
     ''rin:'' @ take 16 (sha256_hex lib old_raw) @ '':'' @ canonical_nonce nonce"

text \<open>Everything that judges an offered proof, in its order; the nonce is claimed last.\<close>

definition judge_proof ::
  "crypto \<Rightarrow> datetime \<Rightarrow> string list \<times> bool \<Rightarrow> account \<Rightarrow> nat list \<Rightarrow> nat list \<Rightarrow> uin list \<Rightarrow> reissue_in \<Rightarrow> auth
     \<Rightarrow> string answer \<times> auth" where
  "judge_proof lib now hosts a new_ik new_sk taken b A =
     (case parse_proof b of
        None \<Rightarrow> (Inl (coded 400 ''reissue_proof_malformed''), A)
      | Some p \<Rightarrow>
          if xp_version p \<noteq> reissue_version then (Inl (coded 400 ''reissue_proof_version''), A)
          else
            let A1 = (if snd hosts then on_island (bump_stat now ''reissue_host_from_header'') A else A)
            in if xp_host p \<notin> set (fst hosts) then (Inl (coded 400 ''reissue_wrong_host''), A1)
               else if key_bytes_or_none (ac_signing_key a) \<noteq> Some (xp_old_key p)
               then (Inl (coded 409 ''reissue_old_key_mismatch''), A1)
               else if reissue_skew_seconds < \<bar>clock_seconds now - xp_ts p\<bar>
               then (Inl (ReissueClockSkew (clock_seconds now)), A1)
               else if \<not> ed25519_verify lib (xp_old_key p) (xp_signature p)
                      (reissue_proof_bytes (xp_host p) (ac_uin a) (xp_old_key p) new_ik new_sk (xp_ts p) (xp_nonce p))
               then (Inl (coded 403 ''reissue_bad_signature''), A1)
               else if taken \<noteq> [] \<and>
                 (case get_row (\<lambda>r. rk_sk_hash r = sha256_hex lib (xp_old_key p)) (retired_signing_keys A1) of
                    None \<Rightarrow> True | Some r \<Rightarrow> rk_uin r \<notin> set taken)
               then (Inl (coded 403 ''key_proof_required''), A1)
               else (let key = reissue_nonce_key lib (xp_old_key p) (xp_nonce p)
                     in case set_nx now key nonce_ttl_seconds A1 of
                          None \<Rightarrow> (Inl (coded 503 ''reissue_unavailable''), A1)
                        | Some (False, _) \<Rightarrow> (Inl (coded 409 ''reissue_replayed''), A1)
                        | Some (True, A2) \<Rightarrow> (Inr key, A2)))"

text \<open>The change itself: keys, mark of an unproven key, vault, retired key, epoch.\<close>

definition apply_reissue ::
  "crypto \<Rightarrow> datetime \<Rightarrow> account \<Rightarrow> string \<Rightarrow> string \<Rightarrow> nat list \<Rightarrow> bool \<Rightarrow> auth \<Rightarrow> int option \<times> auth" where
  "apply_reissue lib now a ik sk new_sk is_signed A =
     (let u = ac_uin a;
          old = key_bytes_or_none (ac_signing_key a);
          unproven = ac_guest_status a \<noteq> None \<and> old \<noteq> Some new_sk;
          A1 = on_registry (update_account u (\<lambda>b. b\<lparr>ac_identity_key := ik, ac_signing_key := sk,
                 ac_key_unproven_since := (if unproven then Some now else ac_key_unproven_since b)\<rparr>)) A;
          A2 = A1\<lparr>vault_slots := filter (\<lambda>v. vs_uin v \<noteq> u) (vault_slots A1)\<rparr>;
          A3 = (case old of
                  None \<Rightarrow> A2
                | Some raw \<Rightarrow> if raw = new_sk then A2 else retire_signing_key lib now raw u is_signed A2)
      in if is_signed then
           let A4 = on_registry (bump_uin_epoch u) A3 in (Some (epoch_in (uin_epochs (registry_of A4)) u), A4)
         else (None, A3))"

definition after_reissue :: "datetime \<Rightarrow> uin \<Rightarrow> device \<Rightarrow> int option \<Rightarrow> auth \<Rightarrow> auth" where
  "after_reissue now u dev epoch A =
     (case epoch of
        None \<Rightarrow> send_frame (VaultReset u (carry_device_id dev)) A
      | Some e \<Rightarrow>
          let A1 = on_island (bump_stat now ''reissue_signed'') (cache_uin_epoch u e A)
          in send_frame (KickUin u) (send_frame (VaultReset u (carry_device_id dev)) A1))"

text \<open>
  \<open>require\<close> is the operator's switch (\<open>None\<close> when the settings cannot be read), \<open>hosts\<close> the names of
  the island and \<open>commit_ok\<close> whether the database takes the commit.
\<close>

definition reissue ::
  "crypto \<Rightarrow> datetime \<Rightarrow> bool option \<Rightarrow> string list \<times> bool \<Rightarrow> bool \<Rightarrow> reissue_in \<Rightarrow> uin \<Rightarrow> device \<Rightarrow> string \<Rightarrow> auth
     \<Rightarrow> register_out answer \<times> auth" where
  "reissue lib now required hosts commit_ok b u dev bearer A =
     (case (pubkey32 (xi_identity_key b) ''identity_key'', pubkey32 (xi_signing_key b) ''signing_key'') of
        (Inr ik, Inr sk) \<Rightarrow>
          (let new_ik = the (decode_key32 ik); new_sk = the (decode_key32 sk)
           in case find_account (registry_of A) u of
                None \<Rightarrow> (Inl (coded 404 ''user_not_found''), A)
              | Some a \<Rightarrow>
             (case required of
                None \<Rightarrow> (Inl busy, A)
              | Some must \<Rightarrow>
                  if key_bytes_or_none (ac_identity_key a) = Some new_ik \<and>
                     key_bytes_or_none (ac_signing_key a) = Some new_sk then
                    if must then (Inr \<lparr>ro_uin = u, ro_token = bearer, ro_guest = False\<rparr>, A)
                    else (case mint lib now u (carry_device_id dev) False (on_island (bump_stat now ''reissue_samekeys'') A) of
                            (out, A1) \<Rightarrow> (Inr out, A1))
                  else
                    let taken = signing_key_taken_by (registry_of A) new_sk u;
                        apply = (\<lambda>is_signed nonce_key A1.
                          case apply_reissue lib now a ik sk new_sk is_signed A1 of (epoch, A2) \<Rightarrow>
                            if \<not> commit_ok
                            then (Inl (Http internal_error), case nonce_key of None \<Rightarrow> A1 | Some k \<Rightarrow> release_nx k A1)
                            else
                              let A3 = after_reissue now u dev epoch A2
                              in (case epoch of
                                    Some e \<Rightarrow> (Inr \<lparr>ro_uin = u, ro_token = issue_token lib now u e (carry_device_id dev),
                                                  ro_guest = False\<rparr>, A3)
                                  | None \<Rightarrow> (case mint lib now u (carry_device_id dev) False A3 of
                                              (out, A4) \<Rightarrow> (Inr out, A4))))
                    in if offers_proof b then
                         (case judge_proof lib now hosts a new_ik new_sk taken b A of
                            (Inl e, A1) \<Rightarrow> (Inl e, A1)
                          | (Inr key, A1) \<Rightarrow> apply True (Some key) A1)
                       else if must then (Inl (coded 403 ''reissue_proof_required''), A)
                       else if taken \<noteq> [] then (Inl (coded 403 ''key_proof_required''), A)
                       else apply False None (on_island (bump_stat now ''reissue_unsigned'') A)))
      | _ \<Rightarrow> (Inl (coded 400 ''bad_key''), A))"

end
