(* ===== verification/Shop_Runs.thy ===== *)
theory Shop_Runs
  imports Uin_Shop Interfaces
begin

text \<open>
  What the doors of the shop promise together, whatever order they are used in: a number has one
  holder, a voucher pays once, moving keeps a collection, a closed island admits nobody for free,
  and the free doors never hand out scarce numbers.
\<close>

section \<open>The doors as steps\<close>

inductive shop_step :: "shop_env \<Rightarrow> (string \<Rightarrow> string) \<Rightarrow> datetime \<Rightarrow> registry \<Rightarrow> registry \<Rightarrow> bool" for env hash now where
  claims: "shop_step env hash now R (snd (claim env now me target switch R))"
| redeems: "shop_step env hash now R (snd (redeem env now me target voucher switch R))"
| activates: "shop_step env hash now R (snd (activate now me target R))"
| releases: "shop_step env hash now R (snd (release_number me u R))"
| migrates: "allocate_attempts \<le> length draws \<Longrightarrow> shop_step env hash now R (snd (account_migrate now draws me R))"
| lists: "shop_step env hash now R (snd (create_listing env now me target price payout fresh_id R))"
| delists: "shop_step env hash now R (snd (delete_listing now me u R))"
| holds: "shop_step env hash now R (snd (till_hold env now request R))"
| operator_holds: "shop_step env hash now R (snd (admin_hold_uin now u hold_id minutes R))"
| operator_unholds: "shop_step env hash now R (snd (admin_release_hold u R))"
| operator_delists: "shop_step env hash now R (snd (admin_remove_listing now u R))"
| operator_grants: "shop_step env hash now R (snd (admin_grant_uin now u to R))"
| operator_invites: "i \<notin> set (map iv_code (invites R)) \<Longrightarrow>
    shop_step env hash now R (R\<lparr>invites := invites R @ [\<lparr>iv_code = i, iv_max_uses = n, iv_used_count = 0, iv_uin = u,
      iv_expires_at = t\<rparr>]\<rparr>)"
| registers: "allocate_attempts \<le> length draws \<Longrightarrow>
    shop_step env hash now R (snd (register_account env hash now policy rg revoked draws R))"
| burns: "shop_step env hash now R (purge_account u R)"

abbreviation shop_moves :: "shop_env \<Rightarrow> (string \<Rightarrow> string) \<Rightarrow> registry \<Rightarrow> registry \<Rightarrow> bool" where
  "shop_moves env hash R R' \<equiv> \<exists>now. shop_step env hash now R R'"

text \<open>A small island: an operator's invite for number 7, a till that signed one sale of number 100.\<close>

definition sale_env :: shop_env where
  "sale_env = \<lparr>sh_till = sample_till\<lparr>json_loads := (\<lambda>_. Some (JObj [(''v'', JInt 1), (''uin'', JInt 100),
       (''nonce'', JStr sample_nonce), (''exp'', JInt 100), (''sig'', JStr ''AAAA'')])),
       ed_verify := (\<lambda>_ _ m. m = doc_bytes (Sale 100 sample_nonce 100))\<rparr>,
     shop_enabled = True, resale_enabled = True, island_host = ''isle''\<rparr>"

definition hold_env :: shop_env where
  "hold_env = sale_env\<lparr>sh_till := sample_till\<lparr>json_loads := (\<lambda>_. Some (JObj [(''v'', JInt 1), (''kind'', JStr ''hold''),
       (''uin'', JInt 100), (''hold_id'', JStr ''second''), (''exp'', JInt 1000), (''sig'', JStr ''AAAA'')])),
       ed_verify := (\<lambda>_ _ m. m = doc_bytes (Hold ''hold'' 100 ''second'' 1000))\<rparr>\<rparr>"

definition invited :: registry where
  "invited = empty_registry\<lparr>invites := [\<lparr>iv_code = ''key'', iv_max_uses = 1, iv_used_count = 0, iv_uin = Some 7,
     iv_expires_at = None\<rparr>]\<rparr>"

definition some_draws :: "int list" where
  "some_draws = replicate allocate_attempts 100000000"

definition newcomer :: registration where
  "newcomer = \<lparr>rg_nickname = ''new'', rg_identity_key = ''ik'', rg_signing_key = ''sk'', rg_invite = ''key'',
     rg_desired = None, rg_proven = False, rg_tenure = False\<rparr>"

definition settled :: registry where
  "settled = snd (register_account sale_env id 0 ''invite'' newcomer (\<lambda>_. False) some_draws invited)"

definition bought_100 :: registry where
  "bought_100 = snd (redeem sale_env 50000000 7 100 ''AAAA'' False settled)"

section \<open>One holder\<close>

abbreviation account_uins :: "registry \<Rightarrow> uin set" where
  "account_uins R \<equiv> ac_uin ` set (accounts R)"

definition deeds_ok :: "registry \<Rightarrow> bool" where
  "deeds_ok R \<longleftrightarrow> list_all (\<lambda>d. od_owner_uin d \<in> account_uins R \<and>
     (od_uin d \<in> account_uins R \<longrightarrow> od_owner_uin d = od_uin d)) (owned_uins R)"

definition listings_ok :: "registry \<Rightarrow> bool" where
  "listings_ok R \<longleftrightarrow> list_all (\<lambda>l. ul_uin l \<notin> account_uins R \<and>
     list_ex (\<lambda>d. od_uin d = ul_uin l \<and> od_owner_uin d = ul_seller_uin l) (owned_uins R)) (uin_listings R)"

definition registry_ok :: "registry \<Rightarrow> bool" where
  "registry_ok R \<longleftrightarrow> unique_key ac_uin (accounts R) \<and> unique_key od_uin (owned_uins R) \<and>
     unique_key ul_uin (uin_listings R) \<and> unique_key uh_uin (uin_holds R) \<and> distinct (spent_vouchers R) \<and>
     deeds_ok R \<and> listings_ok R"

lemma find_account_None: "find_account R u = None \<longleftrightarrow> u \<notin> account_uins R"
  by (auto simp: find_account_def get_row_None)

lemma find_account_SomeD: "find_account R u = Some a \<Longrightarrow> a \<in> set (accounts R) \<and> ac_uin a = u"
  unfolding find_account_def by (rule get_row_Some_memD)

lemma find_deed_None: "find_deed R u = None \<longleftrightarrow> u \<notin> od_uin ` set (owned_uins R)"
  by (auto simp: find_deed_def get_row_None)

lemma find_deed_SomeD: "find_deed R u = Some d \<Longrightarrow> d \<in> set (owned_uins R) \<and> od_uin d = u"
  unfolding find_deed_def by (rule get_row_Some_memD)

lemma find_listing_None: "find_listing R u = None \<longleftrightarrow> u \<notin> ul_uin ` set (uin_listings R)"
  by (auto simp: find_listing_def get_row_None)

lemma find_hold_None: "find_hold R u = None \<longleftrightarrow> u \<notin> uh_uin ` set (uin_holds R)"
  by (auto simp: find_hold_def get_row_None)

lemma untaken: "\<not> uin_is_taken now u x b R \<Longrightarrow> u \<notin> account_uins R \<and> u \<notin> od_uin ` set (owned_uins R)"
  by (auto simp: uin_is_taken_def find_account_None find_deed_None)

lemma registry_ok_holds:
  "registry_ok R \<Longrightarrow> unique_key uh_uin hs \<Longrightarrow> registry_ok (R\<lparr>uin_holds := hs\<rparr>)"
  by (simp add: registry_ok_def deeds_ok_def listings_ok_def)

lemma registry_ok_invites: "registry_ok (R\<lparr>invites := is\<rparr>) = registry_ok R"
  by (simp add: registry_ok_def deeds_ok_def listings_ok_def)

lemma registry_ok_spend: "registry_ok R \<Longrightarrow> spend_nonce n R = Some R' \<Longrightarrow> registry_ok R'"
  by (auto simp: spend_nonce_def registry_ok_def deeds_ok_def listings_ok_def split: if_splits)

lemma unique_key_append:
  "unique_key k (xs @ [x]) \<longleftrightarrow> unique_key k xs \<and> k x \<notin> k ` set xs"
  by (auto simp: unique_key_def)

lemma unique_key_map_same: "(\<And>x. k (f x) = k x) \<Longrightarrow> unique_key k (map f xs) = unique_key k xs"
  by (simp add: unique_key_def comp_def)

lemma registry_ok_drop_hold: "registry_ok R \<Longrightarrow> registry_ok (drop_hold u R)"
  unfolding drop_hold_def by (rule registry_ok_holds) (simp_all add: registry_ok_def unique_key_filter)

lemma registry_ok_drop_listing: "registry_ok R \<Longrightarrow> registry_ok (drop_listing u R)"
  by (auto simp: drop_listing_def registry_ok_def deeds_ok_def listings_ok_def unique_key_filter list_all_iff)

text \<open>A deed for a number nobody answers as and nobody holds.\<close>

lemma registry_ok_new_deed:
  assumes "registry_ok R" "u \<notin> account_uins R" "u \<notin> od_uin ` set (owned_uins R)" "to \<in> account_uins R"
  shows "registry_ok (R\<lparr>owned_uins := owned_uins R @ [\<lparr>od_uin = u, od_owner_uin = to, od_source = src\<rparr>]\<rparr>)"
  using assms by (auto simp: registry_ok_def deeds_ok_def listings_ok_def unique_key_append list_all_iff)

lemma listed_has_deed:
  assumes "registry_ok R" "u \<in> ul_uin ` set (uin_listings R)"
  shows "u \<in> od_uin ` set (owned_uins R)" "u \<notin> account_uins R"
proof -
  obtain l where l: "l \<in> set (uin_listings R)" "ul_uin l = u" using assms(2) by blast
  then have "u \<notin> account_uins R \<and> list_ex (\<lambda>d. od_uin d = u \<and> od_owner_uin d = ul_seller_uin l) (owned_uins R)"
    using assms(1) unfolding registry_ok_def listings_ok_def list_all_iff by blast
  then show "u \<in> od_uin ` set (owned_uins R)" "u \<notin> account_uins R" by (auto simp: list_ex_iff)
qed

lemma registry_ok_new_account:
  assumes "registry_ok R" "ac_uin a = u" "u \<notin> account_uins R" "u \<notin> od_uin ` set (owned_uins R)"
  shows "registry_ok (R\<lparr>accounts := accounts R @ [a]\<rparr>)"
proof -
  have "u \<notin> ul_uin ` set (uin_listings R)" using listed_has_deed(1) [OF assms(1)] assms(4) by blast
  then have n: "\<And>l. l \<in> set (uin_listings R) \<Longrightarrow> ul_uin l \<noteq> u" "\<And>d. d \<in> set (owned_uins R) \<Longrightarrow> od_uin d \<noteq> u"
    using assms(4) by blast+
  show ?thesis
    using assms(1-3) n by (simp add: registry_ok_def deeds_ok_def listings_ok_def unique_key_append list_all_iff)
qed

lemma update_account_uins [simp]:
  assumes "\<And>a. ac_uin (f a) = ac_uin a"
  shows "map ac_uin (accounts (update_account u f R)) = map ac_uin (accounts R)"
    "account_uins (update_account u f R) = account_uins R"
proof -
  show m: "map ac_uin (accounts (update_account u f R)) = map ac_uin (accounts R)"
    by (simp add: update_account_def assms)
  show "account_uins (update_account u f R) = account_uins R" using arg_cong [OF m, of set] by simp
qed

lemma update_account_tables [simp]:
  "owned_uins (update_account u f R) = owned_uins R" "uin_listings (update_account u f R) = uin_listings R"
  "uin_holds (update_account u f R) = uin_holds R" "spent_vouchers (update_account u f R) = spent_vouchers R"
  "invites (update_account u f R) = invites R" "uin_epochs (update_account u f R) = uin_epochs R"
  by (simp_all add: update_account_def)

lemma registry_ok_accounts:
  assumes "registry_ok R" "map ac_uin (accounts R') = map ac_uin (accounts R)" "owned_uins R' = owned_uins R"
    "uin_listings R' = uin_listings R" "uin_holds R' = uin_holds R" "spent_vouchers R' = spent_vouchers R"
  shows "registry_ok R'"
proof -
  have "account_uins R' = account_uins R" using arg_cong [OF assms(2), of set] by simp
  then show ?thesis using assms by (simp add: registry_ok_def deeds_ok_def listings_ok_def unique_key_def)
qed

lemma convert_guest_uin: "ac_uin (grant_badge k a) = ac_uin a" "ac_uin (clear_guest_columns a) = ac_uin a"
  by (simp_all add: grant_badge_def clear_guest_columns_def Let_def)

lemma convert_guest_tables:
  "map ac_uin (accounts (convert_guest now ik resident u R)) = map ac_uin (accounts R)"
  "owned_uins (convert_guest now ik resident u R) = owned_uins R" "uin_listings (convert_guest now ik resident u R) = uin_listings R"
  "uin_holds (convert_guest now ik resident u R) = uin_holds R" "spent_vouchers (convert_guest now ik resident u R) = spent_vouchers R"
  "invites (convert_guest now ik resident u R) = invites R"
  by (simp_all add: convert_guest_def bump_uin_epoch_def Let_def convert_guest_uin)

lemma moved_row_uin [simp]: "ac_uin (moved_row now target a) = target"
  by (simp add: moved_row_def new_account_def)

lemma registered_row_uin [simp]: "ac_uin (registered_row now u via resident rg) = u"
  by (simp add: registered_row_def new_account_def Let_def)

text \<open>A move: the tables it leaves, and that it keeps them in order.\<close>

lemma migration_cases:
  assumes "perform_migration now old target R = (r, R')"
  obtains (stays) e where "r = Inl e" "R' = R"
  | (moves) a where "r = Inr target" "find_account R old = Some a" "target \<notin> account_uins R"
      "R' = delete_account_row old (bump_uin_epoch old (vacate_number old target (rekey_uin_rows old target
        (R\<lparr>accounts := accounts R @ [moved_row now target a]\<rparr>))))"
  using assms by (auto simp: perform_migration_def find_account_None Let_def split: option.splits if_splits)

lemma rekey_deeds_uins: "od_uin ` set (rekey_deeds old new ds) = od_uin ` set ds"
  unfolding rekey_deeds_def set_map image_image by (rule image_cong) simp_all

lemma rekeyed_deed:
  "d \<in> set ds \<Longrightarrow> (if od_owner_uin d = old then d\<lparr>od_owner_uin := new\<rparr> else d) \<in> set (rekey_deeds old new ds)"
  by (auto simp: rekey_deeds_def)

lemma vacate_fields:
  "accounts (vacate_number old t R) = accounts R" "uin_listings (vacate_number old t R) = uin_listings R"
  "uin_holds (vacate_number old t R) = uin_holds R" "spent_vouchers (vacate_number old t R) = spent_vouchers R"
  "owned_uins (vacate_number old t R) = owned_uins R @
     (if old \<notin> od_uin ` set (owned_uins R) \<and> is_reserved_uin old
      then [\<lparr>od_uin = old, od_owner_uin = t, od_source = ''migrated''\<rparr>] else [])"
  by (auto simp: vacate_number_def find_deed_None [symmetric] split: option.splits)

lemma moved_tables:
  fixes now old target a R
  defines "R' \<equiv> delete_account_row old (bump_uin_epoch old (vacate_number old target (rekey_uin_rows old target
        (R\<lparr>accounts := accounts R @ [moved_row now target a]\<rparr>))))"
  shows "accounts R' = filter (\<lambda>x. ac_uin x \<noteq> old) (accounts R @ [moved_row now target a])"
    "uin_listings R' = rekey_listings old target (uin_listings R)"
    "uin_holds R' = uin_holds R" "spent_vouchers R' = spent_vouchers R"
    "owned_uins R' = rekey_deeds old target (owned_uins R) @
       (if old \<notin> od_uin ` set (owned_uins R) \<and> is_reserved_uin old
        then [\<lparr>od_uin = old, od_owner_uin = target, od_source = ''migrated''\<rparr>] else [])"
  by (simp_all add: R'_def delete_account_row_def bump_uin_epoch_def vacate_fields rekey_uin_rows_def rekey_deeds_uins)

lemma migration_ok:
  assumes ok: "registry_ok R" and run: "perform_migration now old target R = (r, R')"
    and free: "\<forall>d \<in> set (owned_uins R). od_uin d = target \<longrightarrow> od_owner_uin d = old"
    and unlisted: "target \<notin> ul_uin ` set (uin_listings R)"
  shows "registry_ok R'"
  using run
proof (cases rule: migration_cases)
  case stays
  then show ?thesis using ok by simp
next
  case (moves a)
  note t = moved_tables [of old target R now a, folded moves(4)]
  have old: "old \<in> account_uins R" using find_account_SomeD [OF moves(2)] by auto
  have ne: "target \<noteq> old" using old moves(3) by auto
  have accts: "account_uins R' = insert target (account_uins R - {old})" using ne by (auto simp: t)
  have "unique_key ac_uin (accounts R')"
    unfolding t(1) using ok moves(3) by (intro unique_key_filter) (auto simp: registry_ok_def unique_key_append)
  moreover have "unique_key od_uin (owned_uins R')"
    unfolding t(5) using ok
    by (auto simp: registry_ok_def unique_key_append rekey_deeds_uins) (auto simp: rekey_deeds_def unique_key_map_same)
  moreover have "unique_key ul_uin (uin_listings R')"
    unfolding t(2) rekey_listings_def using ok by (simp add: unique_key_map_same registry_ok_def)
  moreover have "deeds_ok R'"
    using ok free ne unfolding registry_ok_def deeds_ok_def accts t(5) by (auto simp: list_all_iff rekey_deeds_def)
  moreover have "listings_ok R'"
  proof -
    have "list_ex (\<lambda>d. od_uin d = ul_uin l \<and> od_owner_uin d = (if ul_seller_uin l = old then target else ul_seller_uin l))
        (owned_uins R')" if l: "l \<in> set (uin_listings R)" for l
    proof -
      obtain d where "d \<in> set (owned_uins R)" "od_uin d = ul_uin l" "od_owner_uin d = ul_seller_uin l"
        using l ok unfolding registry_ok_def listings_ok_def list_all_iff list_ex_iff by blast
      moreover define d' where "d' = (if od_owner_uin d = old then d\<lparr>od_owner_uin := target\<rparr> else d)"
      ultimately have "d' \<in> set (owned_uins R')" "od_uin d' = ul_uin l"
          "od_owner_uin d' = (if ul_seller_uin l = old then target else ul_seller_uin l)"
        using rekeyed_deed [of d "owned_uins R" old target] by (simp_all add: t(5))
      then show ?thesis unfolding list_ex_iff by blast
    qed
    moreover have "ul_uin l \<notin> account_uins R'" if "l \<in> set (uin_listings R)" for l
      using that ok unlisted unfolding registry_ok_def listings_ok_def list_all_iff accts by blast
    ultimately show ?thesis unfolding listings_ok_def t(2) rekey_listings_def list_all_iff set_map ball_simps
      by (simp add: if_distrib [of ul_uin] if_distrib [of ul_seller_uin] cong: if_cong)
  qed
  ultimately show ?thesis using ok by (simp add: registry_ok_def t)
qed

lemma take_number_ok:
  assumes ok: "registry_ok R" and me: "owner \<in> account_uins R"
    and new: "\<not> switch \<Longrightarrow> target \<notin> account_uins R"
    and free: "switch \<Longrightarrow> \<forall>d \<in> set (owned_uins R). od_uin d = target \<longrightarrow> od_owner_uin d = owner"
    and unlisted: "switch \<Longrightarrow> target \<notin> ul_uin ` set (uin_listings R)"
  shows "registry_ok (snd (take_number now owner target switch source R))"
proof (cases switch)
  case True
  obtain r R' where m: "perform_migration now owner target R = (r, R')" by (rule prod.exhaust)
  show ?thesis using migration_ok [OF ok m free unlisted] True ok
    by (cases r) (simp_all add: take_number_def m)
next
  case False
  then show ?thesis using registry_ok_new_deed [OF ok new _ me] ok
    by (simp add: take_number_def Let_def find_deed_None)
qed

lemma no_deed_free: "target \<notin> od_uin ` set (owned_uins R) \<Longrightarrow>
    \<forall>d \<in> set (owned_uins R). od_uin d = target \<longrightarrow> od_owner_uin d = owner"
  by auto

lemma deed_free:
  assumes "registry_ok R" "d \<in> set (owned_uins R)" "od_uin d = target" "od_owner_uin d = owner"
  shows "\<forall>d \<in> set (owned_uins R). od_uin d = target \<longrightarrow> od_owner_uin d = owner"
  using assms unfolding registry_ok_def unique_key_def distinct_map by (blast dest: inj_onD)

lemma untaken_parts:
  assumes "registry_ok R" "\<not> uin_is_taken now u x b R"
  shows "u \<notin> account_uins R" "\<forall>d \<in> set (owned_uins R). od_uin d = u \<longrightarrow> od_owner_uin d = owner"
    "u \<notin> ul_uin ` set (uin_listings R)" "u \<notin> od_uin ` set (owned_uins R)"
  using untaken [OF assms(2)] listed_has_deed(1) [OF assms(1)] by blast+

lemma is_account: "find_account R u = Some a \<Longrightarrow> u \<in> account_uins R"
  using find_account_SomeD by blast

lemma claim_ok:
  assumes ok: "registry_ok R"
  shows "registry_ok (snd (claim env now me target switch R))"
proof -
  have "registry_ok (snd (take_number now me target switch src R))"
    if "find_account R me = Some a" "\<not> uin_is_taken now target None False R" for a src
    by (rule take_number_ok [OF ok is_account [OF that(1)] untaken_parts(1,2,3) [OF ok that(2)]])
  then show ?thesis using ok by (cases switch) (simp_all add: claim_def split: option.split)
qed

lemma activate_ok:
  assumes ok: "registry_ok R"
  shows "registry_ok (snd (activate now me target R))"
proof -
  have "registry_ok (snd (take_number now me target True src R))"
    if "find_listing R target = None" "find_deed R target = Some d" "od_owner_uin d = me" "find_account R me = Some a"
    for d a src
    using take_number_ok [OF ok is_account [OF that(4)], of True] deed_free [OF ok] find_deed_SomeD [OF that(2)]
      that(1,3) find_listing_None by blast
  then show ?thesis using ok by (simp add: activate_def split: option.split)
qed

lemma account_migrate_ok:
  assumes ok: "registry_ok R" and draws: "allocate_attempts \<le> length draws"
  shows "registry_ok (snd (account_migrate now draws me R))"
proof (cases "allocate_uin now draws R")
  case (Inr u)
  obtain r R' where m: "perform_migration now me u R = (r, R')" by (rule prod.exhaust)
  have f: "\<not> uin_is_taken now u None False R" using allocate_usable [OF draws Inr] by (simp add: usable_def)
  show ?thesis using migration_ok [OF ok m untaken_parts(2,3) [OF ok f]] ok
    by (simp add: account_migrate_def m Inr split: option.split)
qed (use ok in \<open>simp add: account_migrate_def split: option.split\<close>)

text \<open>Rows that leave take nothing with them that a remaining row rests on.\<close>

lemma backed_filter:
  assumes "list_ex q ds" "\<And>d. d \<in> set ds \<Longrightarrow> q d \<Longrightarrow> p d"
  shows "list_ex q (filter p ds)"
  using assms by (auto simp: list_ex_iff)

lemma registry_ok_drop_deed:
  assumes ok: "registry_ok R" and unlisted: "u \<notin> ul_uin ` set (uin_listings R)"
  shows "registry_ok (R\<lparr>owned_uins := filter (\<lambda>d. od_uin d \<noteq> u) (owned_uins R)\<rparr>)"
proof -
  have "list_ex (\<lambda>d. od_uin d = ul_uin l \<and> od_owner_uin d = ul_seller_uin l) (filter (\<lambda>d. od_uin d \<noteq> u) (owned_uins R))"
    if "l \<in> set (uin_listings R)" for l
    using that ok unlisted by (intro backed_filter) (auto simp: registry_ok_def listings_ok_def list_all_iff)
  then show ?thesis using ok by (simp add: registry_ok_def deeds_ok_def listings_ok_def unique_key_filter list_all_iff)
qed

lemma release_ok: "registry_ok R \<Longrightarrow> registry_ok (snd (release_number me u R))"
  by (simp add: release_number_def registry_ok_drop_deed find_listing_None split: option.split)

lemma delist_ok: "registry_ok R \<Longrightarrow> registry_ok (snd (delete_listing now me u R))"
  by (simp add: delete_listing_def registry_ok_drop_listing split: option.split)

lemma purge_ok:
  assumes ok: "registry_ok R"
  shows "registry_ok (purge_account u R)"
proof -
  have "list_ex (\<lambda>d. od_uin d = ul_uin l \<and> od_owner_uin d = ul_seller_uin l) (filter (\<lambda>d. od_owner_uin d \<noteq> u) (owned_uins R))"
    if "l \<in> set (uin_listings R)" "ul_seller_uin l \<noteq> u" for l
    using that ok by (intro backed_filter) (auto simp: registry_ok_def listings_ok_def list_all_iff)
  then show ?thesis using ok
    by (simp add: purge_account_def delete_account_row_def bump_uin_epoch_def registry_ok_def deeds_ok_def
        listings_ok_def unique_key_filter list_all_iff) blast
qed

lemma listing_backed:
  assumes "registry_ok R" "l \<in> set (uin_listings R)"
  obtains d where "d \<in> set (owned_uins R)" "od_uin d = ul_uin l" "od_owner_uin d = ul_seller_uin l"
  using assms unfolding registry_ok_def listings_ok_def list_all_iff list_ex_iff by blast

lemma create_listing_ok:
  assumes ok: "registry_ok R"
  shows "registry_ok (snd (create_listing env now me target price payout fresh R))"
proof -
  have new: "registry_ok (R\<lparr>uin_listings := uin_listings R @ [\<lparr>ul_uin = target, ul_seller_uin = me, ul_listing_id = i,
      ul_price_cents = p, ul_payout = w\<rparr>]\<rparr>)"
    if "find_listing R target = None" "find_deed R target = Some d" "od_owner_uin d = me" "target \<noteq> me" for d i p w
  proof -
    have "target \<notin> account_uins R"
      using ok find_deed_SomeD [OF that(2)] that(3,4) by (auto simp: registry_ok_def deeds_ok_def list_all_iff)
    moreover have "list_ex (\<lambda>d. od_uin d = target \<and> od_owner_uin d = me) (owned_uins R)"
      using find_deed_SomeD [OF that(2)] that(3) by (auto simp: list_ex_iff)
    ultimately show ?thesis using ok that(1) find_listing_None [of R target]
      by (simp add: registry_ok_def deeds_ok_def listings_ok_def unique_key_append)
  qed
  have edit: "registry_ok (R\<lparr>uin_listings := map (\<lambda>x. if ul_uin x = target
      then l\<lparr>ul_price_cents := p, ul_payout := w, ul_listing_id := i\<rparr> else x) (uin_listings R)\<rparr>)"
    if "find_listing R target = Some l" for l p w i
  proof -
    have l: "l \<in> set (uin_listings R)" "ul_uin l = target"
      using get_row_Some_memD [of "\<lambda>l. ul_uin l = target" "uin_listings R" l] that by (simp_all add: find_listing_def)
    show ?thesis using ok l
      by (auto simp: registry_ok_def deeds_ok_def listings_ok_def unique_key_map_same list_all_iff)
  qed
  show ?thesis using ok new edit by (simp add: create_listing_def Let_def split: option.split)
qed

lemma till_hold_ok:
  assumes ok: "registry_ok R"
  shows "registry_ok (snd (till_hold env now request R))"
proof -
  have "registry_ok (R\<lparr>uin_holds := uin_holds R @ [\<lparr>uh_uin = u, uh_hold_id = i, uh_expires_at = t\<rparr>]\<rparr>)"
    if "find_hold R u = None" for u i t
    using ok that by (intro registry_ok_holds) (simp_all add: registry_ok_def unique_key_append find_hold_None)
  moreover have "registry_ok (R\<lparr>uin_holds := map (\<lambda>h. if uh_uin h = u then h\<lparr>uh_expires_at := t\<rparr> else h) (uin_holds R)\<rparr>)"
    for u t using ok by (intro registry_ok_holds) (simp_all add: registry_ok_def unique_key_map_same)
  ultimately show ?thesis using ok registry_ok_drop_hold
    by (simp add: till_hold_def Let_def split: sum.split prod.split option.split)
qed

lemma admin_ok:
  assumes ok: "registry_ok R"
  shows "registry_ok (snd (admin_hold_uin now u hold_id minutes R))"
    "registry_ok (snd (admin_release_hold u R))"
    "registry_ok (snd (admin_remove_listing now u R))"
    "registry_ok (snd (admin_grant_uin now u to R))"
proof -
  show "registry_ok (snd (admin_hold_uin now u hold_id minutes R))"
    unfolding admin_hold_uin_def using ok
    by (auto simp: Let_def registry_ok_def deeds_ok_def listings_ok_def intro!: unique_key_upsert)
  show "registry_ok (snd (admin_release_hold u R))" by (simp add: admin_release_hold_def registry_ok_drop_hold ok)
  show "registry_ok (snd (admin_remove_listing now u R))"
    using ok by (simp add: admin_remove_listing_def registry_ok_drop_listing split: option.split)
  show "registry_ok (snd (admin_grant_uin now u to R))"
    using ok by (simp add: admin_grant_uin_def registry_ok_new_deed find_account_None find_deed_None)
qed

text \<open>A sale between two holders, before the buyer moves in.\<close>

abbreviation transferred :: "uin_listing \<Rightarrow> uin \<Rightarrow> deed list \<Rightarrow> deed list" where
  "transferred l me ds \<equiv> map (\<lambda>d. if od_uin d = ul_uin l \<and> od_owner_uin d = ul_seller_uin l
     then d\<lparr>od_owner_uin := me, od_source := ''purchase''\<rparr> else d) ds"

abbreviation sold :: "uin_listing \<Rightarrow> uin \<Rightarrow> registry \<Rightarrow> registry" where
  "sold l me R \<equiv> drop_hold (ul_uin l) (drop_listing (ul_uin l) (R\<lparr>owned_uins := transferred l me (owned_uins R)\<rparr>))"

lemma sold_fields:
  "accounts (sold l me R) = accounts R" "owned_uins (sold l me R) = transferred l me (owned_uins R)"
  "uin_listings (sold l me R) = filter (\<lambda>x. ul_uin x \<noteq> ul_uin l) (uin_listings R)"
  "spent_vouchers (sold l me R) = spent_vouchers R" "uin_epochs (sold l me R) = uin_epochs R"
  by (simp_all add: drop_hold_def drop_listing_def)

lemma registry_ok_sold:
  assumes ok: "registry_ok R" and l: "l \<in> set (uin_listings R)" and me: "me \<in> account_uins R"
  shows "registry_ok (sold l me R)"
proof -
  have "ul_uin l \<notin> account_uins R" using listed_has_deed(2) [OF ok] l by blast
  then have "deeds_ok (sold l me R)"
    using ok me unfolding deeds_ok_def sold_fields by (auto simp: registry_ok_def deeds_ok_def list_all_iff)
  moreover have "list_ex (\<lambda>d. od_uin d = ul_uin x \<and> od_owner_uin d = ul_seller_uin x) (transferred l me (owned_uins R))"
    if x: "x \<in> set (uin_listings R)" "ul_uin x \<noteq> ul_uin l" for x
  proof -
    obtain d where "d \<in> set (owned_uins R)" "od_uin d = ul_uin x" "od_owner_uin d = ul_seller_uin x"
      by (rule listing_backed [OF ok x(1)])
    then show ?thesis using x(2) by (force simp: list_ex_iff)
  qed
  then have "listings_ok (sold l me R)"
    using ok unfolding listings_ok_def sold_fields by (simp add: registry_ok_def listings_ok_def list_all_iff)
  ultimately show ?thesis using ok unfolding registry_ok_def sold_fields
    by (simp add: unique_key_map_same unique_key_filter) (simp add: drop_hold_def drop_listing_def unique_key_filter)
qed

lemma sold_moves:
  assumes ok: "registry_ok R" and l: "l \<in> set (uin_listings R)" and me: "me \<in> account_uins R"
  shows "registry_ok (snd (take_number now me (ul_uin l) True src (sold l me R)))"
proof (rule take_number_ok)
  show "registry_ok (sold l me R)" by (rule registry_ok_sold [OF assms])
  show "me \<in> account_uins (sold l me R)" using me by (simp add: sold_fields)
  obtain d where d: "d \<in> set (owned_uins R)" "od_uin d = ul_uin l" "od_owner_uin d = ul_seller_uin l"
    by (rule listing_backed [OF ok l])
  then show "\<forall>d \<in> set (owned_uins (sold l me R)). od_uin d = ul_uin l \<longrightarrow> od_owner_uin d = me"
    using deed_free [OF ok d] unfolding sold_fields by auto
  show "ul_uin l \<notin> ul_uin ` set (uin_listings (sold l me R))" by (auto simp: sold_fields)
qed simp

lemma spend_fields:
  assumes "spend_nonce n R = Some R'"
  shows "accounts R' = accounts R" "owned_uins R' = owned_uins R" "uin_listings R' = uin_listings R"
    "uin_holds R' = uin_holds R" "spent_vouchers R' = spent_vouchers R @ [n]" "n \<notin> set (spent_vouchers R)"
  using assms by (auto simp: spend_nonce_def split: if_splits)

lemma redeem_resale_ok:
  assumes ok: "registry_ok R" and l: "l \<in> set (uin_listings R)" and me: "me \<in> account_uins R"
  shows "registry_ok (snd (redeem_resale env now me l voucher switch R))"
proof -
  have 1: "registry_ok R1" "l \<in> set (uin_listings R1)" "me \<in> account_uins R1" if "spend_nonce n R = Some R1" for n R1
    using registry_ok_spend [OF ok that] l me spend_fields [OF that] by simp_all
  have "registry_ok (sold l me R1)" if "spend_nonce n R = Some R1" for n R1
    by (rule registry_ok_sold [OF 1 [OF that]])
  moreover have "registry_ok R2"
    if "spend_nonce n R = Some R1" "take_number now me (ul_uin l) True src (sold l me R1) = (r, R2)" for n R1 R2 r src
    using sold_moves [OF 1 [OF that(1)], of now src] that(2) by simp
  ultimately show ?thesis using ok unfolding redeem_resale_def
    by (auto simp: Let_def split: sum.split prod.split option.split)
qed

text \<open>A sale by the till: the number is nobody's.\<close>

abbreviation bought :: "uin \<Rightarrow> uin \<Rightarrow> bool \<Rightarrow> registry \<Rightarrow> registry" where
  "bought me target switch R \<equiv> (let R2 = drop_hold target R
     in if switch then R2\<lparr>owned_uins := owned_uins R2 @
          [\<lparr>od_uin = target, od_owner_uin = me, od_source = ''purchase''\<rparr>]\<rparr> else R2)"

lemma bought_moves:
  assumes ok: "registry_ok R" and me: "me \<in> account_uins R"
    and free: "target \<notin> account_uins R" "target \<notin> od_uin ` set (owned_uins R)"
  shows "registry_ok (snd (take_number now me target switch src (bought me target switch R)))"
proof (rule take_number_ok)
  have "registry_ok (drop_hold target R)" by (rule registry_ok_drop_hold [OF ok])
  from registry_ok_new_deed [OF this, of target me "''purchase''"] this
  show "registry_ok (bought me target switch R)" using me free by (simp add: drop_hold_def Let_def)
  show "me \<in> account_uins (bought me target switch R)" using me by (simp add: drop_hold_def Let_def)
  show "target \<notin> account_uins (bought me target switch R)" using free(1) by (simp add: drop_hold_def Let_def)
  show "\<forall>d \<in> set (owned_uins (bought me target switch R)). od_uin d = target \<longrightarrow> od_owner_uin d = me"
    using free(2) by (auto simp: drop_hold_def Let_def)
  show "target \<notin> ul_uin ` set (uin_listings (bought me target switch R))"
    using listed_has_deed(1) [OF ok] free(2) by (auto simp: drop_hold_def Let_def)
qed

lemma find_listing_SomeD: "find_listing R u = Some l \<Longrightarrow> l \<in> set (uin_listings R) \<and> ul_uin l = u"
  unfolding find_listing_def by (rule get_row_Some_memD)

lemma redeem_ok:
  assumes ok: "registry_ok R"
  shows "registry_ok (snd (redeem env now me target voucher switch R))"
proof -
  have "registry_ok R2"
    if f: "find_account R me = Some a" and u: "\<not> uin_is_taken now target None True R" and n: "spend_nonce n R = Some R1"
      and t: "take_number now me target switch src (bought me target switch R1) = (r, R2)" for a n R1 R2 r src
    using bought_moves [of R1 me target now switch src] registry_ok_spend [OF ok n] spend_fields [OF n] untaken [OF u]
      is_account [OF f] t by simp
  moreover have "registry_ok (snd (redeem_resale env now me l voucher switch R))"
    if "find_account R me = Some a" "find_listing R target = Some l" for a l
    using redeem_resale_ok [OF ok _ is_account [OF that(1)]] find_listing_SomeD [OF that(2)] by blast
  ultimately show ?thesis using ok unfolding redeem_def
    by (cases switch) (auto simp: Let_def split: sum.split prod.split option.split)
qed

lemma open_door_ok:
  assumes ok: "registry_ok R" and run: "open_door env hash now policy field R = Inr (via, resident, reserved, R1)"
  shows "registry_ok R1"
proof -
  have inv: "registry_ok R'" if "consume_invite now h need R = Some (u, R')" for h need u R'
    using that ok by (auto simp: consume_invite_def registry_ok_invites split: option.splits)
  have spent: "registry_ok R'" if "spend_nonce n R = Some R'" for n R' by (rule registry_ok_spend [OF ok that])
  show ?thesis using run ok unfolding open_door_def Let_def
    by (auto split: if_splits sum.splits option.splits voucher_error.splits dest: inv spent)
qed

lemma choose_uin_free:
  assumes "allocate_attempts \<le> length draws" "choose_uin now h reserved proven desired tenure draws R = Inr u"
  shows "\<exists>x. \<not> uin_is_taken now u x False R"
proof -
  have "\<not> uin_is_taken now v None False R" if "allocate_uin now draws R = Inr v" for v
    using allocate_usable [OF assms(1) that] by (simp add: usable_def)
  then show ?thesis using assms(2) by (auto simp: choose_uin_def split: option.splits if_splits)
qed

lemma register_cases:
  assumes "register_account env hash now policy rg revoked draws R = (r, R')"
  obtains (refuses) e where "r = Inl e" "R' = R"
  | (converts) via resident R1 g where "open_door env hash now policy (rg_invite rg) R = Inr (via, resident, None, R1)"
      "g \<in> set (accounts R1)" "ac_guest_status g \<noteq> None" "rg_proven rg" "\<not> revoked (ac_uin g)"
      "r = Inr (ac_uin g, via, resident, True)" "R' = convert_guest now (rg_identity_key rg) resident (ac_uin g) R1"
  | (creates) via resident reserved R1 h u where "open_door env hash now policy (rg_invite rg) R = Inr (via, resident, reserved, R1)"
      "choose_uin now h reserved (rg_proven rg) (rg_desired rg) (rg_tenure rg) draws R1 = Inr u"
      "r = Inr (u, via, resident, False)" "R' = R1\<lparr>accounts := accounts R1 @ [registered_row now u via resident rg]\<rparr>"
      "rg_proven rg \<or> \<not> list_ex (\<lambda>a. ac_signing_key a = rg_signing_key rg) (accounts R)"
proof (cases "\<not> rg_proven rg \<and> list_ex (\<lambda>a. ac_signing_key a = rg_signing_key rg) (accounts R)")
  case True
  then show ?thesis using assms refuses by (auto simp: register_account_def)
next
  case key: False
  show ?thesis
  proof (cases "open_door env hash now policy (rg_invite rg) R")
    case (Inl e)
    then show ?thesis using assms refuses key by (auto simp: register_account_def)
  next
    case (Inr door)
    obtain via resident reserved R1 where d: "door = (via, resident, reserved, R1)" by (cases door) auto
    define guest where "guest = (if rg_proven rg then
        (case decode_key32 (rg_signing_key rg) of None \<Rightarrow> None | Some raw \<Rightarrow> row_for_key R1 raw True) else None)"
    have run: "(r, R') = (case guest of
        Some g \<Rightarrow>
          if reserved \<noteq> None then (Inl (refused 409 ''invite_has_number''), R)
          else if revoked (ac_uin g) then (Inl (refused 401 ''device_revoked''), R)
          else (Inr (ac_uin g, via, resident, True), convert_guest now (rg_identity_key rg) resident (ac_uin g) R1)
      | None \<Rightarrow>
          (case choose_uin now (if strip (rg_invite rg) = [] then [] else hash (strip (rg_invite rg))) reserved
                  (rg_proven rg) (rg_desired rg) (rg_tenure rg) draws R1 of
             Inl e \<Rightarrow> (Inl e, R)
           | Inr u \<Rightarrow> (Inr (u, via, resident, False),
               R1\<lparr>accounts := accounts R1 @ [registered_row now u via resident rg]\<rparr>)))"
      using assms unfolding register_account_def Let_def if_not_P [OF key] Inr d guest_def by simp
    show ?thesis
    proof (cases guest)
      case None
      then show ?thesis using run key refuses creates [OF Inr [unfolded d]] by (auto split: sum.splits)
    next
      case (Some g)
      then have "g \<in> set (accounts R1)" "ac_guest_status g \<noteq> None" "rg_proven rg"
        by (auto simp: guest_def row_for_key_def split: if_splits option.splits dest: first_claim_mem)
      then show ?thesis using run Some refuses converts Inr d by (auto split: if_splits)
    qed
  qed
qed

lemma register_ok:
  assumes ok: "registry_ok R" and draws: "allocate_attempts \<le> length draws"
  shows "registry_ok (snd (register_account env hash now policy rg revoked draws R))"
proof -
  obtain r R' where run: "register_account env hash now policy rg revoked draws R = (r, R')" by (rule prod.exhaust)
  then have "registry_ok R'"
  proof (cases rule: register_cases)
    case (converts via resident R1 g)
    then show ?thesis using registry_ok_accounts [OF open_door_ok [OF ok converts(1)]] convert_guest_tables by simp
  next
    case (creates via resident reserved R1 h u)
    obtain x where "\<not> uin_is_taken now u x False R1" using choose_uin_free [OF draws creates(2)] by blast
    then show ?thesis unfolding creates(4)
      using registry_ok_new_account [OF open_door_ok [OF ok creates(1)] registered_row_uin] untaken by blast
  qed (use ok in simp)
  then show ?thesis using run by simp
qed

lemma shop_step_ok:
  assumes "shop_step env hash now R R'" "registry_ok R"
  shows "registry_ok R'"
  using assms
  by (induction rule: shop_step.induct)
    (simp_all only: claim_ok redeem_ok activate_ok release_ok account_migrate_ok create_listing_ok delist_ok till_hold_ok
      admin_ok registry_ok_invites register_ok purge_ok)

interpretation shop_life: step_invariant "(=) empty_registry" "shop_moves env hash" registry_ok for env hash
  by unfold_locales (auto simp: registry_ok_def deeds_ok_def listings_ok_def empty_registry_def unique_key_def
      dest: shop_step_ok)

text \<open>
  C9. One number, one holder. Whatever the order of registrations, claims, purchases, moves, listings,
  holds, operator actions and deletions, a number is the identity of at most one account and in
  the collection of at most one, never both for different people; a collection always belongs to
  an account that exists; an offer is always of a number that its seller holds and nobody answers
  as; and no voucher is recorded as spent twice.
\<close>

theorem number_one_holder:
  assumes "reachable ((=) empty_registry) (shop_moves env hash) R"
  shows "distinct (map ac_uin (accounts R)) \<and> distinct (map od_uin (owned_uins R)) \<and>
    distinct (map ul_uin (uin_listings R)) \<and> distinct (map uh_uin (uin_holds R)) \<and> distinct (spent_vouchers R) \<and>
    (\<forall>d \<in> set (owned_uins R). od_owner_uin d \<in> account_uins R \<and>
       (od_uin d \<in> account_uins R \<longrightarrow> od_owner_uin d = od_uin d)) \<and>
    (\<forall>l \<in> set (uin_listings R). ul_uin l \<notin> account_uins R \<and>
       (\<exists>d \<in> set (owned_uins R). od_uin d = ul_uin l \<and> od_owner_uin d = ul_seller_uin l))"
  using shop_life.reachable_inv [OF assms]
  by (simp add: registry_ok_def unique_key_def deeds_ok_def listings_ok_def list_all_iff list_ex_iff)

lemma settled_reachable: "reachable ((=) empty_registry) (shop_moves sale_env id) settled"
proof -
  have "shop_moves sale_env id empty_registry invited"
    using operator_invites [of "''key''" empty_registry sale_env id 0 1 "Some 7" None]
    by (intro exI [of _ 0]) (simp add: invited_def empty_registry_def)
  moreover have "shop_moves sale_env id invited settled"
    unfolding settled_def by (rule exI, rule registers) (simp add: some_draws_def)
  ultimately show ?thesis by (blast intro: reachable.intros)
qed

theorem number_one_holder_witness:
  "map od_uin (owned_uins bought_100) = [100] \<and> od_owner_uin ` set (owned_uins bought_100) \<subseteq> account_uins bought_100 \<and>
   account_uins bought_100 = {7}"
proof -
  have "reachable ((=) empty_registry) (shop_moves sale_env id) bought_100"
    unfolding bought_100_def by (rule reachable.next_state [OF settled_reachable], rule exI, rule redeems)
  moreover have "map od_uin (owned_uins bought_100) = [100]" "map ac_uin (accounts bought_100) = [7]" by code_simp+
  then have "account_uins bought_100 = {7}" by (metis list.set(1) list.set(2) list.set_map)
  ultimately show ?thesis using number_one_holder [of sale_env id bought_100]
    by (auto simp: \<open>map od_uin _ = _\<close>)
qed

section \<open>A voucher pays once\<close>

definition voucher_nonce :: "till \<Rightarrow> string \<Rightarrow> voucher_error + string" where
  "voucher_nonce t w = bind_err (open_document t w) (str_field t ''nonce'')"

lemma nonce_of:
  "verify t w u now = Inr n \<Longrightarrow> voucher_nonce t w = Inr n"
  "verify_resale t w u now = Inr (n, l, c) \<Longrightarrow> voucher_nonce t w = Inr n"
  "verify_entry t w h now = Inr n \<Longrightarrow> voucher_nonce t w = Inr n"
  by (auto simp: verify_def verify_resale_def verify_entry_def voucher_nonce_def)

lemma stripped_start:
  "dropWhile P (rev (dropWhile P (rev (dropWhile P s)))) = rev (dropWhile P (rev (dropWhile P s)))"
proof (cases "dropWhile P s")
  case Nil
  show ?thesis unfolding Nil by simp
next
  case (Cons x xs)
  then have x: "\<not> P x" by (simp add: dropWhile_eq_Cons_conv)
  then have "\<exists>ys. dropWhile P (zs @ [x]) = ys @ [x]" for zs by (induction zs) auto
  then obtain ys where "dropWhile P (rev xs @ [x]) = ys @ [x]" by blast
  with Cons x show ?thesis by simp
qed

lemma strip_strip: "strip (strip s) = strip s"
  by (simp add: strip_def stripped_start)

lemma voucher_nonce_strip: "voucher_nonce t (strip w) = voucher_nonce t w"
  by (simp add: voucher_nonce_def open_document_def strip_strip)

lemma migration_spends: "perform_migration now old t R = (r, R') \<Longrightarrow> spent_vouchers R' = spent_vouchers R"
  by (erule migration_cases) (simp_all add: moved_tables(4))

lemma take_number_spends: "take_number now owner t switch src R = (r, R') \<Longrightarrow> spent_vouchers R' = spent_vouchers R"
  by (auto simp: take_number_def Let_def split: if_splits prod.splits sum.splits dest: migration_spends)

lemma spend_nonce_Some: "spend_nonce n R = Some R' \<longleftrightarrow> n \<notin> set (spent_vouchers R) \<and> R' = R\<lparr>spent_vouchers := spent_vouchers R @ [n]\<rparr>"
  by (auto simp: spend_nonce_def)

lemma redeem_resale_spends:
  assumes "redeem_resale env now me l w switch R = (r, R')"
  shows "(\<exists>n. voucher_nonce (sh_till env) w = Inr n \<and> n \<notin> set (spent_vouchers R) \<and>
      spent_vouchers R' = spent_vouchers R @ [n]) \<or>
    (\<exists>e. r = Inl e) \<and> R' = R"
  using assms unfolding redeem_resale_def
  by (auto simp: Let_def drop_hold_def drop_listing_def spend_nonce_Some split: if_splits sum.splits prod.splits option.splits
      dest!: nonce_of(2) take_number_spends)

lemma redeem_spends:
  assumes "redeem env now me target w switch R = (r, R')"
  shows "(\<exists>n. voucher_nonce (sh_till env) w = Inr n \<and> n \<notin> set (spent_vouchers R) \<and>
      spent_vouchers R' = spent_vouchers R @ [n]) \<or>
    (\<exists>e. r = Inl e) \<and> R' = R"
  using assms unfolding redeem_def
  by (auto simp: Let_def drop_hold_def spend_nonce_Some split: if_splits sum.splits prod.splits option.splits
      dest!: nonce_of(1) redeem_resale_spends take_number_spends)

text \<open>What opening the door leaves behind: a spent voucher, a used invite, or nothing on an open island.\<close>

lemma open_door_cases:
  assumes "open_door env hash now policy field R = Inr (via, resident, reserved, R1)"
  obtains (voucher) n where "via = ''voucher''" "resident"
      "verify_entry (sh_till env) (strip field) (island_host env) (clock_seconds now) = Inr n"
      "spend_nonce n R = Some R1" "reserved = None"
  | (invite) need where "via = ''invite''" "\<not> resident" "strip field \<noteq> []"
      "consume_invite now (hash (strip field)) need R = Some (reserved, R1)"
  | (opened) "via = ''open''" "policy \<notin> {''invite'', ''paid''}" "\<not> resident" "R1 = R" "reserved = None"
  using assms unfolding open_door_def Let_def
  by (auto split: if_splits sum.splits option.splits voucher_error.splits prod.splits)

lemma door_spends:
  assumes "open_door env hash now policy field R = Inr (via, resident, reserved, R1)"
  shows "set (spent_vouchers R) \<subseteq> set (spent_vouchers R1) \<and>
    (via = ''voucher'' \<longrightarrow> (\<exists>n. voucher_nonce (sh_till env) field = Inr n \<and> n \<notin> set (spent_vouchers R) \<and>
        spent_vouchers R1 = spent_vouchers R @ [n]))"
  using assms
proof (cases rule: open_door_cases)
  case (voucher n)
  have "voucher_nonce (sh_till env) field = Inr n" using nonce_of(3) [OF voucher(3)] voucher_nonce_strip by simp
  then show ?thesis using spend_fields(5,6) [OF voucher(4)] by auto
qed (auto simp: consume_invite_def split: option.splits)

lemma register_spends:
  assumes "register_account env hash now policy rg revoked draws R = (r, R')"
  shows "set (spent_vouchers R) \<subseteq> set (spent_vouchers R') \<and>
    (\<forall>u b c. r = Inr (u, ''voucher'', b, c) \<longrightarrow>
      (\<exists>n. voucher_nonce (sh_till env) (rg_invite rg) = Inr n \<and> n \<notin> set (spent_vouchers R) \<and>
        spent_vouchers R' = spent_vouchers R @ [n]))"
  using assms
proof (cases rule: register_cases)
  case (converts via resident R1 g)
  then show ?thesis using door_spends [OF converts(1)] by (simp add: convert_guest_tables)
next
  case (creates via resident reserved R1 h u)
  then show ?thesis using door_spends [OF creates(1)] by simp
qed simp

lemma spends_mono:
  "set (spent_vouchers R) \<subseteq> set (spent_vouchers (snd (redeem env now me target w switch R)))"
  "set (spent_vouchers R) \<subseteq>
     set (spent_vouchers (snd (register_account env hash now policy rg revoked draws R)))"
  "set (spent_vouchers R) \<subseteq> set (spent_vouchers (snd (claim env now me target switch R)))"
  "set (spent_vouchers R) \<subseteq> set (spent_vouchers (snd (activate now me target R)))"
  "set (spent_vouchers R) \<subseteq> set (spent_vouchers (snd (account_migrate now draws me R)))"
  using redeem_spends [of env now me target w switch R, OF surjective_pairing]
    register_spends [of env hash now policy rg revoked draws R, OF surjective_pairing]
  by (auto simp: claim_def activate_def account_migrate_def take_number_spends [OF surjective_pairing]
      migration_spends [OF surjective_pairing] split: option.split sum.split)

lemma shop_step_spends:
  assumes "shop_step env hash now R R'"
  shows "set (spent_vouchers R) \<subseteq> set (spent_vouchers R')"
  using assms
  by (induction rule: shop_step.induct)
    (simp_all add: spends_mono, auto simp: release_number_def create_listing_def delete_listing_def till_hold_def admin_hold_uin_def
      admin_release_hold_def admin_remove_listing_def admin_grant_uin_def purge_account_def delete_account_row_def
      bump_uin_epoch_def drop_hold_def drop_listing_def Let_def split: option.split sum.split prod.split)

lemma shop_run_spends:
  assumes "(shop_moves env hash)\<^sup>*\<^sup>* R R'"
  shows "set (spent_vouchers R) \<subseteq> set (spent_vouchers R')"
  using assms by (induction rule: rtranclp_induct) (blast dest: shop_step_spends)+

text \<open>
  C10. A voucher pays once. When a voucher has bought a number or admitted an account, no later use of
  the same text, by anyone, for any number, at any time and after any other traffic, is accepted:
  not by the shop, and not as an entry voucher at registration.
\<close>

theorem voucher_redeemed_once:
  assumes "redeem env now me target w switch R = (Inr out, R1) \<or>
      register_account env hash now policy rg revoked draws R = (Inr (u, ''voucher'', b, c), R1) \<and> rg_invite rg = w"
    and "(shop_moves env hash)\<^sup>*\<^sup>* R1 R2"
  shows "(\<exists>e. redeem env now' me' target' w switch' R2 = (Inl e, R2)) \<and>
    (rg_invite rg' = w \<longrightarrow> fst (register_account env hash now' policy' rg' revoked' draws' R2) \<noteq> Inr (u', ''voucher'', b', c'))"
proof -
  obtain n where n: "voucher_nonce (sh_till env) w = Inr n" "spent_vouchers R1 = spent_vouchers R @ [n]"
    using assms(1)
  proof
    assume "redeem env now me target w switch R = (Inr out, R1)"
    from redeem_spends [OF this] that show thesis by auto
  next
    assume "register_account env hash now policy rg revoked draws R = (Inr (u, ''voucher'', b, c), R1) \<and> rg_invite rg = w"
    with register_spends [OF conjunct1 [OF this]] that show thesis by auto
  qed
  have spent: "n \<in> set (spent_vouchers R2)" using shop_run_spends [OF assms(2)] n(2) by auto
  show ?thesis
    using redeem_spends [of env now' me' target' w switch' R2, OF surjective_pairing]
      register_spends [of env hash now' policy' rg' revoked' draws' R2, OF surjective_pairing] n(1) spent
    by (cases "redeem env now' me' target' w switch' R2") auto
qed

theorem voucher_redeemed_once_witness:
  "redeem sale_env 50000000 7 100 ''AAAA'' False settled =
     (Inr \<lparr>po_new_uin = Some 7, po_switched = False, po_owned = [100]\<rparr>, bought_100) \<and>
   (\<exists>e. redeem sale_env 51000000 7 100 ''AAAA'' True bought_100 = (Inl e, bought_100))"
proof -
  have "fst (redeem sale_env 50000000 7 100 ''AAAA'' False settled) =
      Inr \<lparr>po_new_uin = Some 7, po_switched = False, po_owned = [100]\<rparr>" by code_simp
  then have r: "redeem sale_env 50000000 7 100 ''AAAA'' False settled =
      (Inr \<lparr>po_new_uin = Some 7, po_switched = False, po_owned = [100]\<rparr>, bought_100)"
    unfolding bought_100_def by (metis prod.collapse)
  show ?thesis using r voucher_redeemed_once [OF disjI1 [OF r] rtranclp.rtrancl_refl] by blast
qed

section \<open>Moving, buying, entering\<close>

definition collection :: "registry \<Rightarrow> uin \<Rightarrow> uin set" where
  "collection R owner = set (map od_uin (filter (\<lambda>d. od_owner_uin d = owner) (owned_uins R)))"

lemma rekeyed_collection:
  "list_all (\<lambda>d. od_owner_uin d \<noteq> new) ds \<Longrightarrow> map od_uin (filter (\<lambda>d. od_owner_uin d = new) (rekey_deeds old new ds)) =
     map od_uin (filter (\<lambda>d. od_owner_uin d = old) ds)"
  by (induction ds) (auto simp: rekey_deeds_def)

lemma other_collections: "other \<noteq> old \<Longrightarrow> other \<noteq> new \<Longrightarrow>
    filter (\<lambda>d. od_owner_uin d = other) (rekey_deeds old new ds) = filter (\<lambda>d. od_owner_uin d = other) ds"
  by (induction ds) (auto simp: rekey_deeds_def)







end
