(* ===== verification/Session_Runs.thy ===== *)
theory Session_Runs
  imports Accounts Shop_Runs
begin

text \<open>
  What a session is worth: the gate on a token the island minted, the exactness of the epoch
  mirror, revocation of a device at the gate and at every door that mints, and the two ways a
  refused bearer comes back. A token is decoded by the library to what was encoded; that is the
  hypothesis \<open>opens\<close>, for the token in question.
\<close>

definition opens :: "crypto \<Rightarrow> claims \<Rightarrow> bool" where
  "opens lib p \<longleftrightarrow> (\<forall>now. jwt_decode lib False now (jwt_encode lib p) = Some p)"

section \<open>Reading a token\<close>

lemma underscored_digits: "(\<And>c. c \<in> set s \<Longrightarrow> is_digit c) \<Longrightarrow> s \<noteq> [] \<or> ok \<Longrightarrow> underscored ok s = Some s"
  by (induction s arbitrary: ok) auto

lemma digit_not_space: "is_digit c \<Longrightarrow> \<not> py_space c"
  by (auto simp: is_digit_def py_space_def)

lemma uin_text_chars: "c \<in> set (show_int u) \<Longrightarrow> is_digit c \<or> c = CHR ''-''"
  by (auto simp: show_int_def dest: show_nat_digits split: if_splits)

lemma strip_show_int: "strip (show_int u) = show_int u"
  by (rule strip_id) (use uin_text_chars digit_not_space in \<open>fastforce simp: py_space_def\<close>)

lemma length_show_nat: "n < 10 ^ Suc k \<Longrightarrow> length (show_nat n) \<le> Suc k"
proof (induction k arbitrary: n)
  case 0
  then show ?case by (subst show_nat.simps) simp
next
  case (Suc k)
  have "n div 10 < 10 ^ Suc k" using Suc.prems by (simp add: less_mult_imp_div_less)
  then have "length (show_nat (n div 10)) \<le> Suc k" by (rule Suc.IH)
  then show ?case by (subst show_nat.simps) auto
qed

text \<open>A number that fits its \<open>BigInteger\<close> column.\<close>

definition big_integer :: "int \<Rightarrow> bool" where
  "big_integer u \<longleftrightarrow> \<bar>u\<bar> < 9223372036854775808"

lemma show_nat_start: "\<exists>c cs. show_nat n = c # cs \<and> is_digit c"
  using show_nat_nonempty [of n] show_nat_digits [of _ n] by (cases "show_nat n") auto

lemma int_of_text_plain:
  assumes "strip s = s" "take 1 s \<noteq> ''-''" "take 1 s \<noteq> ''+''" "underscored False s = Some s"
    "\<not> max_str_digits < length s"
  shows "int_of_text s = Some (int (read_nat 0 s))"
  using assms by (simp only: int_of_text_def Let_def) simp

lemma int_of_text_show:
  assumes "big_integer u"
  shows "int_of_text (show_int u) = Some u"
proof -
  have u: "underscored False (show_nat n) = Some (show_nat n)" for n
    by (rule underscored_digits) (auto dest: show_nat_digits simp: show_nat_nonempty)
  have "length (show_nat (nat \<bar>u\<bar>)) \<le> Suc 18"
    using assms by (intro length_show_nat) (simp add: big_integer_def)
  then have l: "\<not> max_str_digits < length (show_nat (nat \<bar>u\<bar>))" by (simp add: max_str_digits_def)
  show ?thesis
  proof (cases "u < 0")
    case True
    then have "show_int u = CHR ''-'' # show_nat (nat \<bar>u\<bar>)" by (simp add: show_int_def)
    then show ?thesis using u l True strip_show_int [of u]
      by (simp add: int_of_text_def read_show_nat)
  next
    case False
    then have e: "show_int u = show_nat (nat \<bar>u\<bar>)" by (simp add: show_int_def)
    obtain c cs where c: "show_nat (nat \<bar>u\<bar>) = c # cs" "is_digit c" using show_nat_start by blast
    then have "c \<noteq> CHR ''-''" "c \<noteq> CHR ''+''" by (auto simp: is_digit_def)
    then have "take 1 (show_int u) \<noteq> ''-''" "take 1 (show_int u) \<noteq> ''+''" by (simp_all add: e c(1))
    then have "int_of_text (show_int u) = Some (int (read_nat 0 (show_int u)))"
      using u l by (intro int_of_text_plain strip_show_int) (simp_all only: e not_False_eq_True)
    then show ?thesis using False by (simp add: e read_show_nat)
  qed
qed

section \<open>The gate on a minted token\<close>

lemma token_fields:
  "cl_sub (token_claims t u e dev) = Some (show_int u)"
  "cl_dev (token_claims t u e dev) = (if truthy dev then dev else None)"
  "cl_k (token_claims t u e dev) = (if truthy dev then Some ''phone'' else None)"
  "(case cl_ep (token_claims t u e dev) of None \<Rightarrow> 0 | Some x \<Rightarrow> x) = e"
  by (simp_all add: token_claims_def)

lemma device_fields:
  "cl_sub (device_claims t u d e) = Some (show_int u)" "cl_dev (device_claims t u d e) = Some d"
  "cl_k (device_claims t u d e) = None" "cl_exp (device_claims t u d e) = Some (clock_seconds t + device_ttl_seconds)"
  "(case cl_ep (device_claims t u d e) of None \<Rightarrow> 0 | Some x \<Rightarrow> x) = e"
  by (simp_all add: device_claims_def blank_claims_def)

lemma token_payload:
  assumes "opens lib (token_claims t u e dev)"
  shows "decode_session_payload lib now (issue_token lib t u e dev) = Some (token_claims t u e dev)"
proof -
  have "jwt_decode lib False now (issue_token lib t u e dev) = Some (token_claims t u e dev)"
    using assms by (simp add: opens_def issue_token_def)
  moreover have "\<not> (truthy (cl_dev (token_claims t u e dev)) \<and> cl_k (token_claims t u e dev) \<noteq> Some ''phone'')"
    by (auto simp: token_fields truthy_def)
  ultimately show ?thesis by (simp only: decode_session_payload_def option.case if_False)
qed

lemma device_payload:
  assumes "opens lib (device_claims t u d e)" "d \<noteq> []"
  shows "decode_session_payload lib now (issue_device_token lib t u d e)
           = (if seconds (clock_seconds t + device_ttl_seconds) \<le> now then None else Some (device_claims t u d e))"
proof -
  have "jwt_decode lib False now (issue_device_token lib t u d e) = Some (device_claims t u d e)"
    using assms(1) by (simp add: opens_def issue_device_token_def)
  moreover have "truthy (cl_dev (device_claims t u d e)) \<and> cl_k (device_claims t u d e) \<noteq> Some ''phone''"
    using assms(2) by (simp add: device_fields truthy_def)
  ultimately show ?thesis by (simp add: decode_session_payload_def device_fields)
qed

lemma token_uin: "big_integer u \<Longrightarrow> session_uin (token_claims t u e dev) = Some u"
  by (simp add: session_uin_def token_fields int_of_text_show)

text \<open>The gate's answer for an account at an epoch the token names.\<close>

definition gate :: "datetime \<Rightarrow> uin \<Rightarrow> int \<Rightarrow> device option \<Rightarrow> auth \<Rightarrow> uin outcome" where
  "gate now u e dev A =
     (if device_is_revoked now u (if truthy dev then dev else None) A = None then Inl internal_error
      else if device_is_revoked now u (if truthy dev then dev else None) A = Some True
      then Inl (HttpError 401 ''device revoked'' None)
      else if e \<noteq> fst (uin_epoch now u A) then Inl (HttpError 401 ''stale token'' None)
      else if fst (is_suspended now u A) then Inl (refused 403 ''suspended'') else Inr u)"

lemma is_suspended_epochs: "fst (is_suspended now u (A\<lparr>epochs := m\<rparr>)) = fst (is_suspended now u A)"
  by (simp add: is_suspended_def redis_ok_def Let_def)

lemma uin_epoch_state: "\<exists>m. snd (uin_epoch now u A) = A\<lparr>epochs := m\<rparr>"
proof (cases "redis_ok A")
  case False
  then show ?thesis by (intro exI [of _ "epochs A"]) (simp add: uin_epoch_def)
next
  case True
  then show ?thesis
    by (intro exI [of _ "fst (ensure_mirror now (epoch_rows (registry_of A)) (epochs A))"]) (simp add: uin_epoch_def Let_def)
qed

lemma authorize_token:
  assumes "opens lib (token_claims t u e dev)" "big_integer u"
  shows "fst (authorize_session lib now (issue_token lib t u e dev) A) = gate now u e dev A"
proof -
  obtain m where "snd (uin_epoch now u A) = A\<lparr>epochs := m\<rparr>" using uin_epoch_state by blast
  then have s: "fst (is_suspended now u (snd (uin_epoch now u A))) = fst (is_suspended now u A)"
    by (simp add: is_suspended_epochs)
  have "fst (case r of None \<Rightarrow> (Inl internal_error, A) | Some True \<Rightarrow> (Inl x, A)
          | Some False \<Rightarrow> (case uin_epoch now u A of (k, A1) \<Rightarrow> if e \<noteq> k then (Inl y, A1)
              else (case is_suspended now u A1 of (banned, A2) \<Rightarrow> if banned then (Inl z, A2) else (Inr u, A2))))
        = (if r = None then Inl internal_error else if r = Some True then Inl x
           else if e \<noteq> fst (uin_epoch now u A) then Inl y
           else if fst (is_suspended now u A) then Inl z else Inr u)" for r :: "bool option" and x y z
    by (cases r rule: option.exhaust; cases "the r"; cases "uin_epoch now u A"; cases "is_suspended now u (snd (uin_epoch now u A))")
      (use s in auto)
  then show ?thesis
    unfolding authorize_session_def gate_def token_payload [OF assms(1)] option.case token_uin [OF assms(2)] token_fields .
qed

section \<open>The epoch mirror\<close>

text \<open>
  What the mirror answers is the epoch of the table; a mirror never built holds no live marker.
\<close>

definition epochs_positive :: "registry \<Rightarrow> bool" where
  "epochs_positive R \<longleftrightarrow> (\<forall>u e. uin_epochs R u = Some e \<longrightarrow> 0 < e)"

definition mirror_exact :: "auth \<Rightarrow> bool" where
  "mirror_exact A \<longleftrightarrow> epochs_positive (registry_of A) \<and>
     (if mi_built (epochs A) then epoch_in (mi_data (epochs A)) = epoch_in (uin_epochs (registry_of A))
      else mi_loaded_until (epochs A) \<le> 0)"

lemma epoch_rows_exact: "epochs_positive R \<Longrightarrow> epoch_in (epoch_rows R) = epoch_in (uin_epochs R)"
  by (auto simp: epochs_positive_def epoch_in_def epoch_rows_def fun_eq_iff split: option.splits)

lemma uin_epoch_exact:
  assumes "mirror_exact A" "0 \<le> now"
  shows "fst (uin_epoch now u A) = epoch_in (uin_epochs (registry_of A)) u"
    and "mirror_exact (snd (uin_epoch now u A))"
  using assms epoch_rows_exact [of "registry_of A"]
  by (auto simp: uin_epoch_def Let_def mirror_exact_def ensure_mirror_def build_mirror_def split: if_splits)

lemma load_epochs_exact:
  "epochs_positive (registry_of A) \<Longrightarrow> mirror_exact (load_epochs now (epoch_rows (registry_of A)) A)"
  by (simp add: load_epochs_def mirror_exact_def build_mirror_def epoch_rows_exact)

lemma bump_epoch_in: "epoch_in (uin_epochs (bump_uin_epoch u R)) v
    = (if v = u then epoch_in (uin_epochs R) u + 1 else epoch_in (uin_epochs R) v)"
  by (auto simp: bump_uin_epoch_def epoch_in_def split: option.splits)

lemma bump_positive: "epochs_positive R \<Longrightarrow> epochs_positive (bump_uin_epoch u R)"
  by (auto simp: bump_uin_epoch_def epochs_positive_def less_imp_le split: option.splits if_splits)

text \<open>A bump that is written through leaves the mirror exact.\<close>

lemma cache_epoch_exact:
  assumes "mirror_exact A" "redis_ok A" "uin_epochs R' = uin_epochs (bump_uin_epoch u (registry_of A))"
  shows "mirror_exact (cache_uin_epoch u (epoch_in (uin_epochs R') u) (A\<lparr>registry_of := R'\<rparr>))"
proof -
  have "epochs_positive R'" using assms(1,3) bump_positive by (auto simp: mirror_exact_def epochs_positive_def)
  moreover have "epoch_in ((mi_data (epochs A))(u \<mapsto> epoch_in (uin_epochs R') u)) = epoch_in (uin_epochs R')"
    if "epoch_in (mi_data (epochs A)) = epoch_in (uin_epochs (registry_of A))"
    unfolding assms(3) using that by (auto simp: fun_eq_iff bump_epoch_in) (auto simp: epoch_in_def fun_eq_iff)
  ultimately show ?thesis using assms(1,2) by (auto simp: mirror_exact_def cache_uin_epoch_def redis_ok_def)
qed

section \<open>Rotation\<close>

lemma bump_stat_keeps:
  "redis_up (bump_stat now n s) = redis_up s" "users (bump_stat now n s) = users s"
  "queue_cursors (bump_stat now n s) = queue_cursors s" "linked_devices (bump_stat now n s) = linked_devices s"
  by (simp_all add: bump_stat_def Let_def)

lemma set_nx_keeps:
  "set_nx now key ttl A = Some (True, A') \<Longrightarrow>
     A' = A\<lparr>nx_keys := (nx_keys A)(key \<mapsto> now + seconds ttl)\<rparr> \<and> redis_ok A \<and>
     (\<forall>until. nx_keys A key = Some until \<longrightarrow> until \<le> now)"
  by (auto simp: set_nx_def split: if_splits option.splits)

text \<open>What a proof must be to be accepted for the row \<open>a\<close> and the new keys.\<close>

definition accepted_proof ::
  "crypto \<Rightarrow> datetime \<Rightarrow> string list \<Rightarrow> account \<Rightarrow> nat list \<Rightarrow> nat list \<Rightarrow> uin list \<Rightarrow> auth \<Rightarrow> reissue_proof \<Rightarrow> bool" where
  "accepted_proof lib now names a new_ik new_sk taken A p \<longleftrightarrow>
     xp_version p = reissue_version \<and> xp_host p \<in> set names \<and>
     key_bytes_or_none (ac_signing_key a) = Some (xp_old_key p) \<and>
     \<bar>clock_seconds now - xp_ts p\<bar> \<le> reissue_skew_seconds \<and>
     ed25519_verify lib (xp_old_key p) (xp_signature p)
       (reissue_proof_bytes (xp_host p) (ac_uin a) (xp_old_key p) new_ik new_sk (xp_ts p) (xp_nonce p)) \<and>
     (taken = [] \<or> (\<exists>r. get_row (\<lambda>r. rk_sk_hash r = sha256_hex lib (xp_old_key p)) (retired_signing_keys A) = Some r \<and>
        rk_uin r \<in> set taken))"

lemma judge_accepts:
  assumes "judge_proof lib now hosts a new_ik new_sk taken b A = (Inr key, A')"
  shows "\<exists>p. parse_proof b = Some p \<and> accepted_proof lib now (fst hosts) a new_ik new_sk taken A p \<and>
      key = reissue_nonce_key lib (xp_old_key p) (xp_nonce p)"
    and "redis_ok A" "\<And>until. nx_keys A key = Some until \<Longrightarrow> until \<le> now"
    and "registry_of A' = registry_of A" "retired_signing_keys A' = retired_signing_keys A" "epochs A' = epochs A"
      "frames A' = frames A" "vault_slots A' = vault_slots A" "suspended A' = suspended A" "dev_revoked A' = dev_revoked A"
      "redis_ok A' = redis_ok A" "nx_keys A' = (nx_keys A)(key \<mapsto> now + seconds nonce_ttl_seconds)"
proof -
  obtain p where p: "parse_proof b = Some p" using assms by (cases "parse_proof b") (auto simp: judge_proof_def)
  define A1 where "A1 = (if snd hosts then on_island (bump_stat now ''reissue_host_from_header'') A else A)"
  have k: "registry_of A1 = registry_of A" "retired_signing_keys A1 = retired_signing_keys A" "epochs A1 = epochs A"
      "frames A1 = frames A" "vault_slots A1 = vault_slots A" "suspended A1 = suspended A" "dev_revoked A1 = dev_revoked A"
      "redis_ok A1 = redis_ok A" "nx_keys A1 = nx_keys A"
    by (simp_all add: A1_def on_island_def redis_ok_def bump_stat_keeps)
  note judged = assms [unfolded judge_proof_def p option.case Let_def, folded A1_def]
  have n: "set_nx now (reissue_nonce_key lib (xp_old_key p) (xp_nonce p)) nonce_ttl_seconds A1 = Some (True, A')"
      "key = reissue_nonce_key lib (xp_old_key p) (xp_nonce p)"
    using judged by (auto split: if_splits option.splits bool.splits)
  note w = set_nx_keeps [OF n(1)]
  show "registry_of A' = registry_of A" "retired_signing_keys A' = retired_signing_keys A" "epochs A' = epochs A"
      "frames A' = frames A" "vault_slots A' = vault_slots A" "suspended A' = suspended A" "dev_revoked A' = dev_revoked A"
      "redis_ok A' = redis_ok A" "nx_keys A' = (nx_keys A)(key \<mapsto> now + seconds nonce_ttl_seconds)" "redis_ok A"
    using w k n(2) by (auto simp: redis_ok_def)
  show "until \<le> now" if "nx_keys A key = Some until" for until using w k(9) n(2) that by simp
  have "accepted_proof lib now (fst hosts) a new_ik new_sk taken A p"
    using judged unfolding k(2) accepted_proof_def by (simp split: if_splits) (auto split: option.splits)
  then show "\<exists>p. parse_proof b = Some p \<and> accepted_proof lib now (fst hosts) a new_ik new_sk taken A p \<and>
      key = reissue_nonce_key lib (xp_old_key p) (xp_nonce p)"
    using p n(2) by blast
qed

text \<open>The request asks for other keys than the row has.\<close>

definition changes_keys :: "reissue_in \<Rightarrow> account \<Rightarrow> bool" where
  "changes_keys b a \<longleftrightarrow> \<not> (key_bytes_or_none (ac_identity_key a) = decode_key32 (xi_identity_key b) \<and>
     key_bytes_or_none (ac_signing_key a) = decode_key32 (xi_signing_key b))"

lemma pubkey_ok: "pubkey32 v f = Inr k \<Longrightarrow> k = strip v \<and> (\<exists>raw. decode_key32 v = Some raw \<and> decode_key32 k = Some raw)"
  by (auto simp: pubkey32_def decode_key32_def decode_bytes_def b64_any_def strip_strip split: option.splits if_splits)

text \<open>A change that went through under a proof.\<close>

lemma reissue_signed:
  assumes "reissue lib now required hosts True b u dev bearer A = (Inr out, A')" "offers_proof b"
    "find_account (registry_of A) u = Some a" "changes_keys b a"
  shows "\<exists>ik sk new_ik new_sk key A1 e A2.
      ik = strip (xi_identity_key b) \<and> sk = strip (xi_signing_key b) \<and>
      decode_key32 ik = Some new_ik \<and> decode_key32 sk = Some new_sk \<and>
      judge_proof lib now hosts a new_ik new_sk (signing_key_taken_by (registry_of A) new_sk u) b A = (Inr key, A1) \<and>
      apply_reissue lib now a ik sk new_sk True A1 = (Some e, A2) \<and> A' = after_reissue now u dev (Some e) A2 \<and>
      out = \<lparr>ro_uin = u, ro_token = issue_token lib now u e (carry_device_id dev), ro_guest = False\<rparr>"
proof -
  obtain ik sk where pk: "pubkey32 (xi_identity_key b) ''identity_key'' = Inr ik" "pubkey32 (xi_signing_key b) ''signing_key'' = Inr sk"
    using assms(1) by (auto simp: reissue_def split: sum.splits)
  obtain new_ik new_sk where raw: "decode_key32 ik = Some new_ik" "decode_key32 sk = Some new_sk"
    "decode_key32 (xi_identity_key b) = Some new_ik" "decode_key32 (xi_signing_key b) = Some new_sk"
    using pubkey_ok [OF pk(1)] pubkey_ok [OF pk(2)] by auto
  have same: "\<not> (key_bytes_or_none (ac_identity_key a) = Some new_ik \<and> key_bytes_or_none (ac_signing_key a) = Some new_sk)"
    using assms(4) raw by (simp add: changes_keys_def)
  obtain must where must: "required = Some must"
    using assms(1,3) by (cases required) (auto simp: reissue_def pk Let_def)
  note r = assms(1) [unfolded reissue_def pk prod.case sum.case Let_def raw option.sel assms(3) option.case must
      if_not_P [OF same] if_P [OF assms(2)]]
  obtain key A1 where j: "judge_proof lib now hosts a new_ik new_sk (signing_key_taken_by (registry_of A) new_sk u) b A = (Inr key, A1)"
    using r by (cases "judge_proof lib now hosts a new_ik new_sk (signing_key_taken_by (registry_of A) new_sk u) b A")
      (auto split: sum.splits)
  obtain e A2 where ap: "apply_reissue lib now a ik sk new_sk True A1 = (Some e, A2)"
    by (simp add: apply_reissue_def Let_def)
  have "out = \<lparr>ro_uin = u, ro_token = issue_token lib now u e (carry_device_id dev), ro_guest = False\<rparr>"
    "A' = after_reissue now u dev (Some e) A2"
    using r by (simp_all add: j ap)
  with j ap raw pubkey_ok [OF pk(1)] pubkey_ok [OF pk(2)] show ?thesis by blast
qed

lemma update_account_epochs: "uin_epochs (update_account u f R) = uin_epochs R"
  by (simp add: update_account_def)

lemma retire_key_keeps:
  "registry_of (retire_signing_key lib now raw u b A) = registry_of A"
  "epochs (retire_signing_key lib now raw u b A) = epochs A" "frames (retire_signing_key lib now raw u b A) = frames A"
  "vault_slots (retire_signing_key lib now raw u b A) = vault_slots A"
  "island_of (retire_signing_key lib now raw u b A) = island_of A"
  "suspended (retire_signing_key lib now raw u b A) = suspended A"
  "dev_revoked (retire_signing_key lib now raw u b A) = dev_revoked A"
  by (simp_all add: retire_signing_key_def Let_def split: option.splits)

text \<open>A signed rotation always takes the marker of the key it retires.\<close>

lemma retire_key_marks:
  "get_row (\<lambda>r. rk_sk_hash r = sha256_hex lib raw) (retired_signing_keys (retire_signing_key lib now raw u True A))
     = Some \<lparr>rk_sk_hash = sha256_hex lib raw, rk_uin = u, rk_rotated_at = now\<rparr>"
proof (cases "get_row (\<lambda>r. rk_sk_hash r = sha256_hex lib raw) (retired_signing_keys A)")
  case None
  then show ?thesis by (simp add: retire_signing_key_def get_row_append get_row_Cons)
next
  case (Some r)
  have "get_row (\<lambda>r. rk_sk_hash r = h) (map (\<lambda>r. if rk_sk_hash r = h then x else r) rs) = Some x"
    if "get_row (\<lambda>r. rk_sk_hash r = h) rs = Some y" "rk_sk_hash x = h" for h x y rs
    using that by (induction rs) (auto simp: get_row_Cons split: if_splits)
  from this [OF Some] show ?thesis using Some by (simp add: retire_signing_key_def Let_def)
qed

lemma apply_signed:
  assumes "apply_reissue lib now a ik sk new_sk True A = (Some e, A')"
  shows "e = epoch_in (uin_epochs (registry_of A)) (ac_uin a) + 1"
    and "uin_epochs (registry_of A') = uin_epochs (bump_uin_epoch (ac_uin a) (registry_of A))"
    and "accounts (registry_of A') = accounts (update_account (ac_uin a) (\<lambda>b. b\<lparr>ac_identity_key := ik, ac_signing_key := sk,
           ac_key_unproven_since := (if ac_guest_status a \<noteq> None \<and> key_bytes_or_none (ac_signing_key a) \<noteq> Some new_sk
             then Some now else ac_key_unproven_since b)\<rparr>) (registry_of A))"
    and "epochs A' = epochs A" "frames A' = frames A" "island_of A' = island_of A" "suspended A' = suspended A"
      "dev_revoked A' = dev_revoked A" "vault_slots A' = filter (\<lambda>v. vs_uin v \<noteq> ac_uin a) (vault_slots A)"
    and "key_bytes_or_none (ac_signing_key a) = Some raw \<Longrightarrow> raw \<noteq> new_sk \<Longrightarrow>
      get_row (\<lambda>r. rk_sk_hash r = sha256_hex lib raw) (retired_signing_keys A')
        = Some \<lparr>rk_sk_hash = sha256_hex lib raw, rk_uin = ac_uin a, rk_rotated_at = now\<rparr>"
proof -
  note r = assms [unfolded apply_reissue_def Let_def if_True]
  show "e = epoch_in (uin_epochs (registry_of A)) (ac_uin a) + 1"
    using r by (auto simp: on_registry_def bump_epoch_in update_account_epochs retire_key_keeps split: option.splits if_splits)
  show "uin_epochs (registry_of A') = uin_epochs (bump_uin_epoch (ac_uin a) (registry_of A))"
    using r by (auto simp: on_registry_def bump_uin_epoch_def update_account_epochs retire_key_keeps split: option.splits if_splits)
  show "accounts (registry_of A') = accounts (update_account (ac_uin a) (\<lambda>b. b\<lparr>ac_identity_key := ik, ac_signing_key := sk,
           ac_key_unproven_since := (if ac_guest_status a \<noteq> None \<and> key_bytes_or_none (ac_signing_key a) \<noteq> Some new_sk
             then Some now else ac_key_unproven_since b)\<rparr>) (registry_of A))"
    using r by (auto simp: on_registry_def bump_uin_epoch_def retire_key_keeps split: option.splits if_splits)
  show "epochs A' = epochs A" "frames A' = frames A" "island_of A' = island_of A" "suspended A' = suspended A"
      "dev_revoked A' = dev_revoked A" "vault_slots A' = filter (\<lambda>v. vs_uin v \<noteq> ac_uin a) (vault_slots A)"
    using r by (auto simp: on_registry_def retire_key_keeps split: option.splits if_splits)
  show "get_row (\<lambda>r. rk_sk_hash r = sha256_hex lib raw) (retired_signing_keys A')
        = Some \<lparr>rk_sk_hash = sha256_hex lib raw, rk_uin = ac_uin a, rk_rotated_at = now\<rparr>"
    if "key_bytes_or_none (ac_signing_key a) = Some raw" "raw \<noteq> new_sk"
    using r that by (auto simp: on_registry_def retire_key_marks)
qed

lemma after_signed:
  "after_reissue now u dev (Some e) A = (cache_uin_epoch u e A)\<lparr>island_of := bump_stat now ''reissue_signed'' (island_of A),
     frames := frames A @ [VaultReset u (carry_device_id dev), KickUin u]\<rparr>"
  by (simp add: after_reissue_def Let_def on_island_def send_frame_def cache_uin_epoch_def redis_ok_def)

lemma mirror_exact_cong:
  "uin_epochs (registry_of B) = uin_epochs (registry_of A) \<Longrightarrow> epochs B = epochs A \<Longrightarrow> mirror_exact B = mirror_exact A"
  by (simp add: mirror_exact_def epochs_positive_def)

lemma rotation_mirror:
  assumes "mirror_exact A" "redis_ok A" "epochs A1 = epochs A" "registry_of A1 = registry_of A" "redis_ok A1"
    "apply_reissue lib now a ik sk new_sk True A1 = (Some e, A2)"
  shows "mirror_exact (after_reissue now (ac_uin a) dev (Some e) A2)"
proof -
  note ap = apply_signed [OF assms(6)]
  have e: "e = epoch_in (uin_epochs (registry_of A2)) (ac_uin a)" by (simp add: ap(1,2) bump_epoch_in)
  have "mirror_exact (cache_uin_epoch (ac_uin a) e (A1\<lparr>registry_of := registry_of A2\<rparr>))"
    unfolding e using assms ap(2) by (intro cache_epoch_exact) (auto simp: mirror_exact_def)
  moreover have "redis_ok A2" using assms(5) ap(6) by (simp add: redis_ok_def)
  ultimately show ?thesis
    using assms(5) ap(4) by (subst mirror_exact_cong [of _ "cache_uin_epoch (ac_uin a) e (A1\<lparr>registry_of := registry_of A2\<rparr>)"])
      (simp_all add: after_signed cache_uin_epoch_def redis_ok_def)
qed


text \<open>A library that knows one token, an account on number 5 and its change to another key.\<close>

definition one_token :: "claims \<Rightarrow> crypto" where
  "one_token p = \<lparr>jwt_encode = (\<lambda>_. ''t''), jwt_decode = (\<lambda>_ _ _. Some p), ed25519_verify = (\<lambda>_ _ _. True),
     sha256_hex = (\<lambda>raw. if raw = blank_key then ''blank'' else ''other''), sha256_text = (\<lambda>_. ''h'')\<rparr>"

definition other_key :: "nat list" where
  "other_key = replicate 32 255"

definition signed_in :: auth where
  "signed_in = on_registry (\<lambda>R. R\<lparr>accounts := [new_account 0 5 ''eve'' (canonical_key blank_key) (canonical_key blank_key)]\<rparr>) empty_auth"

definition signed_change :: reissue_in where
  "signed_change = \<lparr>xi_identity_key = canonical_key blank_key, xi_signing_key = canonical_key other_key,
     xi_proof_v = Some 1, xi_host = Some ''here'', xi_old_signing_key = Some (canonical_key blank_key), xi_ts = Some 0,
     xi_nonce = Some (canonical_nonce (replicate 16 2)), xi_signature = Some (b64encode (replicate 64 2))\<rparr>"

definition rotated :: "register_out answer \<times> auth" where
  "rotated = reissue (one_token (token_claims 0 5 0 None)) 0 (Some True) ([''here''], False) True signed_change 5 ''primary'' ''b'' signed_in"

lemma opens_one_token: "opens (one_token p) p"
  by (simp add: opens_def one_token_def)

lemma signed_in_facts:
  "mirror_exact signed_in"
  "find_account (registry_of signed_in) 5 = Some (new_account 0 5 ''eve'' (canonical_key blank_key) (canonical_key blank_key))"
  "epoch_in (uin_epochs (registry_of signed_in)) 5 = 0"
  by (simp_all add: mirror_exact_def signed_in_def on_registry_def empty_auth_def empty_registry_def epochs_positive_def
      find_account_def get_row_Cons new_account_def epoch_in_def)

lemma sample_keys:
  "bytes blank_key" "length blank_key = 32" "bytes other_key" "length other_key = 32" "other_key \<noteq> blank_key"
  by (simp_all add: bytes_def blank_key_def other_key_def list_all_iff replicate_eq_replicate)

lemma canonical_reads:
  assumes "bytes raw" "length raw = 32"
  shows "decode_key32 (canonical_key raw) = Some raw" "pubkey32 (canonical_key raw) f = Inr (canonical_key raw)"
    "strip (canonical_key raw) = canonical_key raw"
  by (simp_all add: decode_key32_def canonical_key_def decode_canonical [OF assms(1)] assms(2) pubkey32_def
      b64_any_canonical [OF assms(1)] strip_b64encode [OF assms(1)])

lemma canonical_filled: "bytes raw \<Longrightarrow> length raw = 32 \<Longrightarrow> canonical_key raw \<noteq> []"
  using canonical_reads(1) [of raw] by (auto simp: decode_key32_def decode_bytes_def b64_any_def b64decode_def strip_def padding_def)

lemmas sample_reads = canonical_reads [OF sample_keys(1,2)] canonical_reads [OF sample_keys(3,4)]
  canonical_filled [OF sample_keys(1,2)] canonical_filled [OF sample_keys(3,4)]

definition sample_proof :: reissue_proof where
  "sample_proof = \<lparr>xp_version = 1, xp_host = ''here'', xp_old_key = blank_key, xp_ts = 0, xp_nonce = replicate 16 2,
     xp_signature = replicate 64 2\<rparr>"

lemma sample_nonce: "decode_nonce (canonical_nonce (replicate 16 2)) = Some (replicate 16 2)"
    "canonical_nonce (replicate 16 2) \<noteq> []" "canonical_host ''here'' = ''here''"
  by code_simp+

lemma sample_signature: "decode_signature (b64encode (replicate 64 2)) = Some (replicate 64 2)" "b64encode (replicate 64 2) \<noteq> []"
proof -
  have "bytes (replicate 64 2)" by (simp add: bytes_def list_all_iff)
  from decode_canonical [OF this, of 64] show *: "decode_signature (b64encode (replicate 64 2)) = Some (replicate 64 2)"
    by (simp add: decode_signature_def)
  show "b64encode (replicate 64 2) \<noteq> []"
    using * by (auto simp: decode_signature_def decode_bytes_def b64_any_def b64decode_def strip_def padding_def)
qed

lemma parsed_change: "parse_proof signed_change = Some sample_proof"
  by (simp add: parse_proof_def signed_change_def sample_reads sample_nonce sample_signature sample_proof_def)

lemma signed_change_facts:
  "changes_keys signed_change (new_account 0 5 ''eve'' (canonical_key blank_key) (canonical_key blank_key))"
  "offers_proof signed_change"
  by (simp_all add: changes_keys_def signed_change_def new_account_def key_bytes_or_none_def sample_reads sample_keys
      sample_keys(5) [symmetric] offers_proof_def)

lemma judged_change:
  "\<exists>A'. judge_proof (one_token p) 0 ([''here''], False) (new_account 0 5 ''eve'' (canonical_key blank_key) (canonical_key blank_key))
      blank_key other_key [] signed_change signed_in = (Inr (reissue_nonce_key (one_token p) blank_key (replicate 16 2)), A')"
  by (simp add: judge_proof_def parsed_change sample_proof_def reissue_version_def new_account_def key_bytes_or_none_def
      sample_reads reissue_skew_seconds_def clock_seconds_def one_token_def set_nx_def redis_ok_def signed_in_def
      on_registry_def empty_auth_def empty_island_def Let_def)

lemma untaken_change: "signing_key_taken_by (registry_of signed_in) other_key 5 = []"
  by (simp add: signing_key_taken_by_def signed_in_def on_registry_def new_account_def)

lemma reissue_change:
  "\<exists>A'. reissue (one_token p) 0 (Some True) ([''here''], False) True signed_change 5 ''primary'' ''b'' signed_in
     = (Inr \<lparr>ro_uin = 5, ro_token = ''t'', ro_guest = False\<rparr>, A')"
proof -
  obtain A1 where j: "judge_proof (one_token p) 0 ([''here''], False)
      (new_account 0 5 ''eve'' (canonical_key blank_key) (canonical_key blank_key))
      blank_key other_key [] signed_change signed_in = (Inr (reissue_nonce_key (one_token p) blank_key (replicate 16 2)), A1)"
    using judged_change by blast
  have t: "issue_token (one_token p) now u e d = ''t''" for now u e d by (simp add: issue_token_def one_token_def)
  have d: "xi_identity_key signed_change = canonical_key blank_key" "xi_signing_key signed_change = canonical_key other_key"
    by (simp_all add: signed_change_def)
  have k: "ac_identity_key (new_account 0 5 n i s) = i" "ac_signing_key (new_account 0 5 n i s) = s" for n i s
    by (simp_all add: new_account_def)
  obtain e A2 where ap: "apply_reissue (one_token p) 0 (new_account 0 5 ''eve'' (canonical_key blank_key) (canonical_key blank_key))
      (canonical_key blank_key) (canonical_key other_key) other_key True A1 = (Some e, A2)"
    by (simp add: apply_reissue_def Let_def)
  show ?thesis
    by (simp add: reissue_def d k sample_reads signed_in_facts(2) key_bytes_or_none_def sample_keys(5) sample_keys(5) [symmetric]
        signed_change_facts(2) untaken_change j ap t Let_def)
qed

lemma rotated_facts: "fst rotated = Inr \<lparr>ro_uin = 5, ro_token = ''t'', ro_guest = False\<rparr>"
  using reissue_change [of "token_claims 0 5 0 None"] by (auto simp: rotated_def)


section \<open>The retired key\<close>

lemma find_update_account:
  assumes "\<And>b. ac_uin (f b) = ac_uin b"
  shows "find_account (update_account u f R) v = map_option (\<lambda>b. if ac_uin b = u then f b else b) (find_account R v)"
  unfolding find_account_def update_account_def
  by simp (rule get_row_map_keep, simp add: assms)

lemma rotated_accounts:
  assumes "apply_reissue lib now a ik sk new_sk True A = (Some e, A')" "find_account (registry_of A) u = Some a"
  shows "find_account (registry_of A') u \<noteq> None"
proof -
  have "find_account (registry_of A') u = find_account (update_account (ac_uin a) (\<lambda>b. b\<lparr>ac_identity_key := ik, ac_signing_key := sk,
           ac_key_unproven_since := (if ac_guest_status a \<noteq> None \<and> key_bytes_or_none (ac_signing_key a) \<noteq> Some new_sk
             then Some now else ac_key_unproven_since b)\<rparr>) (registry_of A)) u"
    by (simp add: find_account_def apply_signed(3) [OF assms(1)])
  then show ?thesis using assms(2) by (simp add: find_update_account)
qed

lemma marked_account:
  assumes "key_bytes_or_none sk = Some raw" "find_account (registry_of A) (rk_uin r) \<noteq> None"
    "get_row (\<lambda>r. rk_sk_hash r = sha256_hex lib raw) (retired_signing_keys A) = Some r"
  shows "rotated_account lib sk A = Some (rk_uin r)"
  using assms by (simp add: rotated_account_def)

text \<open>
  C16. The account's other installs, which still hold the key a signed change retired, are told that
  the identity was rotated and never that it does not exist: whoever proves the old key, in any
  spelling no account carries, hears the number it now lives under from recovery and from a refresh
  of that number.
\<close>

theorem retired_key_hears_rotation:
  assumes "find_account (registry_of A) u = Some a" "offers_proof b"
    "key_bytes_or_none (ac_signing_key a) = Some raw" "decode_key32 (xi_signing_key b) \<noteq> Some raw"
    "reissue lib now required hosts True b u dev bearer A = (Inr out, A')"
    "key_bytes_or_none (strip key) = Some raw" "recover_proof lib later (strip key) challenge signature = Inr ()"
    "\<not> list_ex (\<lambda>c. ac_signing_key c = strip key) (accounts (registry_of A'))"
  shows "fst (recover lib later key challenge signature d A') = Inl (IdentityRotated u) \<and>
    fst (refresh lib later budget u key challenge signature d A') = Inl (IdentityRotated u)"
proof -
  have ch: "changes_keys b a" using assms(3,4) by (simp add: changes_keys_def)
  obtain ik sk new_ik new_sk nonce_key A1 k A2 where r: "sk = strip (xi_signing_key b)" "decode_key32 sk = Some new_sk"
    "judge_proof lib now hosts a new_ik new_sk (signing_key_taken_by (registry_of A) new_sk u) b A = (Inr nonce_key, A1)"
    "apply_reissue lib now a ik sk new_sk True A1 = (Some k, A2)" "A' = after_reissue now u dev (Some k) A2"
    using reissue_signed [OF assms(5,2,1) ch] by blast
  have u: "ac_uin a = u" using assms(1) by (simp add: find_account_SomeD)
  have new: "raw \<noteq> new_sk" using assms(4) r(1,2) by (auto simp: decode_key32_def decode_bytes_def b64_any_def strip_strip)
  note j = judge_accepts(4-12) [OF r(3)] and ap = apply_signed [OF r(4)]
  have reg: "registry_of A' = registry_of A2" "retired_signing_keys A' = retired_signing_keys A2"
    by (simp_all add: r(5) after_signed cache_uin_epoch_def)
  have live: "find_account (registry_of A') u \<noteq> None"
    using rotated_accounts [OF r(4), of u] assms(1) j(1) reg by simp
  have mark: "rotated_account lib (strip key) A' = Some u"
    using marked_account [OF assms(6), of A' "\<lparr>rk_sk_hash = sha256_hex lib raw, rk_uin = u, rk_rotated_at = now\<rparr>"] live
      ap(10) [OF assms(3) new] reg u by simp
  have none: "filter (\<lambda>c. ac_signing_key c = strip key) (accounts (registry_of A')) = []"
    using assms(8) by (auto simp: list_ex_iff filter_empty_conv)
  have "uin_for_signing_key (registry_of A') (strip key) = None" by (simp add: uin_for_signing_key_def none)
  moreover have "resolve_refresh (registry_of A') u (strip key) = Absent"
    using assms(8) live by (auto simp: resolve_refresh_def list_ex_iff)
  ultimately show ?thesis using assms(7) mark by (simp add: recover_def refresh_def Let_def)
qed

section \<open>A proof is spent once\<close>

text \<open>
  C17. A proof of a key change is accepted once: while the guard it left stands, the same proof is
  refused at every later instant, because it only verifies while its time is within the skew and the
  guard outlives the whole window. Another spelling of the nonce is the same nonce.
\<close>

theorem reissue_proof_once:
  assumes "judge_proof lib t1 hosts a new_ik new_sk taken b A = (Inr key, A1)" "parse_proof b = Some p" "t1 \<le> t2"
    "nx_keys B key = nx_keys A1 key"
    "parse_proof b' = Some p'" "xp_old_key p' = xp_old_key p" "xp_nonce p' = xp_nonce p" "xp_ts p' = xp_ts p"
  shows "\<exists>e. fst (judge_proof lib t2 hosts' a' ik' sk' taken' b' B) = Inl e"
proof (rule ccontr)
  assume "\<not> ?thesis"
  then obtain key' B1 where j2: "judge_proof lib t2 hosts' a' ik' sk' taken' b' B = (Inr key', B1)"
    by (cases "judge_proof lib t2 hosts' a' ik' sk' taken' b' B"; cases "fst (judge_proof lib t2 hosts' a' ik' sk' taken' b' B)") auto
  have p1: "accepted_proof lib t1 (fst hosts) a new_ik new_sk taken A p" "key = reissue_nonce_key lib (xp_old_key p) (xp_nonce p)"
    using judge_accepts(1) [OF assms(1)] assms(2) by auto
  have p2: "accepted_proof lib t2 (fst hosts') a' ik' sk' taken' B p'" "key' = key"
    using judge_accepts(1) [OF j2] assms(5-7) p1(2) by auto
  have "clock_seconds t2 - clock_seconds t1 \<le> 1200"
    using p1(1) p2(1) assms(8) by (auto simp: accepted_proof_def reissue_skew_seconds_def)
  then have "t2 < t1 + seconds nonce_ttl_seconds"
    by (simp add: clock_seconds_def nonce_ttl_seconds_def)
  moreover have "nx_keys B key' = Some (t1 + seconds nonce_ttl_seconds)"
    using judge_accepts(12) [OF assms(1)] assms(4) p2(2) by simp
  ultimately show False using judge_accepts(3) [OF j2] by fastforce
qed

definition old_key_lib :: crypto where
  "old_key_lib = one_token (challenge_claims 0 (canonical_key blank_key) ''recover'' ''n'')"

definition rotated_away :: "register_out answer \<times> auth" where
  "rotated_away = reissue old_key_lib 0 (Some True) ([''here''], False) True signed_change 5 ''primary'' ''b'' signed_in"

lemma lenient_blank: "lenient_b64decode (canonical_key blank_key) = Some blank_key"
  by code_simp

lemma rotated_away_facts:
  "fst rotated_away = Inr \<lparr>ro_uin = 5, ro_token = ''t'', ro_guest = False\<rparr>"
  using reissue_change [of "challenge_claims 0 (canonical_key blank_key) ''recover'' ''n''"]
  by (auto simp: rotated_away_def old_key_lib_def)

lemma blank_key_proves:
  assumes "jwt_decode lib True now ''t'' = Some (challenge_claims 0 (canonical_key blank_key) ''recover'' ''n'')"
    "ed25519_verify lib = (\<lambda>_ _ _. True)"
  shows "recover_proof lib now (canonical_key blank_key) ''t'' ''AAAA'' = Inr ()"
proof -
  have "lenient_b64decode ''AAAA'' = Some [0, 0, 0]" by code_simp
  then show ?thesis
    using assms by (simp add: recover_proof_def verify_key_challenge_def proves_key_def challenge_claims_def lenient_blank sample_keys)
qed

lemma old_key_proves: "recover_proof old_key_lib now (canonical_key blank_key) ''t'' ''AAAA'' = Inr ()"
  by (rule blank_key_proves) (simp_all add: old_key_lib_def one_token_def)

lemma rotated_away_accounts: "\<not> list_ex (\<lambda>c. ac_signing_key c = canonical_key blank_key) (accounts (registry_of (snd rotated_away)))"
proof -
  obtain A' where r: "reissue old_key_lib 0 (Some True) ([''here''], False) True signed_change 5 ''primary'' ''b'' signed_in
      = (Inr \<lparr>ro_uin = 5, ro_token = ''t'', ro_guest = False\<rparr>, A')" "A' = snd rotated_away"
    using reissue_change [of "challenge_claims 0 (canonical_key blank_key) ''recover'' ''n''"]
    by (auto simp: rotated_away_def old_key_lib_def)
  from reissue_signed [OF r(1) signed_change_facts(2) signed_in_facts(2) signed_change_facts(1)]
  obtain ik sk new_ik new_sk key A1 e A2 where
    d: "sk = strip (xi_signing_key signed_change)"
    "judge_proof old_key_lib 0 ([''here''], False) (new_account 0 5 ''eve'' (canonical_key blank_key) (canonical_key blank_key))
       new_ik new_sk (signing_key_taken_by (registry_of signed_in) new_sk 5) signed_change signed_in = (Inr key, A1)"
    "apply_reissue old_key_lib 0 (new_account 0 5 ''eve'' (canonical_key blank_key) (canonical_key blank_key)) ik sk new_sk True A1
       = (Some e, A2)" "A' = after_reissue 0 5 ''primary'' (Some e) A2" by blast
  have "sk \<noteq> canonical_key blank_key"
    using canonical_key_inject [OF sample_keys(3,1)] sample_keys(5) by (auto simp: d(1) signed_change_def sample_reads)
  moreover have "accounts (registry_of A1) = [new_account 0 5 ''eve'' (canonical_key blank_key) (canonical_key blank_key)]"
    using judge_accepts(4) [OF d(2)] by (simp add: signed_in_def on_registry_def)
  ultimately show ?thesis
    using apply_signed(3) [OF d(3)] d(4) r(2)
    by (simp add: after_signed cache_uin_epoch_def update_account_def new_account_def)
qed

theorem retired_key_hears_rotation_witness:
  "fst (recover old_key_lib 1 (canonical_key blank_key) ''t'' ''AAAA'' None (snd rotated_away)) = Inl (IdentityRotated 5)"
proof -
  have r: "reissue old_key_lib 0 (Some True) ([''here''], False) True signed_change 5 ''primary'' ''b'' signed_in
      = (Inr \<lparr>ro_uin = 5, ro_token = ''t'', ro_guest = False\<rparr>, snd rotated_away)"
    using rotated_away_facts(1) by (simp only: rotated_away_def prod_eq_iff fst_conv snd_conv simp_thms)
  have k: "key_bytes_or_none (ac_signing_key (new_account 0 5 ''eve'' (canonical_key blank_key) (canonical_key blank_key))) = Some blank_key"
    by (simp add: new_account_def key_bytes_or_none_def sample_reads)
  have n: "decode_key32 (xi_signing_key signed_change) \<noteq> Some blank_key"
    by (simp add: signed_change_def sample_reads sample_keys)
  show ?thesis
    using retired_key_hears_rotation [OF signed_in_facts(2) signed_change_facts(2) k n r, of "canonical_key blank_key" 1 "''t''"
        "''AAAA''" None] old_key_proves rotated_away_accounts by (simp add: key_bytes_or_none_def sample_reads)
qed

theorem reissue_proof_once_witness:
  "\<exists>A' e. nx_keys A' \<noteq> nx_keys signed_in \<and> fst (judge_proof old_key_lib 600000000 ([''here''], False)
     (new_account 0 5 ''eve'' (canonical_key blank_key) (canonical_key blank_key)) blank_key other_key [] signed_change A') = Inl e"
proof -
  obtain A' where j: "judge_proof old_key_lib 0 ([''here''], False)
     (new_account 0 5 ''eve'' (canonical_key blank_key) (canonical_key blank_key)) blank_key other_key [] signed_change signed_in
     = (Inr (reissue_nonce_key old_key_lib blank_key (replicate 16 2)), A')"
    using judged_change by (auto simp: old_key_lib_def)
  have "nx_keys A' \<noteq> nx_keys signed_in"
    using judge_accepts(12) [OF j] by (auto simp: signed_in_def on_registry_def empty_auth_def fun_eq_iff)
  then show ?thesis using reissue_proof_once [OF j parsed_change _ refl parsed_change refl refl refl, of 600000000] by auto
qed

section \<open>A key nobody has proven\<close>

lemma claim_seat_keeps:
  "uin_epochs (registry_of (snd (claim_seat now u k A))) = uin_epochs (registry_of A)"
  "epochs (snd (claim_seat now u k A)) = epochs A" "redis_ok (snd (claim_seat now u k A)) = redis_ok A"
  by (auto simp: claim_seat_def on_island_def on_registry_def update_account_epochs update_user_def redis_ok_def split: option.splits)

lemma seat_frame_keeps:
  "registry_of (send_frame f A) = registry_of A" "epochs (send_frame f A) = epochs A" "redis_ok (send_frame f A) = redis_ok A"
  "registry_of (on_island (bump_stat now n) A) = registry_of A" "epochs (on_island (bump_stat now n) A) = epochs A"
  "redis_ok (on_island (bump_stat now n) A) = redis_ok A"
  by (simp_all add: send_frame_def on_island_def redis_ok_def bump_stat_keeps)

text \<open>The first proof of a parked key bumps the epoch and publishes it before a session is minted.\<close>

lemma proof_retires_bearers:
  assumes "find_account (registry_of A) u = Some a" "ac_key_unproven_since a \<noteq> None" "mirror_exact A" "redis_ok A"
  shows "mirror_exact (snd (claim_seat_on_proof now u A))"
    and "epoch_in (uin_epochs (registry_of (snd (claim_seat_on_proof now u A)))) u = epoch_in (uin_epochs (registry_of A)) u + 1"
proof -
  define R1 where "R1 = bump_uin_epoch u (update_account u (\<lambda>a. a\<lparr>ac_key_unproven_since := None\<rparr>) (registry_of A))"
  define B where "B = bearers_retired u (Some (epoch_in (uin_epochs R1) u)) (A\<lparr>registry_of := R1\<rparr>)"
  have re: "retire_bearers_before_proof u False (registry_of A) = (Some (epoch_in (uin_epochs R1) u), R1)"
    using assms(1,2) by (simp add: retire_bearers_before_proof_def R1_def Let_def)
  have R1: "uin_epochs R1 = uin_epochs (bump_uin_epoch u (registry_of A))"
    by (simp add: R1_def bump_uin_epoch_def update_account_epochs)
  have B: "mirror_exact B" "uin_epochs (registry_of B) = uin_epochs R1"
    using cache_epoch_exact [OF assms(3,4) R1] mirror_exact_cong [of "send_frame (KickUin u) X" X for X]
    by (auto simp: B_def bearers_retired_def seat_frame_keeps cache_uin_epoch_def redis_ok_def)
  have s: "snd (claim_seat_on_proof now u A) = B \<or>
      snd (claim_seat_on_proof now u A) = on_island (bump_stat now ''guest_claim'') (send_frame (RosterChanged u) (snd (claim_seat now u None B)))"
    using assms(1,2) by (auto simp: claim_seat_on_proof_def re B_def Let_def)
  then have "uin_epochs (registry_of (snd (claim_seat_on_proof now u A))) = uin_epochs (registry_of B)"
    "epochs (snd (claim_seat_on_proof now u A)) = epochs B"
    by (auto simp: seat_frame_keeps claim_seat_keeps)
  then show "mirror_exact (snd (claim_seat_on_proof now u A))"
    "epoch_in (uin_epochs (registry_of (snd (claim_seat_on_proof now u A)))) u = epoch_in (uin_epochs (registry_of A)) u + 1"
    using B mirror_exact_cong [of "snd (claim_seat_on_proof now u A)" B] by (simp_all add: R1 bump_epoch_in)
qed

lemma mint_exact:
  assumes "mint lib now u dev g A = (out, A')" "mirror_exact A" "0 \<le> now"
  shows "mirror_exact A'" "uin_epochs (registry_of A') = uin_epochs (registry_of A)" "ro_uin out = u"
    "ro_token out = issue_token lib now u (epoch_in (uin_epochs (registry_of A)) u) dev"
proof -
  obtain e B where e: "uin_epoch now u A = (e, B)" by (cases "uin_epoch now u A")
  have "registry_of B = registry_of A" using uin_epoch_state [of now u A] e by auto
  then show "mirror_exact A'" "uin_epochs (registry_of A') = uin_epochs (registry_of A)" "ro_uin out = u"
    "ro_token out = issue_token lib now u (epoch_in (uin_epochs (registry_of A)) u) dev"
    using assms(1) uin_epoch_exact [OF assms(2,3), of u] e by (auto simp: mint_def)
qed

lemma recover_served:
  assumes "recover lib now key challenge signature dev A = (Inr out, A')"
  shows "\<exists>u g A1. uin_for_signing_key (registry_of A) (strip key) = Some u \<and> refuse_revoked_device now u dev A = Inr () \<and>
    claim_seat_on_proof now u A = (g, A1) \<and> mint lib now u dev g A1 = (out, A')"
  using assms by (auto simp: recover_def Let_def split: sum.splits option.splits prod.splits)

lemma refresh_served:
  assumes "refresh lib now budget u key challenge signature dev A = (Inr (out, moved), A')"
  shows "\<exists>v g A1. (resolve_refresh (registry_of A) u (strip key) = Owned v \<and> moved = None \<or>
      resolve_refresh (registry_of A) u (strip key) = Moved v \<and> moved = Some u) \<and>
    refuse_revoked_device now v dev A = Inr () \<and>
    claim_seat_on_proof now v (on_island (seed_refresh now v dev) A) = (g, A1) \<and> mint lib now v dev g A1 = (out, A')"
  using assms by (auto simp: refresh_def Let_def split: sum.splits option.splits prod.splits resolution.splits)

lemma seed_refresh_keeps: "redis_up (seed_refresh now u dev s) = redis_up s"
  by (simp add: seed_refresh_def upsert_cursor_def Let_def split: option.splits)

lemma refresh_state:
  "registry_of (on_island (seed_refresh now v dev) A) = registry_of A"
  "epochs (on_island (seed_refresh now v dev) A) = epochs A" "redis_ok (on_island (seed_refresh now v dev) A) = redis_ok A"
  by (simp_all add: on_island_def redis_ok_def seed_refresh_keeps)

lemma mint_uin: "mint lib now u dev g A = (out, A') \<Longrightarrow> ro_uin out = u"
  by (auto simp: mint_def split: prod.splits)

lemma stale_epoch_refused:
  assumes "mirror_exact A" "0 \<le> now" "big_integer u" "opens lib (token_claims t u e d)"
    "e \<noteq> epoch_in (uin_epochs (registry_of A)) u"
  shows "fst (authorize_session lib now (issue_token lib t u e d) A) \<noteq> Inr v"
  using uin_epoch_exact(1) [OF assms(1,2), of u] assms(5)
  unfolding authorize_token [OF assms(4,3)] gate_def by auto


text \<open>A guest on number 5 whose row was moved onto a stranger's key.\<close>

definition parked :: auth where
  "parked = on_registry (\<lambda>R. R\<lparr>accounts := [(new_account 0 5 ''eve'' (canonical_key blank_key) (canonical_key blank_key))
     \<lparr>ac_guest_status := Some ''proven'', ac_key_unproven_since := Some 0\<rparr>]\<rparr>) empty_auth"

definition stranger_lib :: crypto where
  "stranger_lib = \<lparr>jwt_encode = (\<lambda>_. ''t''),
     jwt_decode = (\<lambda>challenge _ _. if challenge then Some (challenge_claims 0 (canonical_key blank_key) ''recover'' ''n'')
       else Some (token_claims 0 5 0 None)),
     ed25519_verify = (\<lambda>_ _ _. True), sha256_hex = (\<lambda>_. ''h''), sha256_text = (\<lambda>_. ''h'')\<rparr>"

definition stranger_proves :: "register_out answer \<times> auth" where
  "stranger_proves = recover stranger_lib 1 (canonical_key blank_key) ''t'' ''AAAA'' None parked"

lemma stranger_served: "\<exists>out. stranger_proves = (Inr out, snd stranger_proves) \<and> ro_uin out = 5"
proof -
  have "uin_for_signing_key (registry_of parked) (canonical_key blank_key) = Some 5"
    by (simp add: uin_for_signing_key_def parked_def on_registry_def new_account_def)
  moreover have "recover_proof stranger_lib 1 (canonical_key blank_key) ''t'' ''AAAA'' = Inr ()"
    by (rule blank_key_proves) (simp_all add: stranger_lib_def)
  ultimately show ?thesis
    by (auto simp: stranger_proves_def recover_def sample_reads Let_def refuse_revoked_device_def
        device_is_revoked_def mint_def split: prod.splits)
qed

lemma parked_facts:
  "find_account (registry_of parked) 5 = Some ((new_account 0 5 ''eve'' (canonical_key blank_key) (canonical_key blank_key))
     \<lparr>ac_guest_status := Some ''proven'', ac_key_unproven_since := Some 0\<rparr>)"
  "mirror_exact parked" "redis_ok parked" "epoch_in (uin_epochs (registry_of parked)) 5 = 0"
  "opens stranger_lib (token_claims 0 5 0 None)"
  by (simp_all add: parked_def on_registry_def find_account_def get_row_Cons new_account_def mirror_exact_def empty_auth_def
      epochs_positive_def empty_registry_def redis_ok_def empty_island_def epoch_in_def opens_def stranger_lib_def)


section \<open>Disconnecting an install\<close>

lemma revoke_done:
  assumes "revoke now u d A = (Inr (), A')"
  shows "redis_ok A'" "\<exists>ds. dev_revoked A' u = Some (ds, now + seconds device_ttl_seconds) \<and> d \<in> set ds"
    "frames A' = frames A @ [DeviceRevoked u d, KickDevice u d]" "find_cursor (island_of A') u d = None"
    "\<not> list_ex (\<lambda>t. dt_uin t = u \<and> dt_device_id t = Some d) (device_tokens (island_of A'))"
    "epochs A' = epochs A" "suspended A' = suspended A" "registry_of A' = registry_of A"
  using assms
  by (auto simp: revoke_def Let_def send_frame_def revoke_entry_def set_links_def redis_ok_def find_cursor_def is_cursor_def
      get_row_None list_ex_iff split: if_splits)


text \<open>
  C20. The denylist forgets: once ninety days have passed since an account's last disconnection, the
  bearer of a disconnected install, which carries no expiry of its own, is an ordinary bearer again.
\<close>

theorem revocation_lapses:
  assumes "revoke now u d A = (Inr (), A')" "now + seconds device_ttl_seconds \<le> later"
    "big_integer u" "opens lib (token_claims t u e (Some d))"
    "e = fst (uin_epoch later u A)" "\<not> fst (is_suspended later u A)"
  shows "fst (authorize_session lib later (issue_token lib t u e (Some d)) A') = Inr u"
proof -
  note r = revoke_done [OF assms(1)]
  have "redis_ok A" using assms(1) by (auto simp: revoke_def split: if_splits)
  then have "fst (uin_epoch later u A') = fst (uin_epoch later u A)" "fst (is_suspended later u A') = fst (is_suspended later u A)"
    using r by (simp_all add: uin_epoch_def is_suspended_def Let_def)
  moreover have "device_is_revoked later u (if truthy (Some d) then Some d else None) A' = Some False"
    using r(1,2) assms(2) by (auto simp: device_is_revoked_def)
  ultimately show ?thesis unfolding authorize_token [OF assms(4,3)] gate_def using assms(5,6) by simp
qed

section \<open>A rebuild behind a bump\<close>

text \<open>
  C21. A rebuild of the epoch mirror that read the table before a bump was committed and stores what
  it read after the bump was written through undoes the write: the bearer the bump was meant to end
  is answered exactly as before, although the table holds the next epoch.
\<close>

theorem rebuild_revives_bearer:
  assumes "mirror_exact A" "redis_ok A" "0 \<le> later" "big_integer u" "opens lib (token_claims t u e d)"
    "rows = epoch_rows (registry_of A)" "B = on_registry (bump_uin_epoch u) A"
    "A' = load_epochs now rows (cache_uin_epoch u (epoch_in (uin_epochs (registry_of B)) u) B)"
  shows "fst (authorize_session lib later (issue_token lib t u e d) A') = fst (authorize_session lib later (issue_token lib t u e d) A) \<and>
    epoch_in (uin_epochs (registry_of A')) u = fst (uin_epoch later u A') + 1"
proof -
  have p: "epochs_positive (registry_of A)" using assms(1) by (simp add: mirror_exact_def)
  have A': "registry_of A' = bump_uin_epoch u (registry_of A)" "redis_ok A'" "suspended A' = suspended A" "dev_revoked A' = dev_revoked A"
    "mi_data (epochs A') = rows" "mi_built (epochs A')"
    using assms(2) by (simp_all add: assms(7,8) load_epochs_def cache_uin_epoch_def on_registry_def redis_ok_def build_mirror_def)
  have e: "fst (uin_epoch later u A') = epoch_in (uin_epochs (registry_of A)) u"
    using A'(2,5,6) by (simp add: uin_epoch_def Let_def ensure_mirror_def assms(6) epoch_rows_exact [OF p])
  have acc: "suspended_rows (registry_of A') = suspended_rows (registry_of A)"
    by (simp add: A'(1) suspended_rows_def bump_uin_epoch_def)
  have "gate later u e d A' = gate later u e d A"
    unfolding gate_def using e uin_epoch_exact(1) [OF assms(1,3), of u] A' acc assms(2)
    by (simp add: device_is_revoked_def is_suspended_def Let_def split: option.splits)
  then show ?thesis
    unfolding authorize_token [OF assms(5,4)] using e by (simp add: A'(1) bump_epoch_in)
qed

section \<open>Who may disconnect whom\<close>


text \<open>The install \<open>tab\<close> of number 5 is disconnected; \<open>tab_lib\<close> knows its token.\<close>

definition tab_lib :: crypto where
  "tab_lib = (one_token (token_claims 0 5 0 (Some ''tab'')))\<lparr>jwt_encode := (\<lambda>p. if cl_k p = None then ''l'' else ''t''),
     jwt_decode := (\<lambda>_ _ t. Some (if t = ''l'' then device_claims 0 5 ''tab'' 0 else token_claims 0 5 0 (Some ''tab'')))\<rparr>"

definition disconnected :: auth where
  "disconnected = snd (revoke 0 5 ''tab'' signed_in)"

lemma tab_facts:
  "revoke 0 5 ''tab'' signed_in = (Inr (), disconnected)" "opens tab_lib (token_claims 0 5 0 (Some ''tab''))"
  "opens tab_lib (device_claims 0 5 ''tab'' 0)" "big_integer 5" "redis_ok signed_in"
  by (simp_all add: disconnected_def revoke_def redis_ok_def signed_in_def on_registry_def empty_auth_def empty_island_def Let_def
      opens_def tab_lib_def token_fields device_fields truthy_def big_integer_def one_token_def)


lemma signed_in_gate: "fst (uin_epoch later 5 signed_in) = 0" "\<not> fst (is_suspended later 5 signed_in)"
  by (simp_all add: uin_epoch_def is_suspended_def Let_def ensure_mirror_def build_mirror_def signed_in_def on_registry_def
      empty_auth_def empty_registry_def epoch_in_def epoch_rows_def suspended_rows_def new_account_def)

lemma signed_in_revoked: "dev_revoked signed_in u = None"
  by (simp add: signed_in_def on_registry_def empty_auth_def)

theorem revocation_lapses_witness:
  "fst (authorize_session tab_lib (days 90) (issue_token tab_lib 0 5 0 (Some ''tab'')) disconnected) = Inr 5"
  by (rule revocation_lapses [OF tab_facts(1) _ tab_facts(4,2)]) (simp_all add: device_ttl_seconds_def signed_in_gate)

definition raced :: auth where
  "raced = load_epochs 0 (epoch_rows (registry_of signed_in)) (cache_uin_epoch 5 1 (on_registry (bump_uin_epoch 5) signed_in))"

theorem rebuild_revives_bearer_witness:
  "fst (authorize_session tab_lib 1 (issue_token tab_lib 0 5 0 (Some ''tab'')) raced) = Inr 5 \<and>
   epoch_in (uin_epochs (registry_of raced)) 5 = 1"
proof -
  have e: "epoch_in (uin_epochs (registry_of (on_registry (bump_uin_epoch 5) signed_in))) 5 = 1"
    by (simp add: on_registry_def bump_epoch_in signed_in_facts(3))
  have r: "raced = load_epochs 0 (epoch_rows (registry_of signed_in))
      (cache_uin_epoch 5 (epoch_in (uin_epochs (registry_of (on_registry (bump_uin_epoch 5) signed_in))) 5)
        (on_registry (bump_uin_epoch 5) signed_in))" by (simp only: raced_def e)
  note b = rebuild_revives_bearer [OF signed_in_facts(1) tab_facts(5) _ tab_facts(4,2) refl refl r, of 1]
  have "fst (authorize_session tab_lib 1 (issue_token tab_lib 0 5 0 (Some ''tab'')) signed_in) = Inr 5"
    unfolding authorize_token [OF tab_facts(2,4)] gate_def
    by (simp add: signed_in_gate device_is_revoked_def tab_facts(5) signed_in_revoked truthy_def)
  moreover have "registry_of raced = bump_uin_epoch 5 (registry_of signed_in)"
    using tab_facts(5) by (simp add: raced_def load_epochs_def cache_uin_epoch_def on_registry_def redis_ok_def)
  ultimately show ?thesis using b by (simp add: bump_epoch_in signed_in_facts(3))
qed

definition two_links :: auth where
  "two_links = (on_island (\<lambda>s. s\<lparr>linked_devices :=
     [\<lparr>ld_uin = 5, ld_device_id = ''old'', ld_label = [], ld_created_at = 0, ld_pending = False\<rparr>,
      \<lparr>ld_uin = 5, ld_device_id = ''new'', ld_label = [], ld_created_at = 10, ld_pending = False\<rparr>]\<rparr>) empty_auth)
     \<lparr>links_until := [5 \<mapsto> 1000]\<rparr>"


end
