(* ===== verification/Identity_Runs.thy ===== *)
theory Identity_Runs
  imports Session_Runs
begin

text \<open>
  Where a signing key leads: recovery follows its account over a move and is not captured by later
  registrations or rotations, the keys of every row keep their shape, and what the spellings of a
  key and the reuse of a number do to the people they belong to.
\<close>

section \<open>The key after a move\<close>

lemma filter_key_moved:
  "filter (\<lambda>x. ac_signing_key x = sk) (filter (\<lambda>x. ac_uin x \<noteq> old) (as @ [b])) =
     filter (\<lambda>x. ac_uin x \<noteq> old) (filter (\<lambda>x. ac_signing_key x = sk) as) @
     (if ac_signing_key b = sk \<and> ac_uin b \<noteq> old then [b] else [])"
  by (simp add: conj_commute)

lemma key_leads:
  assumes "uin_for_signing_key R sk = Some u" "registry_ok R"
  shows "\<exists>a \<in> set (accounts R). ac_uin a = u \<and> ac_signing_key a = sk \<and> find_account R u = Some a \<and>
    (\<forall>b \<in> set (accounts R). ac_signing_key b = sk \<longrightarrow> claims_before a b)"
proof -
  obtain a where a: "first_claim (filter (\<lambda>a. ac_signing_key a = sk) (accounts R)) = Some a" "ac_uin a = u"
    using assms(1) by (auto simp: uin_for_signing_key_def)
  have m: "a \<in> set (accounts R)" "ac_signing_key a = sk" using first_claim_mem [OF a(1)] by auto
  moreover have "find_account R u = Some a"
    using unique_key_get_row [of ac_uin "accounts R" a] assms(2) m(1) a(2) by (simp add: registry_ok_def find_account_def)
  moreover have "claims_before a b" if "b \<in> set (accounts R)" "ac_signing_key b = sk" for b
    using first_claim_least [OF a(1), of b] that by simp
  ultimately show ?thesis using a(2) by blast
qed

lemma moved_row_claim:
  "claim_time (moved_row now target a) = claim_time a" "ac_signing_key (moved_row now target a) = ac_signing_key a"
  by (simp_all add: moved_row_def claim_time_def new_account_def)

text \<open>
  Recovery follows the person: when the account a signing key leads to moves to another number,
  the key leads to that number, unless another account claimed the very same key at the very same
  instant.
\<close>

theorem recovery_follows_move:
  assumes "registry_ok R" "uin_for_signing_key R sk = Some old" "perform_migration now old target R = (Inr t, R')"
    "\<And>a b. find_account R old = Some a \<Longrightarrow> b \<in> set (accounts R) \<Longrightarrow> ac_signing_key b = sk \<Longrightarrow> ac_uin b \<noteq> old \<Longrightarrow>
       claim_time b \<noteq> claim_time a"
  shows "uin_for_signing_key R' sk = Some target"
  using assms(3)
proof (cases rule: migration_cases)
  case (moves a)
  note t = moved_tables(1) [of old target R now a, folded moves(4)]
  obtain a' where a': "find_account R old = Some a'" "ac_signing_key a' = sk" "ac_uin a' = old"
    "\<And>b. b \<in> set (accounts R) \<Longrightarrow> ac_signing_key b = sk \<Longrightarrow> claims_before a' b"
    using key_leads [OF assms(2,1)] by blast
  have a: "a' = a" using a'(1) moves(2) by simp
  have ne: "target \<noteq> old" using moves(2,3) find_account_SomeD by force
  let ?n = "moved_row now target a"
  let ?as = "filter (\<lambda>x. ac_signing_key x = sk) (accounts R')"
  have n: "?n \<in> set ?as" using a' a ne by (auto simp: t moved_row_claim)
  have "claim_time ?n < claim_time b" if "b \<in> set ?as" "ac_uin b \<noteq> ac_uin ?n" for b
  proof -
    have b: "b \<in> set (accounts R)" "ac_signing_key b = sk" "ac_uin b \<noteq> old" using that ne by (auto simp: t split: if_splits)
    have "claims_before a b" using a'(4) [OF b(1,2)] a by simp
    then show ?thesis using assms(4) [OF moves(2) b] by (auto simp: claims_before_def moved_row_claim)
  qed
  then show ?thesis
    using first_claim_strict [OF n] by (auto simp: uin_for_signing_key_def)
qed simp

definition two_claims :: registry where
  "two_claims = empty_registry\<lparr>accounts := [new_account 9 70 ''late'' ''ik'' ''sk'', new_account 0 80 ''first'' ''ik'' ''sk'']\<rparr>"

theorem recovery_follows_move_witness:
  "uin_for_signing_key two_claims ''sk'' = Some 80 \<and>
   uin_for_signing_key (snd (perform_migration 20 80 60 two_claims)) ''sk'' = Some 60"
proof -
  have ok: "registry_ok two_claims"
    by (simp add: registry_ok_def two_claims_def empty_registry_def unique_key_def new_account_def deeds_ok_def listings_ok_def)
  have l: "uin_for_signing_key two_claims ''sk'' = Some 80" by code_simp
  have "fst (perform_migration 20 80 60 two_claims) = Inr 60" by code_simp
  then have m: "perform_migration 20 80 60 two_claims = (Inr 60, snd (perform_migration 20 80 60 two_claims))"
    by (metis prod.collapse)
  have t: "claim_time b \<noteq> claim_time a" if "find_account two_claims 80 = Some a" "b \<in> set (accounts two_claims)" "ac_uin b \<noteq> 80" for a b
    using that by (auto simp: two_claims_def find_account_def get_row_Cons new_account_def claim_time_def)
  show ?thesis by (intro conjI l recovery_follows_move [OF ok l m]) (rule t)
qed

section \<open>The key under registrations and rotations\<close>

lemma first_claim_append:
  assumes "first_claim as = Some a" "\<And>b. b \<in> set bs \<Longrightarrow> claim_time a < claim_time b"
  shows "map_option ac_uin (first_claim (as @ bs)) = Some (ac_uin a)"
proof -
  obtain c where c: "first_claim (as @ bs) = Some c"
    using first_claim_None [of "as @ bs"] assms(1) by (cases "first_claim (as @ bs)") auto
  have "a \<in> set as" by (rule first_claim_mem [OF assms(1)])
  then have ca: "claims_before c a" using first_claim_least [OF c, of a] by simp
  have "c \<in> set as" using first_claim_mem [OF c] assms(2) [of c] ca by (auto simp: claims_before_def)
  then have "claims_before a c" by (rule first_claim_least [OF assms(1)])
  with ca c show ?thesis by (auto simp: claims_before_def)
qed

text \<open>Updates that touch neither the keys nor the claims leave every lookup where it was.\<close>

lemma first_claim_map:
  assumes "\<And>a. claim_time (f a) = claim_time a" "\<And>a. ac_uin (f a) = ac_uin a"
  shows "first_claim (map f as) = map_option f (first_claim as)"
  by (induction as) (auto simp: claims_before_def assms split: option.splits)

lemma key_update_other:
  assumes "\<And>a. claim_time (f a) = claim_time a" "\<And>a. ac_uin (f a) = ac_uin a" "\<And>a. ac_signing_key (f a) = ac_signing_key a"
  shows "uin_for_signing_key (update_account u f R) sk = uin_for_signing_key R sk"
proof -
  have "filter (\<lambda>a. ac_signing_key a = sk) (map (\<lambda>a. if ac_uin a = u then f a else a) (accounts R))
      = map (\<lambda>a. if ac_uin a = u then f a else a) (filter (\<lambda>a. ac_signing_key a = sk) (accounts R))"
    by (simp add: filter_map o_def assms if_distrib [of ac_signing_key] cong: if_cong)
  moreover have "first_claim (map (\<lambda>a. if ac_uin a = u then f a else a) as) = map_option (\<lambda>a. if ac_uin a = u then f a else a) (first_claim as)" for as
    by (rule first_claim_map) (simp_all add: assms)
  ultimately show ?thesis by (simp add: uin_for_signing_key_def update_account_def option.map_comp o_def assms if_distrib [of ac_uin] cong: if_cong)
qed

lemma open_door_accounts:
  "open_door env hash now policy field R = Inr (via, resident, reserved, R1) \<Longrightarrow> accounts R1 = accounts R"
  by (cases rule: open_door_cases [of env hash now policy field R via resident reserved R1])
    (auto simp: spend_nonce_Some consume_invite_def split: option.splits)

lemma converted_columns:
  "claim_time (grant_badge k a) = claim_time a" "ac_signing_key (grant_badge k a) = ac_signing_key a"
  "ac_identity_key (grant_badge k a) = ac_identity_key a"
  "claim_time (clear_guest_columns a) = claim_time a" "ac_signing_key (clear_guest_columns a) = ac_signing_key a"
  by (simp_all add: grant_badge_def clear_guest_columns_def claim_time_def Let_def split: option.split)

lemma convert_guest_key: "uin_for_signing_key (convert_guest now ik resident u R) sk = uin_for_signing_key R sk"
proof -
  have "uin_for_signing_key (bump_uin_epoch u R) sk = uin_for_signing_key R sk" for R
    by (simp add: uin_for_signing_key_def bump_uin_epoch_def)
  then show ?thesis unfolding convert_guest_def
    by (simp, intro key_update_other) (auto simp: Let_def converted_columns convert_guest_uin claim_time_def grant_badge_def clear_guest_columns_def split: option.split)
qed

lemma register_keeps_claim:
  assumes "register_account env hash now policy rg revoked draws R = (r, R')" "uin_for_signing_key R sk = Some u"
    "\<And>a. a \<in> set (accounts R) \<Longrightarrow> claim_time a < now"
  shows "uin_for_signing_key R' sk = Some u"
  using assms(1)
proof (cases rule: register_cases)
  case (converts via resident R1 g)
  then show ?thesis
    using assms(2) open_door_accounts [OF converts(1)] by (simp add: convert_guest_key) (simp add: uin_for_signing_key_def)
next
  case (creates via resident reserved R1 h v)
  obtain a where a: "first_claim (filter (\<lambda>a. ac_signing_key a = sk) (accounts R)) = Some a" "ac_uin a = u"
    using assms(2) by (auto simp: uin_for_signing_key_def)
  have "claim_time a < now" using first_claim_mem [OF a(1)] assms(3) by auto
  then have "claim_time a < claim_time (registered_row now v via resident rg)"
    by (simp add: registered_row_def new_account_def claim_time_def Let_def)
  then show ?thesis
    using first_claim_append [OF a(1), of "filter (\<lambda>a. ac_signing_key a = sk) [registered_row now v via resident rg]"] a(2)
      open_door_accounts [OF creates(1)] by (auto simp: creates(4) uin_for_signing_key_def)
qed (use assms(2) in simp)

text \<open>A registration leaves the registry its door made, or nothing.\<close>

lemma mint_registry: "registry_of (snd (mint lib now v d flag B)) = registry_of B"
  using uin_epoch_state [of now v B] by (cases "uin_epoch now v B") (auto simp: mint_def)

lemma after_register_registry: "registry_of (snd (after_register lib now d v c B)) = registry_of B"
  by (auto simp: after_register_def mint_registry on_island_def Let_def bearers_retired_def send_frame_def cache_uin_epoch_def
      split: option.splits)

lemma register_registry:
  "registry_of (snd (register lib env hash now policy tenure draws b A)) = registry_of A \<or>
   (\<exists>pol rg revoked. decode_key32 (rg_identity_key rg) \<noteq> None \<and> decode_key32 (rg_signing_key rg) \<noteq> None \<and>
      registry_of (snd (register lib env hash now policy tenure draws b A)) =
      snd (register_account env hash now pol rg revoked draws (registry_of A)))"
proof (cases "pubkey32 (ri_identity_key b) ''identity_key''")
  case (Inr ik)
  note ik = Inr
  show ?thesis
  proof (cases "pubkey32 (ri_signing_key b) ''signing_key''")
    case (Inr sk)
    note sk = Inr
    show ?thesis
    proof (cases "register_proof lib now sk (ri_challenge b) (ri_signature b)")
      case (Inr proven)
      note proven = Inr
      show ?thesis
      proof (cases policy)
        case (Some pol)
        define rg where "rg = \<lparr>rg_nickname = ri_nickname b, rg_identity_key = ik, rg_signing_key = sk, rg_invite = ri_invite b,
                    rg_desired = ri_desired b, rg_proven = proven,
                    rg_tenure = (case asks_tenure proven pol b of None \<Rightarrow> False | Some u \<Rightarrow> tenure u)\<rparr>"
        define revoked where "revoked = (\<lambda>u. device_is_revoked now u (ri_device b) A = Some True)"
        obtain x R where x: "register_account env hash now pol rg revoked draws (registry_of A) = (x, R)" by fastforce
        note r = register_def [of lib env hash now policy tenure draws b A, unfolded ik sum.case sk proven Some option.case Let_def,
            folded rg_def revoked_def, unfolded x prod.case]
        show ?thesis
        proof (cases x)
          case (Inr y)
          then obtain u via resident converted where "x = Inr (u, via, resident, converted)" by (cases y) auto
          then have "registry_of (snd (register lib env hash now (Some pol) tenure draws b A)) \<in> {registry_of A, R}"
            using after_register_registry [of lib now "ri_device b" u converted "A\<lparr>registry_of := R\<rparr>"] by (auto simp: r split: prod.split)
          moreover have "decode_key32 (rg_identity_key rg) \<noteq> None" "decode_key32 (rg_signing_key rg) \<noteq> None"
            using pubkey_ok [OF ik] pubkey_ok [OF sk] by (auto simp: rg_def)
          ultimately show ?thesis using x Some by (metis insertE singletonD snd_conv)
        qed (simp add: r Some)
      qed (simp add: register_def ik sk proven)
    qed (simp add: register_def ik sk)
  qed (simp add: register_def ik)
qed (simp add: register_def)

lemma register_handler_keeps:
  assumes "uin_for_signing_key (registry_of A) sk = Some u"
    "\<And>a. a \<in> set (accounts (registry_of A)) \<Longrightarrow> claim_time a < now"
  shows "uin_for_signing_key (registry_of (snd (register lib env hash now policy tenure draws b A))) sk = Some u"
  using register_registry [of lib env hash now policy tenure draws b A] register_keeps_claim [OF _ assms] assms(1)
  by (metis prod.collapse)

text \<open>Rows other than the one a key leads to may drop the key.\<close>

lemma first_claim_subset:
  assumes "first_claim as = Some a" "a \<in> set bs" "set bs \<subseteq> set as"
  shows "map_option ac_uin (first_claim bs) = Some (ac_uin a)"
proof -
  obtain c where c: "first_claim bs = Some c" using assms(2) first_claim_None [of bs] by fastforce
  have "claims_before c a" by (rule first_claim_least [OF c assms(2)])
  moreover have "claims_before a c" using first_claim_least [OF assms(1)] first_claim_mem [OF c] assms(3) by blast
  ultimately show ?thesis using c by (auto simp: claims_before_def)
qed

lemma key_after_rekey:
  assumes "uin_for_signing_key R sk = Some u" "v \<noteq> u" "\<And>a. ac_signing_key (f a) \<noteq> sk"
  shows "uin_for_signing_key (update_account v f R) sk = Some u"
proof -
  obtain a where a: "first_claim (filter (\<lambda>a. ac_signing_key a = sk) (accounts R)) = Some a" "ac_uin a = u"
    using assms(1) by (auto simp: uin_for_signing_key_def)
  have "a \<in> set (filter (\<lambda>a. ac_signing_key a = sk) (accounts (update_account v f R)))"
    using first_claim_mem [OF a(1)] a(2) assms(2) by (force simp: update_account_def)
  moreover have "set (filter (\<lambda>a. ac_signing_key a = sk) (accounts (update_account v f R))) \<subseteq>
      set (filter (\<lambda>a. ac_signing_key a = sk) (accounts R))"
    using assms(3) by (auto simp: update_account_def split: if_splits)
  ultimately show ?thesis using first_claim_subset [OF a(1)] a(2) by (simp only: uin_for_signing_key_def)
qed

lemma apply_accounts:
  "accounts (registry_of (snd (apply_reissue lib now a ik sk new_sk is_signed A))) =
     accounts (update_account (ac_uin a) (\<lambda>b. b\<lparr>ac_identity_key := ik, ac_signing_key := sk,
       ac_key_unproven_since := (if ac_guest_status a \<noteq> None \<and> key_bytes_or_none (ac_signing_key a) \<noteq> Some new_sk
         then Some now else ac_key_unproven_since b)\<rparr>) (registry_of A))"
  by (auto simp: apply_reissue_def Let_def on_registry_def bump_uin_epoch_def retire_key_keeps split: option.splits)

lemma after_reissue_registry: "registry_of (after_reissue now u dev e A) = registry_of A"
  by (cases e) (simp_all add: after_reissue_def Let_def on_island_def send_frame_def cache_uin_epoch_def)

lemma judge_registry: "registry_of (snd (judge_proof lib now hosts a ik sk taken b A)) = registry_of A"
proof -
  have "registry_of (snd (x :: string answer \<times> auth)) = registry_of A"
    if "x = judge_proof lib now hosts a ik sk taken b A" for x
  proof (cases x)
    case (Pair y B)
    show ?thesis
    proof (cases y)
      case (Inr key)
      then show ?thesis using judge_accepts(4) [of lib now hosts a ik sk taken b A key B] Pair that by simp
    next
      case (Inl e)
      then show ?thesis using that Pair
        by (cases "parse_proof b") (auto simp: judge_proof_def Let_def on_island_def set_nx_def split: if_splits option.splits bool.splits)
    qed
  qed
  then show ?thesis by blast
qed

text \<open>
  What a rotation may do to the rows: nothing, or put the new keys into its own row once nobody else
  holds them, or once the old key it proved was retired by somebody who does.
\<close>

lemma reissue_rows:
  assumes "find_account (registry_of A) v = Some a" "reissue lib now required hosts ok b v dev bearer A = (out, A')"
  shows "registry_of A' = registry_of A \<or>
    (\<exists>ik new_sk s B. decode_key32 ik \<noteq> None \<and> decode_key32 (strip (xi_signing_key b)) = Some new_sk \<and>
       registry_of B = registry_of A \<and>
       registry_of A' = registry_of (snd (apply_reissue lib now a ik (strip (xi_signing_key b)) new_sk s B)) \<and>
       (signing_key_taken_by (registry_of A) new_sk v = [] \<or>
        (\<exists>r \<in> set (retired_signing_keys A). rk_uin r \<in> set (signing_key_taken_by (registry_of A) new_sk v))))"
proof -
  consider "A' = A" | ik sk must where "pubkey32 (xi_identity_key b) ''identity_key'' = Inr ik"
      "pubkey32 (xi_signing_key b) ''signing_key'' = Inr sk" "required = Some must"
    using assms by (cases "pubkey32 (xi_identity_key b) ''identity_key''"; cases "pubkey32 (xi_signing_key b) ''signing_key''"; cases required)
      (auto simp: reissue_def Let_def)
  then show ?thesis
  proof cases
    case (2 ik sk must)
    obtain new_ik new_sk where new: "decode_key32 ik = Some new_ik" "decode_key32 sk = Some new_sk" "sk = strip (xi_signing_key b)"
      using pubkey_ok [OF 2(1)] pubkey_ok [OF 2(2)] by auto
    let ?t = "signing_key_taken_by (registry_of A) new_sk v"
    define finish where "finish = (\<lambda>is_signed nonce_key A1.
                          case apply_reissue lib now a ik sk new_sk is_signed A1 of (epoch, A2) \<Rightarrow>
                            if \<not> ok
                            then (Inl (Http internal_error), case nonce_key of None \<Rightarrow> A1 | Some k \<Rightarrow> release_nx k A1)
                            else
                              let A3 = after_reissue now v dev epoch A2
                              in (case epoch of
                                    Some e \<Rightarrow> (Inr \<lparr>ro_uin = v, ro_token = issue_token lib now v e (carry_device_id dev),
                                                  ro_guest = False\<rparr>, A3)
                                  | None \<Rightarrow> (case mint lib now v (carry_device_id dev) False A3 of
                                              (out, A4) \<Rightarrow> (Inr out, A4))))"
    have fin: "registry_of (snd (finish s k B)) = registry_of B \<or> registry_of (snd (finish s k B)) = registry_of (snd (apply_reissue lib now a ik sk new_sk s B))"
      for s k B
      using mint_registry [of lib now v "carry_device_id dev" False]
      by (auto simp: finish_def Let_def release_nx_def after_reissue_registry split: prod.splits option.splits) (metis after_reissue_registry snd_conv)+
    have fits: ?thesis if "A' = snd (finish s k B)" "registry_of B = registry_of A" "?t = [] \<or> (\<exists>r \<in> set (retired_signing_keys A). rk_uin r \<in> set ?t)"
      for s k B
    proof (cases "registry_of A' = registry_of B")
      case False
      then have "registry_of A' = registry_of (snd (apply_reissue lib now a ik sk new_sk s B))"
        using fin [of s k B] that(1) by simp
      then show ?thesis using that(2,3) new by (intro disjI2 exI [of _ ik] exI [of _ new_sk] exI [of _ s] exI [of _ B]) simp
    qed (simp add: that(2))
    let ?same = "key_bytes_or_none (ac_identity_key a) = Some new_ik \<and> key_bytes_or_none (ac_signing_key a) = Some new_sk"
    obtain j B where jB: "judge_proof lib now hosts a new_ik new_sk ?t b A = (j, B)" by fastforce
    have B: "registry_of B = registry_of A" using judge_registry [of lib now hosts a new_ik new_sk ?t b A] jB by simp
    have r: "(out, A') = (if ?same then
          (if must then (Inr \<lparr>ro_uin = v, ro_token = bearer, ro_guest = False\<rparr>, A)
           else (case mint lib now v (carry_device_id dev) False (on_island (bump_stat now ''reissue_samekeys'') A) of
                   (out, A1) \<Rightarrow> (Inr out, A1)))
        else if offers_proof b then (case j of Inl e \<Rightarrow> (Inl e, B) | Inr key \<Rightarrow> finish True (Some key) B)
        else if must then (Inl (coded 403 ''reissue_proof_required''), A)
        else if ?t \<noteq> [] then (Inl (coded 403 ''key_proof_required''), A)
        else finish False None (on_island (bump_stat now ''reissue_unsigned'') A))"
      unfolding assms(2) [symmetric] reissue_def 2 prod.case sum.case new(1,2) option.sel assms(1) option.case finish_def Let_def
      by (cases j) (simp_all only: jB prod.case sum.case)
    consider "registry_of A' = registry_of A" | key where "j = Inr key" "A' = snd (finish True (Some key) B)"
      | "?t = []" "A' = snd (finish False None (on_island (bump_stat now ''reissue_unsigned'') A))"
      using r mint_registry [of lib now v "carry_device_id dev" False "on_island (bump_stat now ''reissue_samekeys'') A"] B
      by (auto simp: seat_frame_keeps split: if_splits sum.splits prod.splits dest!: arg_cong [of _ _ snd])
    then show ?thesis
    proof cases
      case (2 key)
      have "?t = [] \<or> (\<exists>r \<in> set (retired_signing_keys A). rk_uin r \<in> set ?t)"
        using judge_accepts(1) [OF jB [unfolded 2(1)]] by (auto simp: accepted_proof_def dest: get_row_Some_memD)
      then show ?thesis by (rule fits [OF 2(2) B])
    next
      case 3
      then show ?thesis using fits [OF 3(2)] by (simp add: seat_frame_keeps)
    qed simp
  qed simp
qed

section \<open>Two spellings of a key\<close>

abbreviation bare_key :: "nat list \<Rightarrow> string" where
  "bare_key raw \<equiv> map b64_char (b64_values raw)"

lemma spellings:
  assumes "bytes raw"
  shows "key_spellings raw = [canonical_key raw, bare_key raw]"
proof -
  have e: "canonical_key raw = bare_key raw @ padding (length (b64_values raw))" by (simp add: canonical_key_def b64encode_def)
  have "bare_key raw = [] \<or> last (bare_key raw) \<noteq> CHR ''=''"
    using b64_values_bound [OF assms] b64_char_clean(1) by (cases "b64_values raw" rule: rev_cases) auto
  then have "dropWhile (\<lambda>c. c = CHR ''='') (rev (bare_key raw)) = rev (bare_key raw)"
    by (auto simp: dropWhile_eq_self_iff hd_rev)
  moreover have "dropWhile (\<lambda>c. c = CHR ''='') (replicate k CHR ''='' @ xs) = dropWhile (\<lambda>c. c = CHR ''='') xs" for k xs
    by (induction k) simp_all
  ultimately show ?thesis by (simp add: key_spellings_def e padding_def)
qed

lemma spelling_reads: "bytes raw \<Longrightarrow> length raw = 32 \<Longrightarrow> sk \<in> set (key_spellings raw) \<Longrightarrow> decode_key32 sk = Some raw"
  by (auto simp: spellings canonical_reads) (simp add: decode_key32_def decode_bytes_def b64_any_canonical)

text \<open>
  X10. Nobody else captures a recovery: while the key of an account is stored in either of its two
  plain spellings, no registration, proven or not, and no rotation of another account changes which
  number that key leads back to, unless the rotation proves a key that an account with this very
  signing key has itself retired.
\<close>

theorem recovery_not_captured:
  assumes "uin_for_signing_key (registry_of A) sk = Some u" "sk \<in> set (key_spellings raw)" "bytes raw" "length raw = 32"
    "\<And>a. a \<in> set (accounts (registry_of A)) \<Longrightarrow> claim_time a < now"
    "\<And>r a. r \<in> set (retired_signing_keys A) \<Longrightarrow> a \<in> set (accounts (registry_of A)) \<Longrightarrow>
       ac_signing_key a \<in> set (key_spellings raw) \<Longrightarrow> rk_uin r \<noteq> ac_uin a" "v \<noteq> u"
  shows "uin_for_signing_key (registry_of (snd (register lib env hash now policy tenure draws b A))) sk = Some u \<and>
    uin_for_signing_key (registry_of (snd (reissue lib now required hosts ok c v dev bearer A))) sk = Some u"
proof
  show "uin_for_signing_key (registry_of (snd (register lib env hash now policy tenure draws b A))) sk = Some u"
    using register_handler_keeps [OF assms(1,5)] .
  obtain out A' where r: "reissue lib now required hosts ok c v dev bearer A = (out, A')" by fastforce
  show "uin_for_signing_key (registry_of (snd (reissue lib now required hosts ok c v dev bearer A))) sk = Some u"
  proof (cases "find_account (registry_of A) v")
    case None
    then have "snd (reissue lib now required hosts ok c v dev bearer A) = A"
      by (simp add: reissue_def Let_def split: sum.split)
    then show ?thesis using assms(1) by simp
  next
    case (Some a)
    obtain x where x: "x \<in> set (accounts (registry_of A))" "ac_signing_key x = sk" "ac_uin x = u"
      using assms(1) by (auto simp: uin_for_signing_key_def dest!: first_claim_mem)
    have v: "ac_uin a = v" using Some by (simp add: find_account_SomeD)
    consider "registry_of A' = registry_of A" | ik new_sk s B where
        "decode_key32 (strip (xi_signing_key c)) = Some new_sk" "registry_of B = registry_of A"
        "registry_of A' = registry_of (snd (apply_reissue lib now a ik (strip (xi_signing_key c)) new_sk s B))"
        "signing_key_taken_by (registry_of A) new_sk v = [] \<or>
          (\<exists>r \<in> set (retired_signing_keys A). rk_uin r \<in> set (signing_key_taken_by (registry_of A) new_sk v))"
      using reissue_rows [OF Some r] by blast
    then show ?thesis
    proof cases
      case (2 ik new_sk s B)
      have "strip (xi_signing_key c) \<noteq> sk"
      proof
        assume "strip (xi_signing_key c) = sk"
        then have "new_sk = raw" using 2(1) spelling_reads [OF assms(3,4,2)] by simp
        then show False using 2(4) x assms(2,6,7) by (force simp: signing_key_taken_by_def filter_empty_conv)
      qed
      then show ?thesis
        using key_after_rekey [OF assms(1,7)] by (simp add: uin_for_signing_key_def r 2(2,3) apply_accounts v)
    qed (use assms(1) in \<open>simp add: r uin_for_signing_key_def\<close>)
  qed
qed

text \<open>
  X11. An account whose key was stored without padding is locked out of its own key: registration
  accepts the spelling, but recovery and refresh decode the presented key strictly and then compare
  it with the stored text, so whatever key, challenge and signature are presented, neither door ever
  answers with a session of that account.
\<close>

lemma lenient_bare: "(\<And>v. v \<in> set vs \<Longrightarrow> v < 64) \<Longrightarrow>
    lenient_values acc 0 (map b64_char vs) = (if length (acc @ vs) mod 4 = 0 then Some (acc @ vs) else None)"
  by (induction vs arbitrary: acc) (simp_all add: b64_char_clean b64_value_char)

lemma length_values: "3 * length (b64_values raw) \<le> 4 * length raw + 2 \<and> 4 * length raw \<le> 3 * length (b64_values raw)"
  by (induction raw rule: b64_values.induct) auto

lemma bare_unreadable:
  assumes "bytes raw" "length raw = 32"
  shows "lenient_b64decode (bare_key raw) = None"
proof -
  have "length (b64_values raw) = 43" using length_values [of raw] assms(2) by simp
  then show ?thesis using lenient_bare [of "b64_values raw" "[]"] b64_values_bound [OF assms(1)] by (simp add: lenient_b64decode_def)
qed

theorem unpadded_key_locked_out:
  assumes "bytes raw" "length raw = 32" "registry_ok (registry_of A)" "find_account (registry_of A) u = Some a"
    "ac_signing_key a = bare_key raw"
  shows "(\<forall>out. fst (recover lib now key challenge signature d A) = Inr out \<longrightarrow> ro_uin out \<noteq> u) \<and>
    (\<forall>out moved. fst (refresh lib now budget v key challenge signature d A) = Inr (out, moved) \<longrightarrow> ro_uin out \<noteq> u)"
proof -
  have m: "ro_uin (fst (mint lib now w d g B)) = w" for w g B by (simp add: mint_def split: prod.split)
  have row: "x = a" if "x \<in> set (accounts (registry_of A))" "ac_uin x = u" for x
    using unique_key_get_row [of ac_uin "accounts (registry_of A)" x] that assms(3,4) by (simp add: registry_ok_def find_account_def)
  have no: "recover_proof lib now (bare_key raw) challenge signature \<noteq> Inr ()"
    by (simp add: recover_proof_def proves_key_def bare_unreadable [OF assms(1,2)])
  have "ro_uin out \<noteq> u" if f: "fst (recover lib now key challenge signature d A) = Inr out" for out
  proof
    assume "ro_uin out = u"
    obtain A' where r: "recover lib now key challenge signature d A = (Inr out, A')" using f by (metis prod.collapse)
    then have "uin_for_signing_key (registry_of A) (strip key) = Some u"
      using recover_served [OF r] m \<open>ro_uin out = u\<close> by (metis fst_conv)
    then have "strip key = bare_key raw" using row assms(5) by (auto simp: uin_for_signing_key_def dest!: first_claim_mem)
    then show False using r no by (auto simp: recover_def Let_def split: sum.splits)
  qed
  moreover have "ro_uin out \<noteq> u" if f: "fst (refresh lib now budget v key challenge signature d A) = Inr (out, moved)" for out moved
  proof
    assume "ro_uin out = u"
    obtain A' where r: "refresh lib now budget v key challenge signature d A = (Inr (out, moved), A')" using f by (metis prod.collapse)
    then have "resolve_refresh (registry_of A) v (strip key) \<in> {Owned u, Moved u}"
      using refresh_served [OF r] m \<open>ro_uin out = u\<close> by (metis fst_conv insertCI)
    then have "\<exists>x \<in> set (accounts (registry_of A)). ac_uin x = u \<and> ac_signing_key x = strip key"
      using set_take_subset [of 2 "filter (\<lambda>a. ac_signing_key a = strip key) (accounts (registry_of A))"]
      by (auto simp: resolve_refresh_def list_ex_iff split: if_splits list.splits)
    then have "strip key = bare_key raw" using row assms(5) by auto
    then show False using r no by (auto simp: refresh_def Let_def split: sum.splits)
  qed
  ultimately show ?thesis by blast
qed

text \<open>An older account that would take the key of number 5, and an account stored with a bare key.\<close>

definition rivals :: auth where
  "rivals = on_registry (\<lambda>R. R\<lparr>accounts := [new_account 0 4 ''mal'' (canonical_key other_key) (canonical_key other_key),
     new_account 1 5 ''eve'' (canonical_key blank_key) (canonical_key blank_key)]\<rparr>) empty_auth"

definition grab :: reissue_in where
  "grab = \<lparr>xi_identity_key = canonical_key other_key, xi_signing_key = canonical_key blank_key, xi_proof_v = None, xi_host = None,
     xi_old_signing_key = None, xi_ts = None, xi_nonce = None, xi_signature = None\<rparr>"

theorem recovery_not_captured_witness:
  "uin_for_signing_key (registry_of (snd (reissue old_key_lib 2 (Some False) ([], False) True grab 4 ''primary'' ''b'' rivals)))
     (canonical_key blank_key) = Some 5"
proof -
  have n: "canonical_key other_key \<noteq> canonical_key blank_key" using canonical_key_inject [OF sample_keys(3,1)] sample_keys(5) by blast
  have l: "uin_for_signing_key (registry_of rivals) (canonical_key blank_key) = Some 5"
    using n by (simp add: uin_for_signing_key_def rivals_def on_registry_def new_account_def)
  have c: "claim_time a < 2" if "a \<in> set (accounts (registry_of rivals))" for a
    using that by (auto simp: rivals_def on_registry_def new_account_def claim_time_def)
  have r: "retired_signing_keys rivals = []" by (simp add: rivals_def on_registry_def empty_auth_def)
  show ?thesis
    using recovery_not_captured [OF l _ sample_keys(1,2) c, of 4] r by (simp add: key_spellings_def)
qed

definition bare_account :: auth where
  "bare_account = on_registry (\<lambda>R. R\<lparr>accounts := [new_account 0 5 ''eve'' (bare_key blank_key) (bare_key blank_key)]\<rparr>) empty_auth"

theorem unpadded_key_locked_out_witness:
  "fst (recover old_key_lib 1 (bare_key blank_key) ''t'' ''AAAA'' None bare_account)
     \<noteq> Inr \<lparr>ro_uin = 5, ro_token = ''t'', ro_guest = False\<rparr> \<and>
   fst (recover old_key_lib 1 (canonical_key blank_key) ''t'' ''AAAA'' None bare_account)
     \<noteq> Inr \<lparr>ro_uin = 5, ro_token = ''t'', ro_guest = False\<rparr>"
proof -
  have ok: "registry_ok (registry_of bare_account)"
    by (simp add: bare_account_def on_registry_def empty_auth_def registry_ok_def empty_registry_def unique_key_def new_account_def
        deeds_ok_def listings_ok_def)
  have f: "find_account (registry_of bare_account) 5 = Some (new_account 0 5 ''eve'' (bare_key blank_key) (bare_key blank_key))"
    by (simp add: bare_account_def on_registry_def find_account_def get_row_Cons new_account_def)
  note no = unpadded_key_locked_out [OF sample_keys(1,2) ok f, of old_key_lib 1 _ "''t''" "''AAAA''" None, THEN conjunct1]
  show ?thesis using no [of "bare_key blank_key"] no [of "canonical_key blank_key"] by (auto simp: new_account_def)
qed

section \<open>The number that was taken again\<close>

text \<open>
  X12. An install left behind by a move is told that its identity does not exist once somebody else
  has taken the number it left: a refresh of that number under a proven key answers
  \<open>identity_not_found\<close>, although the same proof is served by recovery, which finds the account under
  its new number.
\<close>

theorem moved_device_told_not_found:
  assumes "recover_proof lib now (strip key) challenge signature = Inr ()" "uin_for_signing_key (registry_of A) (strip key) = Some v"
    "find_account (registry_of A) u = Some b" "\<And>x. x \<in> set (accounts (registry_of A)) \<Longrightarrow> ac_uin x = u \<Longrightarrow> ac_signing_key x \<noteq> strip key"
    "rotated_account lib (strip key) A = None" "refuse_revoked_device now v d A = Inr ()"
  shows "fst (refresh lib now budget u key challenge signature d A) = Inl (coded 404 ''identity_not_found'') \<and>
    (\<exists>out. fst (recover lib now key challenge signature d A) = Inr out \<and> ro_uin out = v)"
proof -
  have "resolve_refresh (registry_of A) u (strip key) = Absent"
    using assms(3,4) by (auto simp: resolve_refresh_def list_ex_iff)
  then have "fst (refresh lib now budget u key challenge signature d A) = Inl (coded 404 ''identity_not_found'')"
    using assms(1,5) by (simp add: refresh_def Let_def)
  moreover have "\<exists>out. fst (recover lib now key challenge signature d A) = Inr out \<and> ro_uin out = v"
    using assms(1,2,6) by (simp add: recover_def Let_def mint_def split: prod.split)
  ultimately show ?thesis by blast
qed

definition retaken :: auth where
  "retaken = on_registry (\<lambda>R. R\<lparr>accounts := [new_account 9 5 ''new'' (canonical_key other_key) (canonical_key other_key),
     new_account 0 6 ''eve'' (canonical_key blank_key) (canonical_key blank_key)]\<rparr>) empty_auth"

theorem moved_device_told_not_found_witness:
  "fst (refresh old_key_lib 20 (\<lambda>_. Inr ()) 5 (canonical_key blank_key) ''t'' ''AAAA'' None retaken)
     = Inl (coded 404 ''identity_not_found'')"
proof -
  have n: "canonical_key other_key \<noteq> canonical_key blank_key" using canonical_key_inject [OF sample_keys(3,1)] sample_keys(5) by blast
  have l: "uin_for_signing_key (registry_of retaken) (strip (canonical_key blank_key)) = Some 6"
    using n by (simp add: uin_for_signing_key_def retaken_def on_registry_def new_account_def sample_reads)
  have f: "find_account (registry_of retaken) 5 = Some (new_account 9 5 ''new'' (canonical_key other_key) (canonical_key other_key))"
    by (simp add: retaken_def on_registry_def find_account_def get_row_Cons new_account_def)
  have k: "ac_signing_key x \<noteq> strip (canonical_key blank_key)" if "x \<in> set (accounts (registry_of retaken))" "ac_uin x = 5" for x
    using that n by (auto simp: retaken_def on_registry_def new_account_def sample_reads)
  have r: "rotated_account old_key_lib (strip (canonical_key blank_key)) retaken = None"
    by (simp add: rotated_account_def retaken_def on_registry_def empty_auth_def get_row_Nil split: option.split)
  have p: "recover_proof old_key_lib 20 (strip (canonical_key blank_key)) ''t'' ''AAAA'' = Inr ()"
    by (simp only: sample_reads old_key_proves)
  have d: "refuse_revoked_device 20 6 None retaken = Inr ()" by (simp add: refuse_revoked_device_def device_is_revoked_def)
  show ?thesis by (rule moved_device_told_not_found [OF p l f k r d, THEN conjunct1])
qed

section \<open>What a move shows\<close>

text \<open>
  X13. A move brings a hidden mark back into view: the row of the new number carries the mark of the
  old one but not the choice to hide it, so whoever looks sees the mark the owner had hidden.
\<close>

theorem move_reveals_badge:
  assumes "find_account R old = Some a" "ac_badge_hidden a" "ac_badge a = Some k" "perform_migration now old target R = (Inr t, R')"
    "viewer \<noteq> Some old"
  shows "badge_for_viewer a viewer = None \<and>
    (\<exists>b. find_account R' target = Some b \<and> badge_for_viewer b viewer = Some k)"
  using assms(4)
proof (cases rule: migration_cases)
  case (moves c)
  have "find_account R' target = Some (moved_row now target a)"
  proof -
    have ne: "target \<noteq> old" using moves(2,3) find_account_SomeD by force
    have "get_row (\<lambda>x. ac_uin x = target) (filter (\<lambda>x. ac_uin x \<noteq> old) (accounts R)) = None"
      using moves(3) by (auto simp: get_row_None)
    then show ?thesis
      using moves(2) assms(1) ne by (simp add: find_account_def moved_tables(1) [of old target R now c, folded moves(4)] get_row_append get_row_Cons)
  qed
  moreover have "ac_uin a = old" using assms(1) by (simp add: find_account_SomeD)
  ultimately show ?thesis using assms(2,3,5) by (simp add: badge_for_viewer_def moved_row_def new_account_def)
qed simp

definition hidden_mark :: registry where
  "hidden_mark = empty_registry\<lparr>accounts := [(new_account 0 80 ''eve'' ''ik'' ''sk'')\<lparr>ac_badge := Some ''founder'', ac_badge_hidden := True\<rparr>]\<rparr>"

theorem move_reveals_badge_witness:
  "map_option (\<lambda>b. badge_for_viewer b (Some 9)) (find_account (snd (perform_migration 5 80 60 hidden_mark)) 60) = Some (Some ''founder'')"
proof -
  have f: "find_account hidden_mark 80 = Some ((new_account 0 80 ''eve'' ''ik'' ''sk'')\<lparr>ac_badge := Some ''founder'', ac_badge_hidden := True\<rparr>)"
    by (simp add: hidden_mark_def find_account_def get_row_Cons new_account_def)
  have "fst (perform_migration 5 80 60 hidden_mark) = Inr 60" by code_simp
  then have m: "perform_migration 5 80 60 hidden_mark = (Inr 60, snd (perform_migration 5 80 60 hidden_mark))"
    by (metis prod.collapse)
  show ?thesis using move_reveals_badge [OF f _ _ m, of "''founder''" "Some 9"] by auto
qed

end
