(* ===== verification/Spec2Isabelle.thy ===== *)
theory Spec2Isabelle
  imports Queue_Runs Log_Routes Limiter_Windows Cluster_Runs Push_Health Delivery_Runs Identity_Runs
begin

text \<open>
  A verification library for the RCQ island server, the FastAPI backend under \<open>src/app\<close>.

  \<^bold>\<open>The program.\<close> An island keeps accounts (a number, two public keys, no password), queues sealed
  messages for them, wakes their devices and hosts rooms. A request passes the gate of
  \<open>core/security.py\<close> (token, epoch of the number, suspension, denylist of revoked installs), the
  guest rule of its route (\<open>core/guest_policy.py\<close>) and the limiter (\<open>core/rate_limit.py\<close>) before its
  handler runs. \<open>routers/messages.py\<close> deposits into the offline queue and the room log, hands frames
  to \<open>services/connection_manager.py\<close> and wakes devices through \<open>services/apns.py\<close> and
  \<open>services/unifiedpush.py\<close>; a device drains the queue and the log and acknowledges what it has.
  Numbers are claimed, sold and moved by \<open>routers/uin_shop.py\<close> and \<open>routers/migrate.py\<close> against
  documents the till signs. \<open>routers/auth.py\<close> hands out sessions for proofs of a signing key.

  \<^bold>\<open>How the model is built.\<close> A SQL table is the list of its rows (a record per row), a Redis key its
  value with its expiry, one handler one function from the state before to the answer and the state
  after; a refused request answers \<open>Inl\<close> of an HTTP error, and what it wrote before the refusal and
  committed is in the state. One commit is one step: interleavings are sequences of steps, and where
  the code itself splits a read from a write (a rebuild of a mirror, a fan-out over workers) the two
  halves are separate steps. Time is a number of microseconds and an argument of every handler, the
  random draws of a handler are an argument too. Code of other packages (JWT, Ed25519, SHA-256,
  PSS, Apple, the push distributors, the IP address library) is a function argument, and what a
  theorem needs of it is a named hypothesis with an instance in the theorem's witness.

  \<^bold>\<open>The theories.\<close>
  \<^item> \<open>Rcq_Prelude\<close>: outcomes, tables, expiring keys, reachable states. \<open>Interfaces\<close>: the locales
    \<open>seq_counter\<close>, \<open>block_counter\<close>, \<open>cursor_store\<close> and \<open>step_invariant\<close>, each interpreted on the
    definitions of the component that provides it. \<open>Schema\<close>: the rows of \<open>models/\<close>.
  \<^item> \<open>Guest_Policy\<close>: the mirror of guest rows with its pending marks, the route policy; a guest is
    never taken for a resident, whatever mints, conversions, rebuilds and outages interleave.
  \<^item> \<open>Offline_Queue\<close>, \<open>Queue_Runs\<close>: floors, cursors, the acknowledged prefix, the reaper, the
    retention sweep; every deposit a device has not acknowledged stays served to it.
  \<^item> \<open>Group_Log\<close>, \<open>Fair_Page\<close>, \<open>Log_Routes\<close>: sequences of a room, reader marks, the fair page
    with its heap, fetch and acknowledgement.
  \<^item> \<open>Rate_Limit\<close>, \<open>Limiter_Windows\<close>: the two Lua scripts and the in-process window, how many calls
    any window admits.
  \<^item> \<open>Cluster\<close>, \<open>Cluster_Runs\<close>: the workers of the connection manager and the channel between them;
    bounds on sockets, kicks, fan-out against broadcast.
  \<^item> \<open>Push\<close>, \<open>Push_Health\<close>: who is woken, through which lane, and what the answers do to a
    registration.
  \<^item> \<open>Deposit_Auth\<close>: blind-signed deposit tokens, byte by byte.
  \<^item> \<open>Delivery\<close>, \<open>Delivery_Runs\<close>: the sealed deposit, the sealed fan-out to a room and the broadcast,
    with every gate and every effect.
  \<^item> \<open>Uin_Numbers\<close>, \<open>Voucher\<close>, \<open>Uin_Shop\<close>, \<open>Shop_Runs\<close>: scarcity and allocation of numbers, the
    documents of the till, the doors of the shop, a move; a number has one holder.
  \<^item> \<open>Proof_Bytes\<close>, \<open>Key_Rows\<close>: spellings of a key, the bytes a key holder signs, which account a
    key leads to.
  \<^item> \<open>Tokens\<close>, \<open>Accounts\<close>, \<open>Session_Runs\<close>, \<open>Identity_Runs\<close>: tokens and their gate, linked devices,
    registration, recovery, refresh and rotation; which sessions a rotation, a recovery and a
    revocation end, and where a key leads afterwards.

  \<^bold>\<open>Loops and bounds.\<close> Every loop of the modelled code is a terminating function: the fair page by the
  rows left to serve, the counter loop of \<open>mgf1\<close> by the bytes still missing, the proof-of-work search
  and the allocator by the list of draws they are given. Python integers are \<open>int\<close>; the text form of
  an integer is refused beyond 4300 digits as the interpreter does. Columns the modelled handlers
  neither read nor write are left out of the records.

  \<^bold>\<open>Not modelled.\<close> The HTML of the operator console, command line tools, start-up and configuration:
  wiring and I/O. Contact requests, prekeys, the vault, call signalling on the socket, audio rooms,
  the relay market, federation gossip, media and reports have their own tables and are listed in the
  manifest with their status. Log lines, metrics and activity counters are left out everywhere.
\<close>

end
